(* ===== verification/Flow_Prelude.thy ===== *)
theory Flow_Prelude
  imports Main "HOL-Library.AList" "HOL-Library.Word"
begin

text \<open>
  The shared vocabulary of the development: outcomes of code that may panic
  (\<open>res\<close>), Go's unordered \<^verbatim>\<open>range\<close> over a map (\<open>go_range\<close>), decimal
  printing (\<open>itoa\<close>, Go's \<^verbatim>\<open>strconv.Itoa\<close> and \<^verbatim>\<open>%d\<close>), 64-bit wrap-around,
  and the generic lemmas on association lists that the components use.
\<close>

named_theorems res_intros \<open>introduction rules for statements about outcomes\<close>

named_theorems stage_simps \<open>facts about looking up and updating stages\<close>

section \<open>Outcomes\<close>

text \<open>
  A Go function that changes state either returns (\<open>Done\<close>), or panics, leaving whatever
  it had already changed (\<open>Panic\<close>). \<open>NoFuel\<close> is the value of a call chain whose depth
  exceeds the fuel it was given; it does not exist in the program, and the development
  shows that no entry point of the program reaches it.
\<close>

datatype panic_reason =
    NilDereference
  | PanicMessage string
  | DivideByZero
  | BadTypeAssertion
  | ErrMarshalling
  | ErrPersistenceFailed
  | ErrReadingEvents
  | ErrPersistingSnapshot

datatype 's res = Done 's | Panic panic_reason 's | NoFuel

fun bind_res :: "'s res \<Rightarrow> ('s \<Rightarrow> 's res) \<Rightarrow> 's res" where
  "bind_res (Done s) f = f s"
| "bind_res (Panic p s) f = Panic p s"
| "bind_res NoFuel f = NoFuel"

fun res_all :: "('s \<Rightarrow> bool) \<Rightarrow> 's res \<Rightarrow> bool" where
  "res_all P (Done s) \<longleftrightarrow> P s"
| "res_all P (Panic p s) \<longleftrightarrow> P s"
| "res_all P NoFuel \<longleftrightarrow> True"

fun res_done :: "('s \<Rightarrow> bool) \<Rightarrow> 's res \<Rightarrow> bool" where
  "res_done P (Done s) \<longleftrightarrow> P s"
| "res_done P (Panic p s) \<longleftrightarrow> True"
| "res_done P NoFuel \<longleftrightarrow> True"

fun fold_res :: "('k \<Rightarrow> 's \<Rightarrow> 's res) \<Rightarrow> 'k list \<Rightarrow> 's \<Rightarrow> 's res" where
  "fold_res f [] s = Done s"
| "fold_res f (k # ks) s = bind_res (f k s) (fold_res f ks)"

lemma res_all_mono: "res_all P r \<Longrightarrow> (\<And>s. P s \<Longrightarrow> Q s) \<Longrightarrow> res_all Q r"
  by (cases r) auto

lemma res_done_mono: "res_done P r \<Longrightarrow> (\<And>s. P s \<Longrightarrow> Q s) \<Longrightarrow> res_done Q r"
  by (cases r) auto

lemma res_all_imp_done: "res_all P r \<Longrightarrow> res_done P r"
  by (cases r) auto

lemma res_all_conj: "res_all (\<lambda>s. P s \<and> Q s) r \<longleftrightarrow> res_all P r \<and> res_all Q r"
  by (cases r) auto

lemma res_done_conj: "res_done (\<lambda>s. P s \<and> Q s) r \<longleftrightarrow> res_done P r \<and> res_done Q r"
  by (cases r) auto

lemma res_all_Done: "res_all P r \<Longrightarrow> r = Done s \<Longrightarrow> P s"
  by simp

lemma res_done_Done: "res_done P r \<Longrightarrow> r = Done s \<Longrightarrow> P s"
  by simp

lemma bind_res_assoc: "bind_res (bind_res r f) g = bind_res r (\<lambda>s. bind_res (f s) g)"
  by (cases r) auto

lemma bind_res_Done [simp]: "bind_res r Done = r"
  by (cases r) auto

lemma bind_res_cong [fundef_cong]:
  "r = r' \<Longrightarrow> (\<And>s. r' = Done s \<Longrightarrow> f s = g s) \<Longrightarrow> bind_res r f = bind_res r' g"
  by (cases r') auto

lemma res_all_bind [res_intros]:
  assumes "res_all Q r" and "\<And>s. Q s \<Longrightarrow> P s" and "\<And>s. r = Done s \<Longrightarrow> Q s \<Longrightarrow> res_all P (f s)"
  shows "res_all P (bind_res r f)"
  using assms by (cases r) auto

lemma res_done_bind [res_intros]:
  assumes "res_done Q r" and "\<And>s. r = Done s \<Longrightarrow> Q s \<Longrightarrow> res_done P (f s)"
  shows "res_done P (bind_res r f)"
  using assms by (cases r) auto

lemma bind_res_NoFuel [res_intros]:
  assumes "r \<noteq> NoFuel" and "\<And>s. r = Done s \<Longrightarrow> f s \<noteq> NoFuel"
  shows "bind_res r f \<noteq> NoFuel"
  using assms by (cases r) auto

lemma bind_res_eq_Done:
  "bind_res r f = Done t \<longleftrightarrow> (\<exists>s. r = Done s \<and> f s = Done t)"
  by (cases r) auto

section \<open>Range over a map\<close>

text \<open>
  The order in which Go's \<^verbatim>\<open>range\<close> visits the keys of a map is not specified.
  A state that is ranged over carries the orders of its coming loops; a loop uses the
  first of them when it is an enumeration of the keys, and the insertion order otherwise.
  Every order of the keys is therefore possible, and no other list of keys is.
\<close>

definition go_range :: "'k list \<Rightarrow> 'k list \<Rightarrow> 'k list" where
  "go_range wish keys = (if distinct wish \<and> set wish = set keys then wish else keys)"

lemma set_go_range [simp]: "set (go_range wish keys) = set keys"
  by (simp add: go_range_def)

lemma distinct_go_range [simp]: "distinct keys \<Longrightarrow> distinct (go_range wish keys)"
  by (simp add: go_range_def)

lemma go_range_any: "distinct ks \<Longrightarrow> set ks = set keys \<Longrightarrow> go_range ks keys = ks"
  by (simp add: go_range_def)

section \<open>Machine integers\<close>

text \<open>\<open>int64\<close> is the value a Go \<^verbatim>\<open>int64\<close> holds after an operation with the given
  mathematical result: two's complement wrap-around.\<close>

definition int64 :: "int \<Rightarrow> int" where
  "int64 x = (x + 2 ^ 63) mod 2 ^ 64 - 2 ^ 63"

lemma int64_id: "- (2 ^ 63) \<le> x \<Longrightarrow> x < 2 ^ 63 \<Longrightarrow> int64 x = x"
  by (simp add: int64_def)

lemma int64_range: "- (2 ^ 63) \<le> int64 x \<and> int64 x < 2 ^ 63"
proof -
  have "0 \<le> (x + 2 ^ 63) mod 2 ^ 64" and "(x + 2 ^ 63) mod 2 ^ 64 < (2::int) ^ 64"
    by (simp_all only: pos_mod_sign pos_mod_bound zero_less_numeral zero_less_power)
  then show ?thesis
    by (simp add: int64_def)
qed

text \<open>Go's integer division truncates towards zero.\<close>

definition quot :: "int \<Rightarrow> int \<Rightarrow> int" where
  "quot a b = sgn a * sgn b * (\<bar>a\<bar> div \<bar>b\<bar>)"

lemma quot_nonneg: "0 \<le> a \<Longrightarrow> 0 < b \<Longrightarrow> quot a b = a div b"
  by (cases "a = 0") (simp_all add: quot_def)

section \<open>Decimal numerals\<close>

fun itoa :: "nat \<Rightarrow> string" where
  "itoa n = (if n < 10 then [char_of (48 + n)] else itoa (n div 10) @ [char_of (48 + n mod 10)])"

declare itoa.simps [simp del]

definition itoa_int :: "int \<Rightarrow> string" where
  "itoa_int i = (if i < 0 then CHR ''-'' # itoa (nat (- i)) else itoa (nat i))"

text \<open>The value a string of decimal digits denotes, used to show that \<open>itoa\<close> loses nothing.\<close>

definition digits_value :: "string \<Rightarrow> nat" where
  "digits_value cs = foldl (\<lambda>v c. 10 * v + (of_char c - 48)) 0 cs"

lemma digits_value_snoc:
  "digits_value (cs @ [c]) = 10 * digits_value cs + (of_char c - 48)"
  by (simp add: digits_value_def)

lemma digits_value_itoa [simp]: "digits_value (itoa n) = n"
proof (induction n rule: itoa.induct)
  case (1 n)
  show ?case
  proof (cases "n < 10")
    case True
    then show ?thesis
      by (subst itoa.simps) (simp add: digits_value_def)
  next
    case False
    then show ?thesis
      using 1 by (subst itoa.simps) (simp add: digits_value_snoc)
  qed
qed

lemma itoa_inj: "itoa m = itoa n \<longleftrightarrow> m = n"
  by (metis digits_value_itoa)

lemma inj_itoa: "inj itoa"
  by (simp add: inj_def itoa_inj)

lemma itoa_nonempty [simp]: "itoa n \<noteq> []"
  by (subst itoa.simps) simp

lemma itoa_digits: "c \<in> set (itoa n) \<Longrightarrow> 48 \<le> (of_char c :: nat) \<and> (of_char c :: nat) < 58"
proof (induction n rule: itoa.induct)
  case (1 n)
  show ?case
  proof (cases "n < 10")
    case True
    with "1.prems" show ?thesis
      by (subst (asm) itoa.simps) auto
  next
    case False
    with "1.prems" have "c \<in> set (itoa (n div 10)) \<or> c = char_of (48 + n mod 10)"
      by (subst (asm) itoa.simps) auto
    with "1.IH" False show ?thesis
      by auto
  qed
qed

section \<open>Association lists\<close>

lemma map_fst_update_mem:
  "k \<in> set (map fst al) \<Longrightarrow> map fst (AList.update k v al) = map fst al"
  by (induction al) auto

lemma map_fst_update_new:
  "k \<notin> set (map fst al) \<Longrightarrow> AList.update k v al = al @ [(k, v)]"
  by (induction al) auto

lemma length_update_mem:
  "k \<in> set (map fst al) \<Longrightarrow> length (AList.update k v al) = length al"
  using map_fst_update_mem [of k al v] by (metis length_map)

lemma map_of_in_keys: "map_of al k = Some v \<Longrightarrow> k \<in> set (map fst al)"
  by (induction al) (auto split: if_splits)

lemma map_of_None_keys: "map_of al k = None \<longleftrightarrow> k \<notin> set (map fst al)"
  by (metis map_of_eq_None_iff set_map)

lemma in_keys_map_of: "k \<in> set (map fst al) \<Longrightarrow> \<exists>v. map_of al k = Some v"
  by (metis map_of_None_keys not_None_eq)

end
