(* ===== verification/Flow_Model.thy ===== *)
theory Flow_Model
  imports Flow_Prelude
begin

text \<open>
  The messages of \<^verbatim>\<open>src/model\<close>: the enumerations and structs of \<^verbatim>\<open>model.pb.go\<close>, the
  constructors of \<^verbatim>\<open>results.go\<close> and \<^verbatim>\<open>errors.go\<close>, and the interfaces of
  \<^verbatim>\<open>mixins.go\<close>. A pointer field is an \<open>option\<close> (\<open>None\<close> is \<^verbatim>\<open>nil\<close>). The messages
  that implement one Go interface form one datatype whose shared selectors are the
  interface's getters.
\<close>

type_synonym flow_id = string
type_synonym stage_id = string
type_synonym function_id = string

section \<open>Enumerations\<close>

text \<open>Protobuf enumerations are open: a message may hold a number that has no name.\<close>

datatype CompletionOperation =
    Op_unknown_operation | Op_acceptEither | Op_applyToEither | Op_thenAcceptBoth
  | Op_thenApply | Op_thenRun | Op_thenAccept | Op_thenCompose | Op_thenCombine
  | Op_whenComplete | Op_handle | Op_supply | Op_invokeFunction | Op_completedValue
  | Op_delay | Op_allOf | Op_anyOf | Op_externalCompletion | Op_exceptionally
  | Op_terminationHook | Op_exceptionallyCompose | Op_unrecognised int

fun CompletionOperation_name :: "CompletionOperation \<Rightarrow> string" where
  "CompletionOperation_name Op_unknown_operation = ''unknown_operation''"
| "CompletionOperation_name Op_acceptEither = ''acceptEither''"
| "CompletionOperation_name Op_applyToEither = ''applyToEither''"
| "CompletionOperation_name Op_thenAcceptBoth = ''thenAcceptBoth''"
| "CompletionOperation_name Op_thenApply = ''thenApply''"
| "CompletionOperation_name Op_thenRun = ''thenRun''"
| "CompletionOperation_name Op_thenAccept = ''thenAccept''"
| "CompletionOperation_name Op_thenCompose = ''thenCompose''"
| "CompletionOperation_name Op_thenCombine = ''thenCombine''"
| "CompletionOperation_name Op_whenComplete = ''whenComplete''"
| "CompletionOperation_name Op_handle = ''handle''"
| "CompletionOperation_name Op_supply = ''supply''"
| "CompletionOperation_name Op_invokeFunction = ''invokeFunction''"
| "CompletionOperation_name Op_completedValue = ''completedValue''"
| "CompletionOperation_name Op_delay = ''delay''"
| "CompletionOperation_name Op_allOf = ''allOf''"
| "CompletionOperation_name Op_anyOf = ''anyOf''"
| "CompletionOperation_name Op_externalCompletion = ''externalCompletion''"
| "CompletionOperation_name Op_exceptionally = ''exceptionally''"
| "CompletionOperation_name Op_terminationHook = ''terminationHook''"
| "CompletionOperation_name Op_exceptionallyCompose = ''exceptionallyCompose''"
| "CompletionOperation_name (Op_unrecognised n) = ''''"

datatype ErrorDatumType =
    Err_unknown_error | Err_stage_timeout | Err_stage_failed | Err_function_timeout
  | Err_function_invoke_failed | Err_stage_lost | Err_invalid_stage_response
  | Err_unrecognised int

datatype StatusDatumType =
    Status_unknown_state | Status_succeeded | Status_failed | Status_cancelled
  | Status_killed | Status_unrecognised int

datatype HTTPMethod =
    Method_unknown_method | Method_get | Method_head | Method_post | Method_put
  | Method_delete | Method_options | Method_patch | Method_unrecognised int

fun HTTPMethod_name :: "HTTPMethod \<Rightarrow> string" where
  "HTTPMethod_name Method_unknown_method = ''unknown_method''"
| "HTTPMethod_name Method_get = ''get''"
| "HTTPMethod_name Method_head = ''head''"
| "HTTPMethod_name Method_post = ''post''"
| "HTTPMethod_name Method_put = ''put''"
| "HTTPMethod_name Method_delete = ''delete''"
| "HTTPMethod_name Method_options = ''options''"
| "HTTPMethod_name Method_patch = ''patch''"
| "HTTPMethod_name (Method_unrecognised n) = ''''"

section \<open>Values\<close>

record BlobDatum =
  BlobId :: string
  ContentType :: string
  Length :: int

datatype HTTPHeader = HTTPHeader (HeaderKey: string) (HeaderValue: string)

record HTTPReqDatum =
  ReqBody :: "BlobDatum option"
  ReqHeaders :: "HTTPHeader list"
  ReqMethod :: HTTPMethod

record HTTPRespDatum =
  RespBody :: "BlobDatum option"
  RespHeaders :: "HTTPHeader list"
  RespStatusCode :: int

datatype ErrorDatum = ErrorDatum (ErrorType: ErrorDatumType) (ErrorMessage: string)

datatype StageRefDatum = StageRefDatum (RefStageId: stage_id)

datatype StatusDatum = StatusDatum (StatusType: StatusDatumType)

datatype Datum_Val =
    Datum_Empty
  | Datum_Blob BlobDatum
  | Datum_Error ErrorDatum
  | Datum_StageRef StageRefDatum
  | Datum_HttpReq HTTPReqDatum
  | Datum_HttpResp HTTPRespDatum
  | Datum_Status StatusDatum

datatype Datum = Datum (Val: "Datum_Val option")

record CompletionResult =
  Successful :: bool
  ResultDatum :: "Datum option"

text \<open>\<^verbatim>\<open>GetStageRef\<close> is safe on a nil datum, as every generated getter is.\<close>

definition GetStageRef :: "Datum option \<Rightarrow> StageRefDatum option" where
  "GetStageRef d =
     (case d of
        Some (Datum (Some (Datum_StageRef r))) \<Rightarrow> Some r
      | _ \<Rightarrow> None)"

text \<open>\<^verbatim>\<open>HasValidValue\<close> on a non-nil datum: one of the \<^verbatim>\<open>oneof\<close> values is set.\<close>

definition HasValidValue :: "Datum \<Rightarrow> bool" where
  "HasValidValue d =
     (case Val d of
        Some Datum_Empty \<Rightarrow> True
      | Some (Datum_Blob _) \<Rightarrow> True
      | Some (Datum_Error _) \<Rightarrow> True
      | Some (Datum_StageRef _) \<Rightarrow> True
      | Some (Datum_HttpReq _) \<Rightarrow> True
      | Some (Datum_HttpResp _) \<Rightarrow> True
      | Some (Datum_Status _) \<Rightarrow> True
      | None \<Rightarrow> False)"

fun header_values :: "string \<Rightarrow> HTTPHeader list \<Rightarrow> string list" where
  "header_values key [] = []"
| "header_values key (h # hs) =
     (if HeaderKey h = key then HeaderValue h # header_values key hs
      else header_values key hs)"

definition GetHeaderValues_req :: "HTTPReqDatum option \<Rightarrow> string \<Rightarrow> string list" where
  "GetHeaderValues_req m key =
     (case m of None \<Rightarrow> [] | Some d \<Rightarrow> header_values key (ReqHeaders d))"

definition GetHeader_req :: "HTTPReqDatum option \<Rightarrow> string \<Rightarrow> string" where
  "GetHeader_req m key =
     (case GetHeaderValues_req m key of v # _ \<Rightarrow> v | [] \<Rightarrow> '''')"

definition GetHeaderValues_resp :: "HTTPRespDatum option \<Rightarrow> string \<Rightarrow> string list" where
  "GetHeaderValues_resp m key =
     (case m of None \<Rightarrow> [] | Some d \<Rightarrow> header_values key (RespHeaders d))"

definition GetHeader_resp :: "HTTPRespDatum option \<Rightarrow> string \<Rightarrow> string" where
  "GetHeader_resp m key =
     (case GetHeaderValues_resp m key of v # _ \<Rightarrow> v | [] \<Rightarrow> '''')"

section \<open>Constructors of results\<close>

definition NewInternalErrorResult :: "ErrorDatumType \<Rightarrow> string \<Rightarrow> CompletionResult" where
  "NewInternalErrorResult code message =
     \<lparr>Successful = False, ResultDatum = Some (Datum (Some (Datum_Error (ErrorDatum code message))))\<rparr>"

definition NewEmptyDatum :: Datum where
  "NewEmptyDatum = Datum (Some Datum_Empty)"

definition NewEmptyResult :: CompletionResult where
  "NewEmptyResult = \<lparr>Successful = True, ResultDatum = Some NewEmptyDatum\<rparr>"

definition NewBlobDatum :: "BlobDatum \<Rightarrow> Datum" where
  "NewBlobDatum body = Datum (Some (Datum_Blob body))"

definition NewBlob :: "string \<Rightarrow> int \<Rightarrow> string \<Rightarrow> BlobDatum" where
  "NewBlob i len ct = \<lparr>BlobId = i, ContentType = ct, Length = len\<rparr>"

definition NewStageRefDatum :: "stage_id \<Rightarrow> Datum" where
  "NewStageRefDatum stageID = Datum (Some (Datum_StageRef (StageRefDatum stageID)))"

definition NewSuccessfulResult :: "Datum option \<Rightarrow> CompletionResult" where
  "NewSuccessfulResult datum = \<lparr>Successful = True, ResultDatum = datum\<rparr>"

definition NewFailedResult :: "Datum option \<Rightarrow> CompletionResult" where
  "NewFailedResult datum = \<lparr>Successful = False, ResultDatum = datum\<rparr>"

definition NewHTTPReqDatum :: "HTTPReqDatum \<Rightarrow> Datum" where
  "NewHTTPReqDatum httpreq = Datum (Some (Datum_HttpReq httpreq))"

definition NewStateDatum :: "StatusDatumType \<Rightarrow> Datum" where
  "NewStateDatum statusType = Datum (Some (Datum_Status (StatusDatum statusType)))"

section \<open>Time stamps\<close>

datatype Timestamp = Timestamp (Seconds: int) (Nanos: int)

definition timestamp_of :: "int \<Rightarrow> Timestamp" where
  "timestamp_of ns = Timestamp (ns div 1000000000) (ns mod 1000000000)"

section \<open>Errors\<close>

text \<open>The codes of gRPC.\<close>

datatype code =
    Code_Internal | Code_AlreadyExists | Code_NotFound | Code_FailedPrecondition
  | Code_InvalidArgument | Code_Unknown | Code_Unimplemented | Code_ResourceExhausted
  | Code_DeadlineExceeded | Code_OK | Code_Canceled | Code_PermissionDenied | Code_Unauthenticated
  | Code_Aborted | Code_OutOfRange | Code_Unavailable | Code_DataLoss

datatype error = StatusError (ErrorCode: code) (ErrorText: string) | PlainError (ErrorText: string)

definition NewGraphCreationError :: "flow_id \<Rightarrow> error" where
  "NewGraphCreationError f =
     StatusError Code_Internal (''Cannot spawn actor to manage flow: flow_id='' @ f)"

definition NewGraphAlreadyExistsError :: "flow_id \<Rightarrow> error" where
  "NewGraphAlreadyExistsError f =
     StatusError Code_AlreadyExists (''Flow already exists: flow_id='' @ f)"

definition NewGraphNotFoundError :: "flow_id \<Rightarrow> error" where
  "NewGraphNotFoundError f = StatusError Code_NotFound (''Flow not found: flow_id='' @ f)"

definition NewGraphCompletedError :: "flow_id \<Rightarrow> error" where
  "NewGraphCompletedError f =
     StatusError Code_FailedPrecondition (''Flow already completed: flow_id='' @ f)"

definition NewInvalidDelayError :: "flow_id \<Rightarrow> int \<Rightarrow> error" where
  "NewInvalidDelayError f delayMs =
     StatusError Code_InvalidArgument
       (''Invalid delay stage of '' @ itoa_int delayMs @ '' milliseconds: flow_id='' @ f)"

definition NewStageNotFoundError :: "flow_id \<Rightarrow> stage_id \<Rightarrow> error" where
  "NewStageNotFoundError f s =
     StatusError Code_NotFound (''Stage not found. flow_id='' @ f @ '' stage_id='' @ s)"

definition NewAwaitStageError :: "flow_id \<Rightarrow> stage_id \<Rightarrow> error" where
  "NewAwaitStageError f s =
     StatusError Code_Unknown (''Stage failed to complete: flow_id='' @ f @ '' stage_id='' @ s)"

definition NewInvalidStageDependenciesError :: "flow_id \<Rightarrow> error" where
  "NewInvalidStageDependenciesError f =
     StatusError Code_InvalidArgument
       (''Failed to create stage with invalid dependencies: flow_id='' @ f)"

definition NewInvalidDatumError :: "flow_id \<Rightarrow> error" where
  "NewInvalidDatumError f =
     StatusError Code_InvalidArgument (''Invalid datum in command: flow_id='' @ f)"

definition NewNeedsClosureError :: "flow_id \<Rightarrow> error" where
  "NewNeedsClosureError f =
     StatusError Code_InvalidArgument
       (''Stage requires a closure but none was specified: flow_id='' @ f)"

definition NewShouldNotHaveClosureError :: "flow_id \<Rightarrow> error" where
  "NewShouldNotHaveClosureError f =
     StatusError Code_InvalidArgument
       (''Stage should not have  closure but one was specified: flow_id='' @ f)"

definition NewInvalidOperationError :: "flow_id \<Rightarrow> error" where
  "NewInvalidOperationError f =
     StatusError Code_Unimplemented (''Invalid stage operation: flow_id='' @ f)"

definition NewTooManyStagesError :: "flow_id \<Rightarrow> error" where
  "NewTooManyStagesError f =
     StatusError Code_ResourceExhausted
       (''Failed to add stage, flow has maximum number of stages: flow_id='' @ f)"

definition NewTooManyTerminationHooksError :: "flow_id \<Rightarrow> error" where
  "NewTooManyTerminationHooksError f =
     StatusError Code_ResourceExhausted
       (''Failed to add termination hook, flow has maximum number of termination hooks: flow_id=''
        @ f)"

section \<open>Events\<close>

text \<open>
  \<^verbatim>\<open>model.Event\<close>: everything that may be written to the journal. \<open>EvtTs\<close> is the
  interface's \<^verbatim>\<open>GetTs\<close>.
\<close>

datatype Event =
    GraphCreatedEvent (EvtFlowId: flow_id) (EvtFunctionId: function_id) (EvtTs: "Timestamp option")
  | GraphCommittedEvent (EvtFlowId: flow_id) (EvtTs: "Timestamp option")
  | GraphTerminatingEvent (EvtFlowId: flow_id) (EvtFunctionId: function_id)
      (EvtStatus: StatusDatumType) (EvtTs: "Timestamp option")
  | GraphCompletedEvent (EvtFlowId: flow_id) (EvtFunctionId: function_id)
      (EvtTs: "Timestamp option")
  | DelayScheduledEvent (EvtFlowId: flow_id) (EvtStageId: stage_id) (EvtTimeMs: int)
      (EvtTs: "Timestamp option")
  | StageAddedEvent (EvtFlowId: flow_id) (EvtStageId: stage_id) (EvtOp: CompletionOperation)
      (EvtClosure: "BlobDatum option") (EvtDependencies: "stage_id list")
      (EvtTs: "Timestamp option") (EvtCodeLocation: string) (EvtCallerId: string)
  | StageCompletedEvent (EvtFlowId: flow_id) (EvtStageId: stage_id)
      (EvtResult: "CompletionResult option") (EvtTs: "Timestamp option")
  | StageComposedEvent (EvtFlowId: flow_id) (EvtStageId: stage_id)
      (EvtComposedStageId: stage_id) (EvtTs: "Timestamp option")
  | FaasInvocationStartedEvent (EvtFlowId: flow_id) (EvtStageId: stage_id)
      (EvtTs: "Timestamp option") (EvtFunctionId: function_id)
  | FaasInvocationCompletedEvent (EvtFlowId: flow_id) (EvtStageId: stage_id)
      (EvtResult: "CompletionResult option") (EvtTs: "Timestamp option") (EvtCallId: string)

section \<open>Commands\<close>

text \<open>
  \<^verbatim>\<open>model.Command\<close>: the messages with a flow identifier that the graph actor
  distinguishes; \<open>OtherCommand\<close> stands for every other such message.
\<close>

datatype Command =
    CreateGraphRequest (CmdFlowId: flow_id) (CmdFunctionId: function_id)
  | GetGraphStateRequest (CmdFlowId: flow_id)
  | AddStageRequest (CmdFlowId: flow_id) (CmdOperation: CompletionOperation)
      (CmdClosure: "BlobDatum option") (CmdDeps: "stage_id list")
      (CmdCodeLocation: string) (CmdCallerId: string)
  | AddCompletedValueStageRequest (CmdFlowId: flow_id) (CmdValue: "CompletionResult option")
      (CmdCodeLocation: string) (CmdCallerId: string)
  | AddDelayStageRequest (CmdFlowId: flow_id) (CmdDelayMs: int)
      (CmdCodeLocation: string) (CmdCallerId: string)
  | AddInvokeFunctionStageRequest (CmdFlowId: flow_id) (CmdFunctionId: function_id)
      (CmdArg: "HTTPReqDatum option") (CmdCodeLocation: string) (CmdCallerId: string)
  | CompleteStageExternallyRequest (CmdFlowId: flow_id) (CmdStageId: stage_id)
      (CmdValue: "CompletionResult option") (CmdCodeLocation: string) (CmdCallerId: string)
  | CommitGraphRequest (CmdFlowId: flow_id)
  | AwaitStageResultRequest (CmdFlowId: flow_id) (CmdStageId: stage_id) (CmdTimeoutMs: int)
  | CompleteDelayStageRequest (CmdFlowId: flow_id) (CmdStageId: stage_id)
      (CmdResult: "CompletionResult option")
  | FaasInvocationResponse (CmdFlowId: flow_id) (CmdStageId: stage_id)
      (CmdFunctionId: function_id) (CmdResult: "CompletionResult option") (CmdCallId: string)
  | DeactivateGraphRequest (CmdFlowId: flow_id)
  | OtherCommand (CmdFlowId: flow_id)

text \<open>
  \<^verbatim>\<open>model.AddStageCommand\<close> is implemented by four of the commands; its methods are the
  following three functions.
\<close>

fun isAddStageCommand :: "Command \<Rightarrow> bool" where
  "isAddStageCommand (AddStageRequest f op cl deps loc caller) = True"
| "isAddStageCommand (AddCompletedValueStageRequest f v loc caller) = True"
| "isAddStageCommand (AddDelayStageRequest f ms loc caller) = True"
| "isAddStageCommand (AddInvokeFunctionStageRequest f fn arg loc caller) = True"
| "isAddStageCommand _ = False"

fun GetOperation_cmd :: "Command \<Rightarrow> CompletionOperation" where
  "GetOperation_cmd (AddCompletedValueStageRequest f v loc caller) = Op_completedValue"
| "GetOperation_cmd (AddDelayStageRequest f ms loc caller) = Op_delay"
| "GetOperation_cmd (AddInvokeFunctionStageRequest f fn arg loc caller) = Op_invokeFunction"
| "GetOperation_cmd (AddStageRequest f op cl deps loc caller) = op"
| "GetOperation_cmd _ = Op_unknown_operation"

fun GetDependencyCount :: "Command \<Rightarrow> nat" where
  "GetDependencyCount (AddStageRequest f op cl deps loc caller) = length deps"
| "GetDependencyCount _ = 0"

fun HasClosure :: "Command \<Rightarrow> bool" where
  "HasClosure (AddStageRequest f op cl deps loc caller) \<longleftrightarrow> cl \<noteq> None"
| "HasClosure _ = False"

section \<open>Stream events\<close>

text \<open>\<^verbatim>\<open>uint64(index)\<close> of a Go \<^verbatim>\<open>int\<close>.\<close>

definition seq_of :: "int \<Rightarrow> 64 word" where
  "seq_of index = word_of_int index"

record GraphLifecycleEvent =
  LifeFlowId :: flow_id
  LifeSeq :: "64 word"
  LifeVal :: Event

record GraphStreamEvent =
  StreamFlowId :: flow_id
  StreamSentTs :: Timestamp
  StreamSeq :: "64 word"
  StreamVal :: Event

text \<open>
  \<^verbatim>\<open>GraphLifecycleEventSource\<close> is implemented by the created and completed events;
  \<open>None\<close> is a failed type assertion.
\<close>

fun toGraphLifecycleEvent :: "int \<Rightarrow> Event \<Rightarrow> GraphLifecycleEvent option" where
  "toGraphLifecycleEvent index (GraphCreatedEvent f fn ts) =
     Some \<lparr>LifeFlowId = f, LifeSeq = seq_of index, LifeVal = GraphCreatedEvent f fn ts\<rparr>"
| "toGraphLifecycleEvent index (GraphCompletedEvent f fn ts) =
     Some \<lparr>LifeFlowId = f, LifeSeq = seq_of index, LifeVal = GraphCompletedEvent f fn ts\<rparr>"
| "toGraphLifecycleEvent index _ = None"

text \<open>\<^verbatim>\<open>StreamableGraphEvent\<close> is implemented by all ten events; \<open>now\<close> is the clock.\<close>

definition ToGraphStreamEvent :: "int \<Rightarrow> int \<Rightarrow> Event \<Rightarrow> GraphStreamEvent" where
  "ToGraphStreamEvent now index e =
     \<lparr>StreamFlowId = EvtFlowId e, StreamSentTs = timestamp_of now, StreamSeq = seq_of index,
      StreamVal = e\<rparr>"

section \<open>Facts about the messages\<close>

lemma timestamp_of_nanos: "0 \<le> Nanos (timestamp_of ns) \<and> Nanos (timestamp_of ns) < 1000000000"
  by (simp add: timestamp_of_def)

lemma header_values_filter:
  "header_values key hs = map HeaderValue (filter (\<lambda>h. HeaderKey h = key) hs)"
  by (induction hs) auto

lemma GetStageRef_NewStageRefDatum [simp]:
  "GetStageRef (Some (NewStageRefDatum i)) = Some (StageRefDatum i)"
  by (simp add: GetStageRef_def NewStageRefDatum_def)

lemma NewInternalErrorResult_failed [simp]: "\<not> Successful (NewInternalErrorResult c m)"
  by (simp add: NewInternalErrorResult_def)

lemma HasValidValue_iff: "HasValidValue d \<longleftrightarrow> Val d \<noteq> None"
  by (auto simp: HasValidValue_def split: option.splits Datum_Val.splits)

end
