(* ===== verification/Graph_State.thy ===== *)
theory Graph_State
  imports Flow_Model
begin

text \<open>
  The data of \<^verbatim>\<open>src/graph\<close>: stages (\<^verbatim>\<open>stage.go\<close>), strategies
  (\<^verbatim>\<open>stage_strategy.go\<close>) and the graph itself (\<^verbatim>\<open>graph.go\<close>). A pointer to a stage is
  the stage's identifier, the key under which the graph's map holds it; following a pointer
  is looking the identifier up. The function values a strategy holds are named by the
  constructors of three datatypes, and the theory \<open>Stage_Strategy\<close> says what each does.
\<close>

section \<open>Stages\<close>

datatype ExecutionPhase = MainExecPhase | TerminationExecPhase

text \<open>A \<^verbatim>\<open>StageDependency\<close> is another stage or the graph's termination root.\<close>

datatype StageDependency = StageDep stage_id | TerminationRootDep

record RawDependency =
  RawID :: stage_id
  rawResult :: "CompletionResult option"

datatype TriggerStrategy = WaitForAll | TriggerAny | TriggerNever

datatype ExecutionStrategy =
    SucceedWithEmpty | InvokeWithoutArgs | InvokeWithResult | InvokeWithResultOrError
  | CompleteExternally | PropagateResult

datatype ResultHandlingStrategy =
    InvocationResult | ReferencedStageResult | ParentStageResult | NoResultStrategy

record strategy =
  CanAddChildren :: bool
  TakesClosure :: bool
  MaxDependencies :: int
  MinDependencies :: int
  stTrigger :: TriggerStrategy
  SuccessStrategy :: ExecutionStrategy
  FailureStrategy :: ExecutionStrategy
  stResultHandling :: ResultHandlingStrategy

text \<open>
  \<open>whenComplete\<close> lists what the stage's future has been told. The field
  \<^verbatim>\<open>strategy\<close> of the struct is \<open>stage_strategy\<close> here.
\<close>

record CompletionStage =
  ID :: stage_id
  result :: "CompletionResult option"
  operation :: CompletionOperation
  stage_strategy :: strategy
  closure :: "BlobDatum option"
  dependencies :: "StageDependency list"
  children :: "stage_id list"
  whenComplete :: "CompletionResult list"
  composeReference :: "stage_id option"
  triggered :: bool
  execPhase :: ExecutionPhase

definition IsResolved :: "CompletionStage \<Rightarrow> bool" where
  "IsResolved stage \<longleftrightarrow> result stage \<noteq> None"

definition IsSuccessful :: "CompletionStage \<Rightarrow> bool" where
  "IsSuccessful stage \<longleftrightarrow> (case result stage of None \<Rightarrow> False | Some r \<Rightarrow> Successful r)"

definition IsFailed :: "CompletionStage \<Rightarrow> bool" where
  "IsFailed stage \<longleftrightarrow> (case result stage of None \<Rightarrow> False | Some r \<Rightarrow> \<not> Successful r)"

definition IsTriggered :: "CompletionStage \<Rightarrow> bool" where
  "IsTriggered stage \<longleftrightarrow> IsResolved stage \<or> triggered stage"

definition SetResult :: "CompletionResult option \<Rightarrow> RawDependency \<Rightarrow> RawDependency" where
  "SetResult r raw = raw\<lparr>rawResult := r\<rparr>"

text \<open>\<^verbatim>\<open>complete\<close>: the first result is kept and told to the future; later ones are dropped.\<close>

definition complete :: "CompletionResult \<Rightarrow> CompletionStage \<Rightarrow> CompletionStage" where
  "complete r stage =
     (let stage = stage\<lparr>triggered := True\<rparr> in
      if result stage = None
      then stage\<lparr>result := Some r, whenComplete := whenComplete stage @ [r]\<rparr>
      else stage)"

definition complete_success :: "CompletionStage \<Rightarrow> bool" where
  "complete_success stage \<longleftrightarrow> result stage = None"

section \<open>The graph\<close>

datatype State = StateInitial | StateCommitted | StateTerminating | StateCompleted

text \<open>The life cycle is linear; its order is the order of the states.\<close>

fun state_rank :: "State \<Rightarrow> nat" where
  "state_rank StateInitial = 0"
| "state_rank StateCommitted = 1"
| "state_rank StateTerminating = 2"
| "state_rank StateCompleted = 3"

instantiation State :: linorder
begin

definition less_eq_State :: "State \<Rightarrow> State \<Rightarrow> bool" where
  "less_eq_State a b \<longleftrightarrow> state_rank a \<le> state_rank b"

definition less_State :: "State \<Rightarrow> State \<Rightarrow> bool" where
  "less_State a b \<longleftrightarrow> state_rank a < state_rank b"

instance
proof
  fix x y :: State
  show "x \<le> y \<Longrightarrow> y \<le> x \<Longrightarrow> x = y"
    by (cases x; cases y) (simp_all add: less_eq_State_def)
qed (auto simp: less_eq_State_def less_State_def)

end

text \<open>
  \<open>startTime\<close> is in nanoseconds. \<open>mapOrder\<close> lists the orders in which the coming
  \<^verbatim>\<open>range graph.stages\<close> loops visit the stages. The state of the event listener is
  the record's extension.
\<close>

record CompletionGraph =
  GraphID :: flow_id
  FunctionID :: function_id
  stages :: "(stage_id \<times> CompletionStage) list"
  state :: State
  terminationRoot :: RawDependency
  terminationChainHead :: "stage_id option"
  startTime :: int
  mapOrder :: "nat \<Rightarrow> stage_id list"

definition GetStage :: "stage_id \<Rightarrow> 'a CompletionGraph_scheme \<Rightarrow> CompletionStage option" where
  "GetStage i g = map_of (stages g) i"

definition upd_stage ::
  "stage_id \<Rightarrow> (CompletionStage \<Rightarrow> CompletionStage) \<Rightarrow>
   'a CompletionGraph_scheme \<Rightarrow> 'a CompletionGraph_scheme" where
  "upd_stage i f g = g\<lparr>stages := AList.map_entry i f (stages g)\<rparr>"

definition NextStageID :: "'a CompletionGraph_scheme \<Rightarrow> stage_id" where
  "NextStageID g = itoa (length (stages g))"

definition GetStages :: "'a CompletionGraph_scheme \<Rightarrow> CompletionStage list" where
  "GetStages g = map (\<lambda>k. the (GetStage k g)) (go_range (mapOrder g 0) (map fst (stages g)))"

text \<open>One \<^verbatim>\<open>range\<close> loop: the keys it visits, and the graph with the next order in place.\<close>

definition range_keys :: "'a CompletionGraph_scheme \<Rightarrow> stage_id list" where
  "range_keys g = go_range (mapOrder g 0) (map fst (stages g))"

definition next_order :: "'a CompletionGraph_scheme \<Rightarrow> 'a CompletionGraph_scheme" where
  "next_order g = g\<lparr>mapOrder := (\<lambda>n. mapOrder g (Suc n))\<rparr>"

definition IsCommitted :: "'a CompletionGraph_scheme \<Rightarrow> bool" where
  "IsCommitted g \<longleftrightarrow> (case state g of StateInitial \<Rightarrow> False | _ \<Rightarrow> True)"

definition IsCompleted :: "'a CompletionGraph_scheme \<Rightarrow> bool" where
  "IsCompleted g \<longleftrightarrow> state g = StateCompleted"

definition canModifyGraph :: "'a CompletionGraph_scheme \<Rightarrow> bool" where
  "canModifyGraph g \<longleftrightarrow>
     (case state g of StateInitial \<Rightarrow> True | StateCommitted \<Rightarrow> True | _ \<Rightarrow> False)"

text \<open>What a dependency's methods return: its identifier and its result, if any.\<close>

definition dep_id :: "'a CompletionGraph_scheme \<Rightarrow> StageDependency \<Rightarrow> stage_id" where
  "dep_id g d = (case d of StageDep i \<Rightarrow> i | TerminationRootDep \<Rightarrow> RawID (terminationRoot g))"

definition dep_result ::
  "'a CompletionGraph_scheme \<Rightarrow> StageDependency \<Rightarrow> CompletionResult option" where
  "dep_result g d =
     (case d of
        TerminationRootDep \<Rightarrow> rawResult (terminationRoot g)
      | StageDep i \<Rightarrow> (case GetStage i g of None \<Rightarrow> None | Some st \<Rightarrow> result st))"

definition getPendingCount :: "ExecutionPhase \<Rightarrow> 'a CompletionGraph_scheme \<Rightarrow> 32 word" where
  "getPendingCount phase g =
     of_nat (length (filter (\<lambda>(k, s). execPhase s = phase \<and> \<not> IsResolved s) (stages g)))"

section \<open>Looking up and updating stages\<close>

lemma keys_map_entry [simp]: "map fst (AList.map_entry k f al) = map fst al"
  by (induction al) auto

lemma length_map_entry [simp]: "length (AList.map_entry k f al) = length al"
  by (induction al) auto

lemma stages_upd_stage: "stages (upd_stage i f g) = AList.map_entry i f (stages g)"
  by (simp add: upd_stage_def)

lemma upd_stage_simps [simp, stage_simps]:
  "GraphID (upd_stage i f g) = GraphID g"
  "FunctionID (upd_stage i f g) = FunctionID g"
  "state (upd_stage i f g) = state g"
  "terminationRoot (upd_stage i f g) = terminationRoot g"
  "terminationChainHead (upd_stage i f g) = terminationChainHead g"
  "startTime (upd_stage i f g) = startTime g"
  "mapOrder (upd_stage i f g) = mapOrder g"
  "CompletionGraph.more (upd_stage i f g) = CompletionGraph.more g"
  "map fst (stages (upd_stage i f g)) = map fst (stages g)"
  "length (stages (upd_stage i f g)) = length (stages g)"
  by (simp_all add: upd_stage_def)

lemma GetStage_upd_stage [stage_simps]:
  "GetStage j (upd_stage i f g) =
     (if i = j then map_option f (GetStage i g) else GetStage j g)"
  by (auto simp: GetStage_def upd_stage_def AList.map_of_map_entry split: option.splits)

lemma next_order_simps [simp, stage_simps]:
  "GraphID (next_order g) = GraphID g"
  "FunctionID (next_order g) = FunctionID g"
  "stages (next_order g) = stages g"
  "state (next_order g) = state g"
  "terminationRoot (next_order g) = terminationRoot g"
  "terminationChainHead (next_order g) = terminationChainHead g"
  "startTime (next_order g) = startTime g"
  "CompletionGraph.more (next_order g) = CompletionGraph.more g"
  "GetStage i (next_order g) = GetStage i g"
  "dep_result (next_order g) d = dep_result g d"
  by (simp_all add: next_order_def GetStage_def dep_result_def split: StageDependency.splits)

lemma GetStage_cong: "stages g = stages h \<Longrightarrow> GetStage i g = GetStage i h"
  by (simp add: GetStage_def)

lemma set_range_keys [simp]: "set (range_keys g) = set (map fst (stages g))"
  by (simp add: range_keys_def)

lemma IsCommitted_iff: "IsCommitted g \<longleftrightarrow> state g \<noteq> StateInitial"
  by (cases "state g") (simp_all add: IsCommitted_def)

lemma canModifyGraph_iff: "canModifyGraph g \<longleftrightarrow> state g = StateInitial \<or> state g = StateCommitted"
  by (cases "state g") (simp_all add: canModifyGraph_def)

lemma complete_simps [simp]:
  "ID (complete r st) = ID st"
  "operation (complete r st) = operation st"
  "stage_strategy (complete r st) = stage_strategy st"
  "closure (complete r st) = closure st"
  "dependencies (complete r st) = dependencies st"
  "children (complete r st) = children st"
  "composeReference (complete r st) = composeReference st"
  "execPhase (complete r st) = execPhase st"
  "triggered (complete r st)"
  by (simp_all add: complete_def Let_def)

lemma result_complete [simp]:
  "result (complete r st) = (case result st of None \<Rightarrow> Some r | Some x \<Rightarrow> Some x)"
  by (simp add: complete_def Let_def split: option.splits)

lemma IsResolved_complete [simp]: "IsResolved (complete r st)"
  by (simp add: IsResolved_def split: option.splits)

lemma getPendingCount_zero:
  assumes "length (stages g) < 2 ^ 32"
  shows "getPendingCount phase g = 0 \<longleftrightarrow>
    (\<forall>(k, s) \<in> set (stages g). execPhase s = phase \<longrightarrow> IsResolved s)"
proof -
  let ?n = "length (filter (\<lambda>(k, s). execPhase s = phase \<and> \<not> IsResolved s) (stages g))"
  have "?n \<le> length (stages g)"
    by (rule length_filter_le)
  then have "?n < 2 ^ 32"
    using assms by (rule le_less_trans)
  then have "(of_nat ?n :: 32 word) = 0 \<longleftrightarrow> ?n = 0"
    by (auto simp: word_of_nat_eq_0_iff dest: nat_dvd_not_less)
  then show ?thesis
    by (auto simp: getPendingCount_def filter_empty_conv)
qed

end
