(* ===== verification/Stage_Strategy.thy ===== *)
theory Stage_Strategy
  imports Graph_State
begin

text \<open>
  \<^verbatim>\<open>src/graph/stage_strategy.go\<close> and the methods of \<^verbatim>\<open>stage.go\<close> that use it: when a
  stage becomes active, what it does when it is triggered, and how the response of its
  invocation becomes its result.
\<close>

section \<open>Trigger strategies\<close>

text \<open>
  The trigger strategies ask a dependency only for its result, so they take the list of
  the dependencies' results (\<open>None\<close>: not resolved) and return (should trigger, successful
  trigger, inputs).
\<close>

type_synonym trigger_result = "bool \<times> bool \<times> CompletionResult list"

definition dep_resolved :: "CompletionResult option \<Rightarrow> bool" where
  "dep_resolved d \<longleftrightarrow> d \<noteq> None"

definition dep_failed :: "CompletionResult option \<Rightarrow> bool" where
  "dep_failed d \<longleftrightarrow> (case d of None \<Rightarrow> False | Some r \<Rightarrow> \<not> Successful r)"

fun collect_results :: "CompletionResult option list \<Rightarrow> CompletionResult list" where
  "collect_results [] = []"
| "collect_results (None # ds) = collect_results ds"
| "collect_results (Some r # ds) = r # collect_results ds"

fun first_failed :: "CompletionResult option list \<Rightarrow> CompletionResult option" where
  "first_failed [] = None"
| "first_failed (d # ds) = (if dep_failed d then d else first_failed ds)"

definition waitForAll :: "CompletionResult option list \<Rightarrow> trigger_result" where
  "waitForAll deps =
     (let results = collect_results deps in
      if length results = length deps
      then (case first_failed deps of
              Some r \<Rightarrow> (True, False, [r])
            | None \<Rightarrow> (True, True, results))
      else (False, False, []))"

text \<open>The loop of \<^verbatim>\<open>triggerAny\<close>; its variables are the second and third arguments.\<close>

fun triggerAny_loop ::
  "CompletionResult option list \<Rightarrow> bool \<Rightarrow> CompletionResult option \<Rightarrow> trigger_result" where
  "triggerAny_loop [] haveUnresolved firstFailure =
     (if \<not> haveUnresolved
      then (case firstFailure of
              Some r \<Rightarrow> (True, False, [r])
            | None \<Rightarrow> (True, False, []))
      else (False, False, []))"
| "triggerAny_loop (d # ds) haveUnresolved firstFailure =
     (case d of
        Some r \<Rightarrow>
          if \<not> dep_failed d then (True, True, [r])
          else triggerAny_loop ds haveUnresolved d
      | None \<Rightarrow> triggerAny_loop ds True firstFailure)"

definition triggerAny :: "CompletionResult option list \<Rightarrow> trigger_result" where
  "triggerAny deps = (if length deps = 0 then (False, False, []) else triggerAny_loop deps False None)"

definition triggerNever :: "CompletionResult option list \<Rightarrow> trigger_result" where
  "triggerNever deps = (False, False, [])"

fun run_trigger :: "TriggerStrategy \<Rightarrow> CompletionResult option list \<Rightarrow> trigger_result" where
  "run_trigger WaitForAll = waitForAll"
| "run_trigger TriggerAny = triggerAny"
| "run_trigger TriggerNever = triggerNever"

section \<open>Strategies of the operations\<close>

definition getStrategyFromOperation :: "CompletionOperation \<Rightarrow> strategy option" where
  "getStrategyFromOperation op = (case op of
     Op_acceptEither \<Rightarrow> Some
       \<lparr>CanAddChildren = True, TakesClosure = True, MaxDependencies = 2, MinDependencies = 2,
        stTrigger = TriggerAny, SuccessStrategy = InvokeWithResult,
        FailureStrategy = PropagateResult, stResultHandling = InvocationResult\<rparr>
   | Op_applyToEither \<Rightarrow> Some
       \<lparr>CanAddChildren = True, TakesClosure = True, MaxDependencies = 2, MinDependencies = 2,
        stTrigger = TriggerAny, SuccessStrategy = InvokeWithResult,
        FailureStrategy = PropagateResult, stResultHandling = InvocationResult\<rparr>
   | Op_thenAcceptBoth \<Rightarrow> Some
       \<lparr>CanAddChildren = True, TakesClosure = True, MaxDependencies = 2, MinDependencies = 2,
        stTrigger = WaitForAll, SuccessStrategy = InvokeWithResult,
        FailureStrategy = PropagateResult, stResultHandling = InvocationResult\<rparr>
   | Op_thenApply \<Rightarrow> Some
       \<lparr>CanAddChildren = True, TakesClosure = True, MaxDependencies = 1, MinDependencies = 1,
        stTrigger = TriggerAny, SuccessStrategy = InvokeWithResult,
        FailureStrategy = PropagateResult, stResultHandling = InvocationResult\<rparr>
   | Op_thenRun \<Rightarrow> Some
       \<lparr>CanAddChildren = True, TakesClosure = True, MaxDependencies = 1, MinDependencies = 1,
        stTrigger = TriggerAny, SuccessStrategy = InvokeWithoutArgs,
        FailureStrategy = PropagateResult, stResultHandling = InvocationResult\<rparr>
   | Op_thenAccept \<Rightarrow> Some
       \<lparr>CanAddChildren = True, TakesClosure = True, MaxDependencies = 1, MinDependencies = 1,
        stTrigger = TriggerAny, SuccessStrategy = InvokeWithResult,
        FailureStrategy = PropagateResult, stResultHandling = InvocationResult\<rparr>
   | Op_thenCompose \<Rightarrow> Some
       \<lparr>CanAddChildren = True, TakesClosure = True, MaxDependencies = 1, MinDependencies = 1,
        stTrigger = TriggerAny, SuccessStrategy = InvokeWithResult,
        FailureStrategy = PropagateResult, stResultHandling = ReferencedStageResult\<rparr>
   | Op_thenCombine \<Rightarrow> Some
       \<lparr>CanAddChildren = True, TakesClosure = True, MaxDependencies = 2, MinDependencies = 2,
        stTrigger = WaitForAll, SuccessStrategy = InvokeWithResult,
        FailureStrategy = PropagateResult, stResultHandling = InvocationResult\<rparr>
   | Op_whenComplete \<Rightarrow> Some
       \<lparr>CanAddChildren = True, TakesClosure = True, MaxDependencies = 1, MinDependencies = 1,
        stTrigger = TriggerAny, SuccessStrategy = InvokeWithResultOrError,
        FailureStrategy = InvokeWithResultOrError, stResultHandling = ParentStageResult\<rparr>
   | Op_handle \<Rightarrow> Some
       \<lparr>CanAddChildren = True, TakesClosure = True, MaxDependencies = 1, MinDependencies = 1,
        stTrigger = TriggerAny, SuccessStrategy = InvokeWithResultOrError,
        FailureStrategy = InvokeWithResultOrError, stResultHandling = InvocationResult\<rparr>
   | Op_supply \<Rightarrow> Some
       \<lparr>CanAddChildren = True, TakesClosure = True, MaxDependencies = 0, MinDependencies = 0,
        stTrigger = WaitForAll, SuccessStrategy = InvokeWithoutArgs,
        FailureStrategy = PropagateResult, stResultHandling = InvocationResult\<rparr>
   | Op_invokeFunction \<Rightarrow> Some
       \<lparr>CanAddChildren = True, TakesClosure = False, MaxDependencies = 0, MinDependencies = 0,
        stTrigger = WaitForAll, SuccessStrategy = CompleteExternally,
        FailureStrategy = CompleteExternally, stResultHandling = InvocationResult\<rparr>
   | Op_completedValue \<Rightarrow> Some
       \<lparr>CanAddChildren = True, TakesClosure = False, MaxDependencies = 0, MinDependencies = 0,
        stTrigger = TriggerNever, SuccessStrategy = CompleteExternally,
        FailureStrategy = PropagateResult, stResultHandling = NoResultStrategy\<rparr>
   | Op_delay \<Rightarrow> Some
       \<lparr>CanAddChildren = True, TakesClosure = False, MaxDependencies = 0, MinDependencies = 0,
        stTrigger = TriggerNever, SuccessStrategy = CompleteExternally,
        FailureStrategy = CompleteExternally, stResultHandling = NoResultStrategy\<rparr>
   | Op_allOf \<Rightarrow> Some
       \<lparr>CanAddChildren = True, TakesClosure = False, MaxDependencies = -1, MinDependencies = 0,
        stTrigger = WaitForAll, SuccessStrategy = SucceedWithEmpty,
        FailureStrategy = PropagateResult, stResultHandling = NoResultStrategy\<rparr>
   | Op_anyOf \<Rightarrow> Some
       \<lparr>CanAddChildren = True, TakesClosure = False, MaxDependencies = -1, MinDependencies = 1,
        stTrigger = TriggerAny, SuccessStrategy = PropagateResult,
        FailureStrategy = PropagateResult, stResultHandling = NoResultStrategy\<rparr>
   | Op_externalCompletion \<Rightarrow> Some
       \<lparr>CanAddChildren = True, TakesClosure = False, MaxDependencies = 0, MinDependencies = 0,
        stTrigger = TriggerNever, SuccessStrategy = CompleteExternally,
        FailureStrategy = CompleteExternally, stResultHandling = NoResultStrategy\<rparr>
   | Op_exceptionally \<Rightarrow> Some
       \<lparr>CanAddChildren = True, TakesClosure = True, MaxDependencies = 1, MinDependencies = 1,
        stTrigger = TriggerAny, SuccessStrategy = PropagateResult,
        FailureStrategy = InvokeWithResult, stResultHandling = InvocationResult\<rparr>
   | Op_terminationHook \<Rightarrow> Some
       \<lparr>CanAddChildren = False, TakesClosure = True, MaxDependencies = 0, MinDependencies = 0,
        stTrigger = WaitForAll, SuccessStrategy = InvokeWithResult,
        FailureStrategy = InvokeWithResult, stResultHandling = ParentStageResult\<rparr>
   | Op_exceptionallyCompose \<Rightarrow> Some
       \<lparr>CanAddChildren = True, TakesClosure = True, MaxDependencies = 1, MinDependencies = 1,
        stTrigger = TriggerAny, SuccessStrategy = PropagateResult,
        FailureStrategy = InvokeWithResult, stResultHandling = ReferencedStageResult\<rparr>
   | _ \<Rightarrow> None)"

section \<open>The event listener\<close>

text \<open>
  \<^verbatim>\<open>CompletionEventListener\<close>: the graph announces what should happen by calling one of
  the interface's five methods. A method may call back into the graph, so a listener maps
  a method call and a state to an outcome.
\<close>

datatype ListenerCall =
    OnExecuteStage CompletionStage "CompletionResult list"
  | OnCompleteStage CompletionStage "CompletionResult option"
  | OnComposeStage CompletionStage CompletionStage
  | OnGraphExecutionFinished
  | OnGraphComplete

type_synonym 's CompletionEventListener = "ListenerCall \<Rightarrow> 's \<Rightarrow> 's res"

section \<open>Execution strategies\<close>

definition succeedWithEmpty ::
  "'s CompletionEventListener \<Rightarrow> CompletionStage \<Rightarrow> CompletionResult list \<Rightarrow> 's \<Rightarrow> 's res" where
  "succeedWithEmpty lis stage results =
     lis (OnCompleteStage stage (Some \<lparr>Successful = True, ResultDatum = Some NewEmptyDatum\<rparr>))"

definition invokeWithoutArgs ::
  "'s CompletionEventListener \<Rightarrow> CompletionStage \<Rightarrow> CompletionResult list \<Rightarrow> 's \<Rightarrow> 's res" where
  "invokeWithoutArgs lis stage results = lis (OnExecuteStage stage [])"

definition invokeWithResult ::
  "'s CompletionEventListener \<Rightarrow> CompletionStage \<Rightarrow> CompletionResult list \<Rightarrow> 's \<Rightarrow> 's res" where
  "invokeWithResult lis stage results = lis (OnExecuteStage stage results)"

definition single_valued_panic :: panic_reason where
  "single_valued_panic =
     PanicMessage ''Invalid state - tried to invoke single-valued stage with incorrect number of inputs''"

definition resultOrError_args :: "CompletionResult \<Rightarrow> CompletionResult list" where
  "resultOrError_args r =
     (if Successful r then [NewSuccessfulResult (ResultDatum r), NewEmptyResult]
      else [NewEmptyResult, NewFailedResult (ResultDatum r)])"

definition invokeWithResultOrError ::
  "'s CompletionEventListener \<Rightarrow> CompletionStage \<Rightarrow> CompletionResult list \<Rightarrow> 's \<Rightarrow> 's res" where
  "invokeWithResultOrError lis stage results s =
     (case results of
        [r] \<Rightarrow> lis (OnExecuteStage stage (resultOrError_args r)) s
      | _ \<Rightarrow> Panic single_valued_panic s)"

definition completeExternally ::
  "'s CompletionEventListener \<Rightarrow> CompletionStage \<Rightarrow> CompletionResult list \<Rightarrow> 's \<Rightarrow> 's res" where
  "completeExternally lis stage results s = Done s"

definition propagateResult ::
  "'s CompletionEventListener \<Rightarrow> CompletionStage \<Rightarrow> CompletionResult list \<Rightarrow> 's \<Rightarrow> 's res" where
  "propagateResult lis stage results s =
     (case results of
        [r] \<Rightarrow> lis (OnCompleteStage stage (Some r)) s
      | _ \<Rightarrow> Panic single_valued_panic s)"

fun run_execution ::
  "ExecutionStrategy \<Rightarrow> 's CompletionEventListener \<Rightarrow> CompletionStage \<Rightarrow>
   CompletionResult list \<Rightarrow> 's \<Rightarrow> 's res" where
  "run_execution SucceedWithEmpty = succeedWithEmpty"
| "run_execution InvokeWithoutArgs = invokeWithoutArgs"
| "run_execution InvokeWithResult = invokeWithResult"
| "run_execution InvokeWithResultOrError = invokeWithResultOrError"
| "run_execution CompleteExternally = completeExternally"
| "run_execution PropagateResult = propagateResult"

section \<open>Result handling strategies\<close>

definition invocationResult ::
  "'s CompletionEventListener \<Rightarrow> CompletionStage \<Rightarrow> CompletionResult option \<Rightarrow> 's \<Rightarrow> 's res" where
  "invocationResult lis stage r = lis (OnCompleteStage stage r)"

definition referencedStageResult ::
  "('a CompletionGraph_scheme) CompletionEventListener \<Rightarrow> CompletionStage \<Rightarrow>
   CompletionResult option \<Rightarrow> 'a CompletionGraph_scheme \<Rightarrow> 'a CompletionGraph_scheme res" where
  "referencedStageResult lis stage r g =
     (case r of
        None \<Rightarrow> Panic NilDereference g
      | Some res \<Rightarrow>
          if \<not> Successful res then lis (OnCompleteStage stage r) g
          else (case GetStageRef (ResultDatum res) of
                  None \<Rightarrow>
                    lis (OnCompleteStage stage
                      (Some (NewInternalErrorResult Err_invalid_stage_response
                        ''stage returned a non-stageref response''))) g
                | Some ref \<Rightarrow>
                    (case GetStage (RefStageId ref) g of
                       None \<Rightarrow>
                         lis (OnCompleteStage stage
                           (Some (NewInternalErrorResult Err_invalid_stage_response
                             ''referenced stage not found ''))) g
                     | Some refStage \<Rightarrow> lis (OnComposeStage stage refStage) g)))"

definition parent_panic :: panic_reason where
  "parent_panic = PanicMessage ''Trying to get a parent result with invalid parent deps''"

definition parentStageResult ::
  "('a CompletionGraph_scheme) CompletionEventListener \<Rightarrow> CompletionStage \<Rightarrow>
   CompletionResult option \<Rightarrow> 'a CompletionGraph_scheme \<Rightarrow> 'a CompletionGraph_scheme res" where
  "parentStageResult lis stage r g =
     (case dependencies stage of
        [d] \<Rightarrow> (case dep_result g d of
                  None \<Rightarrow> Panic parent_panic g
                | Some pr \<Rightarrow> lis (OnCompleteStage stage (Some pr)) g)
      | _ \<Rightarrow> Panic parent_panic g)"

definition noResultStrategy ::
  "'s CompletionEventListener \<Rightarrow> CompletionStage \<Rightarrow> CompletionResult option \<Rightarrow> 's \<Rightarrow> 's res" where
  "noResultStrategy lis stage r s = Done s"

fun run_result ::
  "ResultHandlingStrategy \<Rightarrow> ('a CompletionGraph_scheme) CompletionEventListener \<Rightarrow>
   CompletionStage \<Rightarrow> CompletionResult option \<Rightarrow>
   'a CompletionGraph_scheme \<Rightarrow> 'a CompletionGraph_scheme res" where
  "run_result InvocationResult = invocationResult"
| "run_result ReferencedStageResult = referencedStageResult"
| "run_result ParentStageResult = parentStageResult"
| "run_result NoResultStrategy = noResultStrategy"

section \<open>The methods of a stage that use its strategy\<close>

text \<open>
  \<^verbatim>\<open>requestTrigger\<close> of the stage stored under \<open>k\<close>: what it returns, and the graph in
  which the stage is marked as triggered if it was.
\<close>

definition trigger_state :: "CompletionStage \<Rightarrow> 'a CompletionGraph_scheme \<Rightarrow> trigger_result" where
  "trigger_state stage g =
     run_trigger (stTrigger (stage_strategy stage)) (map (dep_result g) (dependencies stage))"

definition requestTrigger ::
  "stage_id \<Rightarrow> CompletionStage \<Rightarrow> 'a CompletionGraph_scheme \<Rightarrow>
   trigger_result \<times> 'a CompletionGraph_scheme" where
  "requestTrigger k stage g =
     (if triggered stage then ((False, False, []), g)
      else (case trigger_state stage g of
              (trig, status, results) \<Rightarrow>
                ((trig, status, results),
                 if trig then upd_stage k (\<lambda>st. st\<lparr>triggered := True\<rparr>) g else g)))"

definition handleResult ::
  "('a CompletionGraph_scheme) CompletionEventListener \<Rightarrow> CompletionStage \<Rightarrow>
   CompletionResult option \<Rightarrow> 'a CompletionGraph_scheme \<Rightarrow> 'a CompletionGraph_scheme res" where
  "handleResult lis stage r = run_result (stResultHandling (stage_strategy stage)) lis stage r"

definition trigger ::
  "bool \<Rightarrow> 's CompletionEventListener \<Rightarrow> CompletionStage \<Rightarrow> CompletionResult list \<Rightarrow> 's \<Rightarrow> 's res" where
  "trigger status lis stage input =
     (if status then run_execution (SuccessStrategy (stage_strategy stage)) lis stage input
      else run_execution (FailureStrategy (stage_strategy stage)) lis stage input)"

section \<open>What the trigger strategies decide\<close>

lemma collect_results_eq: "collect_results ds = map the (filter (\<lambda>d. d \<noteq> None) ds)"
  by (induction ds rule: collect_results.induct) auto

lemma first_failed_eq: "first_failed ds = (case filter dep_failed ds of [] \<Rightarrow> None | d # _ \<Rightarrow> d)"
  by (induction ds) auto

lemma filter_some: "(length (filter (\<lambda>d. d \<noteq> None) ds) = length ds) = (None \<notin> set ds)"
proof (induction ds)
  case (Cons d ds)
  have "length (filter (\<lambda>d. d \<noteq> None) ds) \<noteq> Suc (length ds)"
    by (metis length_filter_le not_less_eq_eq order_refl)
  with Cons show ?case
    by (cases d) simp_all
qed simp

text \<open>C20: \<^verbatim>\<open>waitForAll\<close> fires exactly when every dependency has a result: successfully with all
  results in order if none of them failed, and otherwise as a failure with the result of the
  first dependency that failed.\<close>

theorem waitForAll_decides:
  "waitForAll ds =
     (if None \<in> set ds then (False, False, [])
      else case filter dep_failed ds of
             [] \<Rightarrow> (True, True, map the ds)
           | d # _ \<Rightarrow> (True, False, [the d]))"
proof -
  have "filter (\<lambda>d. d \<noteq> None) ds = ds" if "None \<notin> set ds"
    by (rule filter_True) (use that in metis)
  moreover have "d \<noteq> None" if "filter dep_failed ds = d # es" for d es
  proof -
    have "d \<in> set (filter dep_failed ds)"
      using that by simp
    then show ?thesis
      by (auto simp: dep_failed_def split: option.splits)
  qed
  ultimately show ?thesis
    using filter_some [of ds]
    by (fastforce simp: waitForAll_def collect_results_eq first_failed_eq Let_def split: list.splits option.splits)
qed

lemma triggerAny_loop_eq:
  "triggerAny_loop ds u ff =
     (case filter (\<lambda>d. d \<noteq> None \<and> \<not> dep_failed d) ds of
        d # _ \<Rightarrow> (True, True, [the d])
      | [] \<Rightarrow>
          if u \<or> None \<in> set ds then (False, False, [])
          else case (if ds = [] then ff else last ds) of
                 Some r \<Rightarrow> (True, False, [r])
               | None \<Rightarrow> (True, False, []))"
  by (induction ds u ff rule: triggerAny_loop.induct) (auto split: option.splits list.splits)

text \<open>C21: \<^verbatim>\<open>triggerAny\<close> fires successfully, with its result alone, as soon as a dependency has
  succeeded (the first in order); it fires as a failure only when every dependency has failed,
  and then with the result of the last of them (the comment in the code says the first); and
  it never fires without dependencies.\<close>

theorem triggerAny_decides:
  "triggerAny ds =
     (case filter (\<lambda>d. d \<noteq> None \<and> \<not> dep_failed d) ds of
        d # _ \<Rightarrow> (True, True, [the d])
      | [] \<Rightarrow>
          if ds = [] \<or> None \<in> set ds then (False, False, [])
          else (True, False, [the (last ds)]))"
proof (cases "ds = []")
  case False
  then have "last ds \<noteq> None" if "None \<notin> set ds"
    using that by (metis last_in_set)
  then show ?thesis
    using False by (fastforce simp: triggerAny_def triggerAny_loop_eq split: list.splits option.splits)
qed (simp add: triggerAny_def)

end
