(* ===== verification/Completion_Graph.thy ===== *)
theory Completion_Graph
  imports Stage_Strategy
begin

text \<open>
  The operations of \<^verbatim>\<open>src/graph/graph.go\<close>. Each takes the event listener it calls back;
  the graph's own state and the listener's are one record, so a callback sees and may change
  the graph in the middle of an operation, as in the program.
\<close>

definition maxDelaySeconds :: int where "maxDelaySeconds = 86400"

definition maxStages :: nat where "maxStages = 1000"

definition maxTerminationHooks :: nat where "maxTerminationHooks = 100"

section \<open>Construction\<close>

definition graph_New ::
  "flow_id \<Rightarrow> function_id \<Rightarrow> int \<Rightarrow> (nat \<Rightarrow> stage_id list) \<Rightarrow> 'a \<Rightarrow> 'a CompletionGraph_scheme" where
  "graph_New i functionID now orders listener =
     \<lparr>GraphID = i, FunctionID = functionID, stages = [], state = StateInitial,
      terminationRoot = \<lparr>RawID = ''_termination'', rawResult = None\<rparr>,
      terminationChainHead = None, startTime = now, mapOrder = orders, \<dots> = listener\<rparr>"

section \<open>Triggering and completion checks\<close>

definition try_trigger ::
  "('a CompletionGraph_scheme) CompletionEventListener \<Rightarrow> stage_id \<Rightarrow>
   'a CompletionGraph_scheme \<Rightarrow> 'a CompletionGraph_scheme res" where
  "try_trigger lis k g =
     (case GetStage k g of
        None \<Rightarrow> Done g
      | Some stage \<Rightarrow>
          if \<not> IsResolved stage
          then (case requestTrigger k stage g of
                  ((trig, status, input), g') \<Rightarrow>
                    if trig then trigger status lis stage input g' else Done g')
          else Done g)"

definition triggerReadyStages ::
  "('a CompletionGraph_scheme) CompletionEventListener \<Rightarrow>
   'a CompletionGraph_scheme \<Rightarrow> 'a CompletionGraph_scheme res" where
  "triggerReadyStages lis g = fold_res (try_trigger lis) (range_keys g) (next_order g)"

definition checkForExecutionFinished ::
  "('a CompletionGraph_scheme) CompletionEventListener \<Rightarrow>
   'a CompletionGraph_scheme \<Rightarrow> 'a CompletionGraph_scheme res" where
  "checkForExecutionFinished lis g =
     (case state g of
        StateCommitted \<Rightarrow>
          if getPendingCount MainExecPhase g = 0 then lis OnGraphExecutionFinished (next_order g)
          else Done (next_order g)
      | StateTerminating \<Rightarrow>
          if getPendingCount TerminationExecPhase g = 0 then lis OnGraphComplete (next_order g)
          else Done (next_order g)
      | StateInitial \<Rightarrow> Done g
      | StateCompleted \<Rightarrow> Done g)"

definition tryCompleteComposedStage ::
  "('a CompletionGraph_scheme) CompletionEventListener \<Rightarrow> stage_id \<Rightarrow> stage_id \<Rightarrow>
   'a CompletionGraph_scheme \<Rightarrow> 'a CompletionGraph_scheme res" where
  "tryCompleteComposedStage lis outer inner g =
     (case GetStage inner g of
        None \<Rightarrow> Panic NilDereference g
      | Some i \<Rightarrow>
          if IsResolved i
          then (case GetStage outer g of
                  None \<Rightarrow> Panic NilDereference g
                | Some o' \<Rightarrow>
                    if \<not> IsResolved o' then lis (OnCompleteStage o' (result i)) g else Done g)
          else Done g)"

section \<open>Event handlers\<close>

definition handleCommitted ::
  "('a CompletionGraph_scheme) CompletionEventListener \<Rightarrow>
   'a CompletionGraph_scheme \<Rightarrow> 'a CompletionGraph_scheme res" where
  "handleCommitted lis g = checkForExecutionFinished lis (g\<lparr>state := StateCommitted\<rparr>)"

definition handleCompleted ::
  "'a CompletionGraph_scheme \<Rightarrow> 'a CompletionGraph_scheme res" where
  "handleCompleted g = Done (g\<lparr>state := StateCompleted\<rparr>)"

definition handleTerminating ::
  "('a CompletionGraph_scheme) CompletionEventListener \<Rightarrow> StatusDatumType \<Rightarrow> bool \<Rightarrow>
   'a CompletionGraph_scheme \<Rightarrow> 'a CompletionGraph_scheme res" where
  "handleTerminating lis status shouldTrigger g =
     (let g = g\<lparr>state := StateTerminating\<rparr>;
          g = g\<lparr>terminationRoot :=
                 SetResult (Some (NewSuccessfulResult (Some (NewStateDatum status))))
                   (terminationRoot g)\<rparr>
      in bind_res (if shouldTrigger then triggerReadyStages lis g else Done g)
           (checkForExecutionFinished lis))"

definition new_stage ::
  "stage_id \<Rightarrow> CompletionOperation \<Rightarrow> strategy \<Rightarrow> BlobDatum option \<Rightarrow> StageDependency list \<Rightarrow>
   ExecutionPhase \<Rightarrow> CompletionStage" where
  "new_stage i op strat cl deps phase =
     \<lparr>ID = i, result = None, operation = op, stage_strategy = strat, closure = cl,
      dependencies = deps, children = [], whenComplete = [], composeReference = None,
      triggered = False, execPhase = phase\<rparr>"

definition deps_out_of_range :: "strategy \<Rightarrow> nat \<Rightarrow> bool" where
  "deps_out_of_range strat n \<longleftrightarrow>
     int n < MinDependencies strat \<or>
     (MaxDependencies strat \<ge> 0 \<and> int n > MaxDependencies strat)"

definition add_child :: "stage_id \<Rightarrow> CompletionStage \<Rightarrow> CompletionStage" where
  "add_child i dep = dep\<lparr>children := children dep @ [i]\<rparr>"

text \<open>\<^verbatim>\<open>graph.stages[stage.ID] = stage\<close>.\<close>

definition put_stage ::
  "CompletionStage \<Rightarrow> 'a CompletionGraph_scheme \<Rightarrow> 'a CompletionGraph_scheme" where
  "put_stage stage g = g\<lparr>stages := AList.update (ID stage) stage (stages g)\<rparr>"

definition handleStageAdded ::
  "('a CompletionGraph_scheme) CompletionEventListener \<Rightarrow> stage_id \<Rightarrow> CompletionOperation \<Rightarrow>
   BlobDatum option \<Rightarrow> stage_id list \<Rightarrow> bool \<Rightarrow>
   'a CompletionGraph_scheme \<Rightarrow> 'a CompletionGraph_scheme res" where
  "handleStageAdded lis stageId op cl deps shouldTrigger g =
     (case getStrategyFromOperation op of
        None \<Rightarrow> Panic (PanicMessage ''invalid/unsupported operation'') g
      | Some strat \<Rightarrow>
          if deps_out_of_range strat (length deps)
          then Panic (PanicMessage ''Invalid no. of dependencies for operation'') g
          else if GetStage stageId g \<noteq> None
          then Panic (PanicMessage ''Duplicate stage'') g
          else if \<exists>i \<in> set deps. GetStage i g = None
          then Panic (PanicMessage ''Dependent stage not found'') g
          else
            (let stage = new_stage stageId op strat cl (map StageDep deps) MainExecPhase;
                 g = fold (\<lambda>d. upd_stage d (add_child stageId)) deps g;
                 g = put_stage stage g
             in if shouldTrigger then triggerReadyStages lis g else Done g))"

definition handleAddTerminationHook ::
  "stage_id \<Rightarrow> BlobDatum option \<Rightarrow> 'a CompletionGraph_scheme \<Rightarrow> 'a CompletionGraph_scheme res" where
  "handleAddTerminationHook stageId cl g =
     (case getStrategyFromOperation Op_terminationHook of
        None \<Rightarrow> Panic (PanicMessage ''invalid/unsupported operation'') g
      | Some strat \<Rightarrow>
          (let stage = new_stage stageId Op_terminationHook strat cl [TerminationRootDep]
                 TerminationExecPhase in
           case terminationChainHead g of
             None \<Rightarrow>
               Done (put_stage stage (g\<lparr>terminationChainHead := Some stageId\<rparr>))
           | Some oldHead \<Rightarrow>
               Done (put_stage (stage\<lparr>children := [oldHead]\<rparr>)
                      ((upd_stage oldHead (\<lambda>h. h\<lparr>dependencies := [StageDep stageId]\<rparr>) g)
                         \<lparr>terminationChainHead := Some stageId\<rparr>))))"

definition handleStageCompleted ::
  "('a CompletionGraph_scheme) CompletionEventListener \<Rightarrow> stage_id \<Rightarrow>
   CompletionResult option \<Rightarrow> bool \<Rightarrow>
   'a CompletionGraph_scheme \<Rightarrow> 'a CompletionGraph_scheme res" where
  "handleStageCompleted lis stageId res shouldTrigger g =
     (case res of
        None \<Rightarrow> Panic NilDereference g
      | Some r \<Rightarrow>
          (case GetStage stageId g of
             None \<Rightarrow> Panic NilDereference g
           | Some node \<Rightarrow>
               bind_res
                 (bind_res
                   (case composeReference node of
                      None \<Rightarrow> Done (upd_stage stageId (complete r) g)
                    | Some outer \<Rightarrow>
                        tryCompleteComposedStage lis outer stageId
                          (upd_stage stageId (complete r) g))
                   (\<lambda>g. if shouldTrigger then triggerReadyStages lis g else Done g))
                 (checkForExecutionFinished lis)))"

definition handleInvokeComplete ::
  "('a CompletionGraph_scheme) CompletionEventListener \<Rightarrow> stage_id \<Rightarrow>
   CompletionResult option \<Rightarrow>
   'a CompletionGraph_scheme \<Rightarrow> 'a CompletionGraph_scheme res" where
  "handleInvokeComplete lis stageId res g =
     (case GetStage stageId g of
        None \<Rightarrow> Panic NilDereference g
      | Some stage \<Rightarrow> handleResult lis stage res g)"

definition handleStageComposed ::
  "('a CompletionGraph_scheme) CompletionEventListener \<Rightarrow> stage_id \<Rightarrow> stage_id \<Rightarrow>
   'a CompletionGraph_scheme \<Rightarrow> 'a CompletionGraph_scheme res" where
  "handleStageComposed lis outer inner g =
     (if GetStage inner g = None then Panic NilDereference g
      else tryCompleteComposedStage lis outer inner
             (upd_stage inner (\<lambda>st. st\<lparr>composeReference :=
                (case GetStage outer g of None \<Rightarrow> None | Some _ \<Rightarrow> Some outer)\<rparr>) g))"

section \<open>Recovery\<close>

definition stageRecoveryFailedResult :: CompletionResult where
  "stageRecoveryFailedResult =
     NewInternalErrorResult Err_stage_lost
       ''Stage invocation lost - stage may still be executing''"

definition fail_lost_stage ::
  "('a CompletionGraph_scheme) CompletionEventListener \<Rightarrow> stage_id \<Rightarrow>
   'a CompletionGraph_scheme \<Rightarrow> 'a CompletionGraph_scheme res" where
  "fail_lost_stage lis k g =
     (case GetStage k g of
        None \<Rightarrow> Done g
      | Some stage \<Rightarrow>
          if \<not> IsResolved stage
          then (case requestTrigger k stage g of
                  ((trig, status, input), g') \<Rightarrow>
                    if trig then lis (OnCompleteStage stage (Some stageRecoveryFailedResult)) g'
                    else Done g')
          else Done g)"

definition Recover ::
  "('a CompletionGraph_scheme) CompletionEventListener \<Rightarrow>
   'a CompletionGraph_scheme \<Rightarrow> 'a CompletionGraph_scheme res" where
  "Recover lis g =
     bind_res (fold_res (fail_lost_stage lis) (range_keys g) (next_order g))
       (\<lambda>g. bind_res (triggerReadyStages lis g) (checkForExecutionFinished lis))"

section \<open>Events\<close>

text \<open>
  \<^verbatim>\<open>ptypes.Timestamp\<close> of the vendored protobuf library: the time, and whether the
  time stamp is invalid. \<^verbatim>\<open>time.Unix\<close> normalises seconds and nanoseconds to one instant.
\<close>

definition validateTimestamp :: "Timestamp option \<Rightarrow> bool" where
  "validateTimestamp ts =
     (case ts of
        None \<Rightarrow> False
      | Some t \<Rightarrow> -62135596800 \<le> Seconds t \<and> Seconds t < 253402300800 \<and>
                   0 \<le> Nanos t \<and> Nanos t < 1000000000)"

definition ptypes_Timestamp :: "Timestamp option \<Rightarrow> int \<times> bool" where
  "ptypes_Timestamp ts =
     (case ts of None \<Rightarrow> 0 | Some t \<Rightarrow> Seconds t * 1000000000 + Nanos t, \<not> validateTimestamp ts)"

definition update_startTime ::
  "Event \<Rightarrow> 'a CompletionGraph_scheme \<Rightarrow> 'a CompletionGraph_scheme" where
  "update_startTime e g =
     (case ptypes_Timestamp (EvtTs e) of
        (eventTime, err) \<Rightarrow>
          if err \<and> eventTime < startTime g then g\<lparr>startTime := eventTime\<rparr> else g)"

definition UpdateWithEvent ::
  "('a CompletionGraph_scheme) CompletionEventListener \<Rightarrow> Event \<Rightarrow> bool \<Rightarrow>
   'a CompletionGraph_scheme \<Rightarrow> 'a CompletionGraph_scheme res" where
  "UpdateWithEvent lis event mayTrigger g0 =
     (let g = update_startTime event g0 in
      case event of
        GraphCommittedEvent f ts \<Rightarrow> handleCommitted lis g
      | GraphTerminatingEvent f fn status ts \<Rightarrow> handleTerminating lis status mayTrigger g
      | GraphCompletedEvent f fn ts \<Rightarrow> handleCompleted g
      | StageAddedEvent f sid op cl deps ts loc caller \<Rightarrow>
          if op = Op_terminationHook then handleAddTerminationHook sid cl g
          else handleStageAdded lis sid op cl deps mayTrigger g
      | StageCompletedEvent f sid r ts \<Rightarrow> handleStageCompleted lis sid r mayTrigger g
      | FaasInvocationCompletedEvent f sid r ts call \<Rightarrow>
          if mayTrigger then handleInvokeComplete lis sid r g else Done g
      | StageComposedEvent f sid inner ts \<Rightarrow> handleStageComposed lis sid inner g
      | FaasInvocationStartedEvent f sid ts fn \<Rightarrow> Done g
      | _ \<Rightarrow> Done g)"

section \<open>Validation of commands\<close>

text \<open>\<^verbatim>\<open>ValidateCommand\<close> accepts, returns an error, or panics on a nil message.\<close>

datatype validation = Valid | Invalid error | ValidationPanic panic_reason

definition validateStages :: "stage_id list \<Rightarrow> 'a CompletionGraph_scheme \<Rightarrow> bool" where
  "validateStages ids g \<longleftrightarrow> list_all (\<lambda>i. GetStage i g \<noteq> None) ids"

definition hook_count :: "'a CompletionGraph_scheme \<Rightarrow> nat" where
  "hook_count g = length (filter (\<lambda>(k, s). operation s = Op_terminationHook) (stages g))"

definition validate_add :: "Command \<Rightarrow> 'a CompletionGraph_scheme \<Rightarrow> error option" where
  "validate_add cmd g =
     (if \<not> canModifyGraph g then Some (NewGraphCompletedError (CmdFlowId cmd))
      else case getStrategyFromOperation (GetOperation_cmd cmd) of
        None \<Rightarrow> Some (NewInvalidOperationError (CmdFlowId cmd))
      | Some strat \<Rightarrow>
          if deps_out_of_range strat (GetDependencyCount cmd)
          then Some (NewInvalidStageDependenciesError (CmdFlowId cmd))
          else if TakesClosure strat \<and> \<not> HasClosure cmd
          then Some (NewNeedsClosureError (CmdFlowId cmd))
          else if \<not> TakesClosure strat \<and> HasClosure cmd
          then Some (NewShouldNotHaveClosureError (CmdFlowId cmd))
          else if length (stages g) \<ge> maxStages
          then Some (NewTooManyStagesError (CmdFlowId cmd))
          else if GetOperation_cmd cmd = Op_terminationHook \<and> hook_count g \<ge> maxTerminationHooks
          then Some (NewTooManyTerminationHooksError (CmdFlowId cmd))
          else None)"

definition validate_datum :: "flow_id \<Rightarrow> CompletionResult option \<Rightarrow> validation" where
  "validate_datum f v =
     (case v of
        None \<Rightarrow> ValidationPanic NilDereference
      | Some r \<Rightarrow>
          (case ResultDatum r of
             None \<Rightarrow> ValidationPanic NilDereference
           | Some d \<Rightarrow> if HasValidValue d then Valid else Invalid (NewInvalidDatumError f)))"

definition validate_by_type :: "Command \<Rightarrow> 'a CompletionGraph_scheme \<Rightarrow> validation" where
  "validate_by_type cmd g =
     (case cmd of
        AddDelayStageRequest f ms loc caller \<Rightarrow>
          if ms \<le> 0 \<or> ms > maxDelaySeconds * 1000 then Invalid (NewInvalidDelayError f ms) else Valid
      | AddStageRequest f op cl deps loc caller \<Rightarrow>
          if validateStages deps g then Valid else Invalid (NewInvalidStageDependenciesError f)
      | AddCompletedValueStageRequest f v loc caller \<Rightarrow> validate_datum f v
      | CompleteStageExternallyRequest f sid v loc caller \<Rightarrow>
          (case validate_datum f v of
             Valid \<Rightarrow> if GetStage sid g = None then Invalid (NewStageNotFoundError f sid) else Valid
           | bad \<Rightarrow> bad)
      | AwaitStageResultRequest f sid timeout \<Rightarrow>
          if validateStages [sid] g then Valid else Invalid (NewStageNotFoundError f sid)
      | _ \<Rightarrow> Valid)"

definition ValidateCommand :: "Command \<Rightarrow> 'a CompletionGraph_scheme \<Rightarrow> validation" where
  "ValidateCommand cmd g =
     (case (if isAddStageCommand cmd then validate_add cmd g else None) of
        Some err \<Rightarrow> Invalid err
      | None \<Rightarrow> validate_by_type cmd g)"

end
