(* ===== verification/Graph_Contract.thy ===== *)
theory Graph_Contract
  imports Completion_Graph
begin

text \<open>
  What the graph and its event listener promise each other. \<open>wf_graph\<close> is the structural
  invariant of the graph; \<open>mutate\<close> is the change an event makes to the graph by itself,
  without the callbacks it sets off; \<open>view\<close> is what of a graph is determined by its
  events. The locale \<open>listener_contract\<close> states the listener's side, and inside it every
  operation of the graph is shown to keep the graph's side.
\<close>

section \<open>The structural invariant\<close>

definition stage_keys :: "'a CompletionGraph_scheme \<Rightarrow> stage_id set" where
  "stage_keys g = set (map fst (stages g))"

fun dep_ok :: "stage_id set \<Rightarrow> StageDependency \<Rightarrow> bool" where
  "dep_ok K (StageDep i) \<longleftrightarrow> i \<in> K"
| "dep_ok K TerminationRootDep \<longleftrightarrow> True"

text \<open>The parts of a stage that never change, once it is in the graph.\<close>

definition wf_static :: "stage_id \<Rightarrow> CompletionStage \<Rightarrow> bool" where
  "wf_static k st \<longleftrightarrow>
     ID st = k \<and>
     getStrategyFromOperation (operation st) = Some (stage_strategy st) \<and>
     execPhase st =
       (if operation st = Op_terminationHook then TerminationExecPhase else MainExecPhase) \<and>
     (if operation st = Op_terminationHook then length (dependencies st) = 1
      else \<not> deps_out_of_range (stage_strategy st) (length (dependencies st)))"

definition wf_links :: "stage_id set \<Rightarrow> CompletionStage \<Rightarrow> bool" where
  "wf_links K st \<longleftrightarrow>
     list_all (dep_ok K) (dependencies st) \<and> set (children st) \<subseteq> K \<and>
     (case composeReference st of None \<Rightarrow> True | Some o' \<Rightarrow> o' \<in> K)"

definition wf_result :: "CompletionStage \<Rightarrow> bool" where
  "wf_result st \<longleftrightarrow>
     (case result st of
        None \<Rightarrow> whenComplete st = []
      | Some r \<Rightarrow> triggered st \<and> whenComplete st = [r])"

definition wf_stage :: "stage_id set \<Rightarrow> stage_id \<Rightarrow> CompletionStage \<Rightarrow> bool" where
  "wf_stage K k st \<longleftrightarrow> wf_static k st \<and> wf_links K st \<and> wf_result st"

definition wf_graph :: "'a CompletionGraph_scheme \<Rightarrow> bool" where
  "wf_graph g \<longleftrightarrow>
     distinct (map fst (stages g)) \<and>
     list_all (\<lambda>(k, st). wf_stage (stage_keys g) k st) (stages g) \<and>
     (case terminationChainHead g of
        None \<Rightarrow> True
      | Some h \<Rightarrow> (case GetStage h g of None \<Rightarrow> False | Some st \<Rightarrow> operation st = Op_terminationHook))"

lemmas wf_stage_defs = wf_stage_def wf_static_def wf_links_def wf_result_def

lemma wf_stage_field_simps [simp]:
  "wf_static k (st\<lparr>children := c\<rparr>) = wf_static k st"
  "wf_static k (st\<lparr>composeReference := x\<rparr>) = wf_static k st"
  "wf_static k (st\<lparr>triggered := b\<rparr>) = wf_static k st"
  "wf_links K (st\<lparr>children := c\<rparr>) \<longleftrightarrow>
     set c \<subseteq> K \<and> list_all (dep_ok K) (dependencies st) \<and>
     (case composeReference st of None \<Rightarrow> True | Some o' \<Rightarrow> o' \<in> K)"
  "wf_links K (st\<lparr>composeReference := x\<rparr>) \<longleftrightarrow>
     set (children st) \<subseteq> K \<and> list_all (dep_ok K) (dependencies st) \<and>
     (case x of None \<Rightarrow> True | Some o' \<Rightarrow> o' \<in> K)"
  "wf_links K (st\<lparr>triggered := b\<rparr>) = wf_links K st"
  "wf_links K (st\<lparr>dependencies := ds\<rparr>) \<longleftrightarrow>
     set (children st) \<subseteq> K \<and> list_all (dep_ok K) ds \<and>
     (case composeReference st of None \<Rightarrow> True | Some o' \<Rightarrow> o' \<in> K)"
  "wf_result (st\<lparr>children := c\<rparr>) = wf_result st"
  "wf_result (st\<lparr>composeReference := x\<rparr>) = wf_result st"
  "wf_result (st\<lparr>dependencies := ds\<rparr>) = wf_result st"
  by (auto simp: wf_static_def wf_links_def wf_result_def split: option.splits)

lemma GetStage_in_keys: "GetStage k g = Some st \<Longrightarrow> k \<in> stage_keys g"
  by (simp add: GetStage_def stage_keys_def map_of_in_keys del: set_map)

lemma GetStage_None_iff: "GetStage k g = None \<longleftrightarrow> k \<notin> stage_keys g"
  by (simp add: GetStage_def stage_keys_def map_of_None_keys del: set_map)

lemma GetStage_Some_iff: "(\<exists>st. GetStage k g = Some st) \<longleftrightarrow> k \<in> stage_keys g"
  by (metis GetStage_None_iff not_None_eq)

lemma wf_graph_iff:
  "wf_graph g \<longleftrightarrow>
     distinct (map fst (stages g)) \<and>
     (\<forall>k st. GetStage k g = Some st \<longrightarrow> wf_stage (stage_keys g) k st) \<and>
     (\<forall>h. terminationChainHead g = Some h \<longrightarrow>
        (\<exists>st. GetStage h g = Some st \<and> operation st = Op_terminationHook))"
proof -
  have "list_all (\<lambda>(k, st). wf_stage (stage_keys g) k st) (stages g) \<longleftrightarrow>
      (\<forall>k st. GetStage k g = Some st \<longrightarrow> wf_stage (stage_keys g) k st)"
    if "distinct (map fst (stages g))"
    using that by (auto simp: list_all_iff GetStage_def)
  then show ?thesis
    by (auto simp: wf_graph_def split: option.splits)
qed

lemma wf_graph_stage: "wf_graph g \<Longrightarrow> GetStage k g = Some st \<Longrightarrow> wf_stage (stage_keys g) k st"
  by (simp add: wf_graph_iff)

lemma wf_graph_ID: "wf_graph g \<Longrightarrow> GetStage k g = Some st \<Longrightarrow> ID st = k"
  by (auto dest!: wf_graph_stage simp: wf_stage_defs)

lemma stage_keys_simps [simp]:
  "stage_keys (upd_stage i f g) = stage_keys g"
  "stage_keys (next_order g) = stage_keys g"
  "stage_keys (g\<lparr>state := x\<rparr>) = stage_keys g"
  "stage_keys (g\<lparr>terminationRoot := r\<rparr>) = stage_keys g"
  "stage_keys (g\<lparr>terminationChainHead := h\<rparr>) = stage_keys g"
  "stage_keys (g\<lparr>startTime := t\<rparr>) = stage_keys g"
  by (simp_all add: stage_keys_def del: set_map)

lemma GetStage_field_simps [simp]:
  "GetStage i (g\<lparr>state := x\<rparr>) = GetStage i g"
  "GetStage i (g\<lparr>terminationRoot := r\<rparr>) = GetStage i g"
  "GetStage i (g\<lparr>terminationChainHead := h\<rparr>) = GetStage i g"
  "GetStage i (g\<lparr>startTime := t\<rparr>) = GetStage i g"
  by (simp_all add: GetStage_def)

lemma wf_graph_field_simps [simp]:
  "wf_graph (next_order g) = wf_graph g"
  "wf_graph (g\<lparr>state := x\<rparr>) = wf_graph g"
  "wf_graph (g\<lparr>terminationRoot := r\<rparr>) = wf_graph g"
  "wf_graph (g\<lparr>startTime := t\<rparr>) = wf_graph g"
  by (simp_all add: wf_graph_iff)

lemma wf_graph_upd_stage:
  assumes "wf_graph g"
    and "\<And>st. GetStage i g = Some st \<Longrightarrow> wf_stage (stage_keys g) i (f st) \<and> operation (f st) = operation st"
  shows "wf_graph (upd_stage i f g)"
  using assms by (auto simp: wf_graph_iff GetStage_upd_stage split: if_splits)

lemma GetStage_put_stage:
  "GetStage i (put_stage st g) = (if i = ID st then Some st else GetStage i g)"
  by (simp add: GetStage_def put_stage_def update_conv)

lemma stage_keys_put_stage: "stage_keys (put_stage st g) = insert (ID st) (stage_keys g)"
  by (simp add: stage_keys_def put_stage_def dom_update)

lemma put_stage_simps [simp]:
  "state (put_stage st g) = state g"
  "terminationRoot (put_stage st g) = terminationRoot g"
  "terminationChainHead (put_stage st g) = terminationChainHead g"
  "CompletionGraph.more (put_stage st g) = CompletionGraph.more g"
  "GraphID (put_stage st g) = GraphID g"
  "FunctionID (put_stage st g) = FunctionID g"
  by (simp_all add: put_stage_def)

lemma distinct_put_stage:
  "distinct (map fst (stages g)) \<Longrightarrow> distinct (map fst (stages (put_stage st g)))"
  by (simp add: put_stage_def distinct_update)

lemma new_stage_simps [simp]:
  "ID (new_stage i op strat cl deps phase) = i"
  "result (new_stage i op strat cl deps phase) = None"
  "operation (new_stage i op strat cl deps phase) = op"
  "stage_strategy (new_stage i op strat cl deps phase) = strat"
  "closure (new_stage i op strat cl deps phase) = cl"
  "dependencies (new_stage i op strat cl deps phase) = deps"
  "children (new_stage i op strat cl deps phase) = []"
  "whenComplete (new_stage i op strat cl deps phase) = []"
  "composeReference (new_stage i op strat cl deps phase) = None"
  "triggered (new_stage i op strat cl deps phase) = False"
  "execPhase (new_stage i op strat cl deps phase) = phase"
  by (simp_all add: new_stage_def)

section \<open>The change an event makes\<close>

definition mutate_add ::
  "stage_id \<Rightarrow> CompletionOperation \<Rightarrow> BlobDatum option \<Rightarrow> stage_id list \<Rightarrow>
   'a CompletionGraph_scheme \<Rightarrow> 'a CompletionGraph_scheme" where
  "mutate_add sid op cl deps g =
     (case getStrategyFromOperation op of
        None \<Rightarrow> g
      | Some strat \<Rightarrow>
          if deps_out_of_range strat (length deps) \<or> sid \<in> stage_keys g \<or>
             \<not> set deps \<subseteq> stage_keys g
          then g
          else put_stage (new_stage sid op strat cl (map StageDep deps) MainExecPhase)
                 (fold (\<lambda>d. upd_stage d (add_child sid)) deps g))"

definition mutate_hook ::
  "stage_id \<Rightarrow> BlobDatum option \<Rightarrow> 'a CompletionGraph_scheme \<Rightarrow> 'a CompletionGraph_scheme" where
  "mutate_hook sid cl g =
     (let hook = new_stage sid Op_terminationHook
            (the (getStrategyFromOperation Op_terminationHook)) cl [TerminationRootDep]
            TerminationExecPhase
      in case terminationChainHead g of
           None \<Rightarrow> put_stage hook (g\<lparr>terminationChainHead := Some sid\<rparr>)
         | Some h \<Rightarrow>
             put_stage (hook\<lparr>children := [h]\<rparr>)
               ((upd_stage h (\<lambda>st. st\<lparr>dependencies := [StageDep sid]\<rparr>) g)
                  \<lparr>terminationChainHead := Some sid\<rparr>))"

definition mutate :: "Event \<Rightarrow> 'a CompletionGraph_scheme \<Rightarrow> 'a CompletionGraph_scheme" where
  "mutate event g =
     (case event of
        GraphCommittedEvent f ts \<Rightarrow> g\<lparr>state := StateCommitted\<rparr>
      | GraphTerminatingEvent f fn status ts \<Rightarrow>
          g\<lparr>state := StateTerminating,
            terminationRoot := SetResult
              (Some (NewSuccessfulResult (Some (NewStateDatum status)))) (terminationRoot g)\<rparr>
      | GraphCompletedEvent f fn ts \<Rightarrow> g\<lparr>state := StateCompleted\<rparr>
      | StageAddedEvent f sid op cl deps ts loc caller \<Rightarrow>
          if op = Op_terminationHook then mutate_hook sid cl g else mutate_add sid op cl deps g
      | StageCompletedEvent f sid r ts \<Rightarrow>
          (case r of None \<Rightarrow> g | Some v \<Rightarrow> upd_stage sid (complete v) g)
      | StageComposedEvent f sid inner ts \<Rightarrow>
          upd_stage inner (\<lambda>st. st\<lparr>composeReference :=
            (if sid \<in> stage_keys g then Some sid else None)\<rparr>) g
      | _ \<Rightarrow> g)"

text \<open>The events that respect the graph's naming: a new stage has a new name.\<close>

definition event_fresh :: "Event \<Rightarrow> 'a CompletionGraph_scheme \<Rightarrow> bool" where
  "event_fresh e g \<longleftrightarrow>
     (case e of StageAddedEvent f sid op cl deps ts loc caller \<Rightarrow> sid \<notin> stage_keys g | _ \<Rightarrow> True)"

lemma getStrategy_terminationHook:
  "\<exists>strat. getStrategyFromOperation Op_terminationHook = Some strat"
  by (simp add: getStrategyFromOperation_def)

lemma handleAddTerminationHook_mutate:
  "handleAddTerminationHook sid cl g = Done (mutate_hook sid cl g)"
  using getStrategy_terminationHook
  by (auto simp: handleAddTerminationHook_def mutate_hook_def Let_def split: option.splits)

lemma fold_add_child_simps [simp]:
  "stage_keys (fold (\<lambda>d. upd_stage d (add_child sid)) deps g) = stage_keys g"
  "state (fold (\<lambda>d. upd_stage d (add_child sid)) deps g) = state g"
  "terminationRoot (fold (\<lambda>d. upd_stage d (add_child sid)) deps g) = terminationRoot g"
  "terminationChainHead (fold (\<lambda>d. upd_stage d (add_child sid)) deps g) = terminationChainHead g"
  "CompletionGraph.more (fold (\<lambda>d. upd_stage d (add_child sid)) deps g) = CompletionGraph.more g"
  "map fst (stages (fold (\<lambda>d. upd_stage d (add_child sid)) deps g)) = map fst (stages g)"
  "GraphID (fold (\<lambda>d. upd_stage d (add_child sid)) deps g) = GraphID g"
  "FunctionID (fold (\<lambda>d. upd_stage d (add_child sid)) deps g) = FunctionID g"
  by (induction deps arbitrary: g) simp_all

lemma add_child_simps [simp]:
  "ID (add_child i st) = ID st"
  "result (add_child i st) = result st"
  "operation (add_child i st) = operation st"
  "stage_strategy (add_child i st) = stage_strategy st"
  "closure (add_child i st) = closure st"
  "dependencies (add_child i st) = dependencies st"
  "children (add_child i st) = children st @ [i]"
  "whenComplete (add_child i st) = whenComplete st"
  "composeReference (add_child i st) = composeReference st"
  "triggered (add_child i st) = triggered st"
  "execPhase (add_child i st) = execPhase st"
  by (simp_all add: add_child_def)

lemma GetStage_fold_add_child:
  "GetStage k (fold (\<lambda>d. upd_stage d (add_child sid)) deps g) =
     map_option (\<lambda>st. st\<lparr>children := children st @ replicate (count_list deps k) sid\<rparr>) (GetStage k g)"
proof (induction deps arbitrary: g)
  case Nil
  show ?case
    by (cases "GetStage k g") simp_all
next
  case (Cons d deps)
  have step: "(add_child sid st)\<lparr>children := children (add_child sid st) @ xs\<rparr> =
      st\<lparr>children := children st @ sid # xs\<rparr>" for st :: CompletionStage and xs
    by (simp add: add_child_def)
  show ?case
    by (cases "GetStage k g") (auto simp: Cons.IH GetStage_upd_stage step simp del: add_child_simps)
qed

section \<open>Events keep the structural invariant\<close>

lemma wf_links_mono: "wf_links K st \<Longrightarrow> K \<subseteq> K' \<Longrightarrow> wf_links K' st"
proof -
  assume a: "wf_links K st" "K \<subseteq> K'"
  have "dep_ok K d \<Longrightarrow> dep_ok K' d" for d
    using a(2) by (cases d) auto
  with a show ?thesis
    by (auto simp: wf_links_def list_all_iff split: option.splits)
qed

lemma wf_stage_mono: "wf_stage K k st \<Longrightarrow> K \<subseteq> K' \<Longrightarrow> wf_stage K' k st"
  by (auto simp: wf_stage_def intro: wf_links_mono)

lemma wf_stage_triggered [simp]:
  "wf_stage K k st \<Longrightarrow> wf_stage K k (st\<lparr>triggered := True\<rparr>)"
  by (auto simp: wf_stage_defs split: option.splits)

lemma wf_stage_complete [simp]: "wf_stage K k st \<Longrightarrow> wf_stage K k (complete r st)"
  by (auto simp: wf_stage_defs complete_def Let_def split: option.splits)

lemma wf_graph_mark: "wf_graph g \<Longrightarrow> wf_graph (upd_stage k (\<lambda>st. st\<lparr>triggered := True\<rparr>) g)"
  by (rule wf_graph_upd_stage) (auto dest: wf_graph_stage)

lemma wf_graph_complete: "wf_graph g \<Longrightarrow> wf_graph (upd_stage k (complete r) g)"
  by (rule wf_graph_upd_stage) (auto dest: wf_graph_stage)

lemma wf_graph_compose:
  assumes "wf_graph g"
  shows "wf_graph (upd_stage k (\<lambda>st. st\<lparr>composeReference :=
    (if sid \<in> stage_keys g then Some sid else None)\<rparr>) g)"
  by (rule wf_graph_upd_stage [OF assms])
     (auto dest!: wf_graph_stage [OF assms] simp: wf_stage_def wf_links_def)

lemma wf_graph_mutate_add: "wf_graph g \<Longrightarrow> op \<noteq> Op_terminationHook \<Longrightarrow> wf_graph (mutate_add sid op cl deps g)"
proof -
  assume wf: "wf_graph g" and op: "op \<noteq> Op_terminationHook"
  show ?thesis
  proof (cases "mutate_add sid op cl deps g = g")
    case True
    with wf show ?thesis by simp
  next
    case False
    then obtain strat where strat: "getStrategyFromOperation op = Some strat"
        "\<not> deps_out_of_range strat (length deps)"
      and new: "sid \<notin> stage_keys g" and deps: "set deps \<subseteq> stage_keys g"
      by (auto simp: mutate_add_def split: option.splits if_splits)
    let ?g = "fold (\<lambda>d. upd_stage d (add_child sid)) deps g"
    let ?n = "new_stage sid op strat cl (map StageDep deps) MainExecPhase"
    have eq: "mutate_add sid op cl deps g = put_stage ?n ?g"
      using strat new deps by (simp add: mutate_add_def)
    have n: "wf_stage (insert sid (stage_keys g)) sid ?n"
      using strat op deps
      by (auto simp: wf_stage_defs list_all_iff)
    have old: "wf_stage (insert sid (stage_keys g)) k
        (st\<lparr>children := children st @ replicate m sid\<rparr>)" if "GetStage k g = Some st" for k st m
      using wf_stage_mono [OF wf_graph_stage [OF wf that], of "insert sid (stage_keys g)"]
      by (auto simp: wf_stage_def wf_links_def)
    show ?thesis
      unfolding eq wf_graph_iff
    proof (intro conjI allI impI)
      show "distinct (map fst (stages (put_stage ?n ?g)))"
        by (rule distinct_put_stage) (use wf in \<open>simp add: wf_graph_def\<close>)
    next
      fix k st
      assume "GetStage k (put_stage ?n ?g) = Some st"
      then show "wf_stage (stage_keys (put_stage ?n ?g)) k st"
        using n old by (auto simp: GetStage_put_stage stage_keys_put_stage
            GetStage_fold_add_child split: if_splits)
    next
      fix h
      assume "terminationChainHead (put_stage ?n ?g) = Some h"
      then obtain st where "GetStage h g = Some st" "operation st = Op_terminationHook"
        using wf by (auto simp: wf_graph_iff)
      moreover from this new have "h \<noteq> sid"
        using GetStage_in_keys by blast
      ultimately show "\<exists>st. GetStage h (put_stage ?n ?g) = Some st \<and> operation st = Op_terminationHook"
        by (simp add: GetStage_put_stage GetStage_fold_add_child)
    qed
  qed
qed


lemma wf_graph_mutate_hook:
  assumes wf: "wf_graph g" and new: "sid \<notin> stage_keys g"
  shows "wf_graph (mutate_hook sid cl g)"
proof -
  obtain strat where strat: "getStrategyFromOperation Op_terminationHook = Some strat"
    using getStrategy_terminationHook by blast
  let ?h = "new_stage sid Op_terminationHook strat cl [TerminationRootDep] TerminationExecPhase"
  let ?K = "insert sid (stage_keys g)"
  have h: "wf_stage ?K sid (?h\<lparr>children := c\<rparr>)" if "set c \<subseteq> stage_keys g" for c
    using strat that by (auto simp: wf_stage_defs)
  have old: "wf_stage ?K k st" if "GetStage k g = Some st" for k st
    by (rule wf_stage_mono [OF wf_graph_stage [OF wf that]]) auto
  have h0: "wf_stage ?K sid ?h"
    using strat by (auto simp: wf_stage_defs)
  show ?thesis
  proof (cases "terminationChainHead g")
    case None
    then show ?thesis
      using wf strat h0 old
      by (auto simp: mutate_hook_def wf_graph_iff GetStage_put_stage stage_keys_put_stage
          distinct_put_stage split: if_splits)
  next
    case (Some old_head)
    then obtain hd_st where hd: "GetStage old_head g = Some hd_st" "operation hd_st = Op_terminationHook"
      using wf by (auto simp: wf_graph_iff)
    have "old_head \<in> stage_keys g"
      using hd GetStage_in_keys by blast
    moreover have "wf_stage ?K old_head (hd_st\<lparr>dependencies := [StageDep sid]\<rparr>)"
      using old [OF hd(1)] hd(2) by (auto simp: wf_stage_def wf_static_def wf_links_def)
    ultimately show ?thesis
      using wf strat Some hd old h [of "[old_head]"]
      by (auto simp: mutate_hook_def wf_graph_iff GetStage_put_stage stage_keys_put_stage
          distinct_put_stage GetStage_upd_stage split: if_splits)
  qed
qed

lemma wf_graph_mutate:
  assumes "wf_graph g" and "event_fresh e g"
  shows "wf_graph (mutate e g)"
  using assms
  by (cases e)
     (auto simp: mutate_def event_fresh_def wf_graph_mutate_hook wf_graph_mutate_add
        wf_graph_complete wf_graph_compose split: option.splits)

section \<open>What the events determine\<close>

text \<open>
  The view of a graph forgets the triggered flags, the start time, the orders of the coming
  loops and the listener's state.
\<close>

definition untrigger :: "CompletionStage \<Rightarrow> CompletionStage" where
  "untrigger st = st\<lparr>triggered := False\<rparr>"

definition view :: "'a CompletionGraph_scheme \<Rightarrow> CompletionGraph" where
  "view g =
     \<lparr>GraphID = GraphID g, FunctionID = FunctionID g,
      stages = map (\<lambda>(k, st). (k, untrigger st)) (stages g), state = state g,
      terminationRoot = terminationRoot g, terminationChainHead = terminationChainHead g,
      startTime = 0, mapOrder = (\<lambda>_. [])\<rparr>"


lemma untrigger_idem [simp]: "untrigger (untrigger st) = untrigger st"
  by (simp add: untrigger_def)

lemma untrigger_simps [simp]:
  "ID (untrigger st) = ID st"
  "result (untrigger st) = result st"
  "dependencies (untrigger st) = dependencies st"
  "operation (untrigger st) = operation st"
  "stage_strategy (untrigger st) = stage_strategy st"
  "composeReference (untrigger st) = composeReference st"
  "execPhase (untrigger st) = execPhase st"
  "whenComplete (untrigger st) = whenComplete st"
  by (simp_all add: untrigger_def)

lemma view_simps [simp]:
  "GraphID (view g) = GraphID g"
  "FunctionID (view g) = FunctionID g"
  "state (view g) = state g"
  "terminationRoot (view g) = terminationRoot g"
  "terminationChainHead (view g) = terminationChainHead g"
  "map fst (stages (view g)) = map fst (stages g)"
  "stage_keys (view g) = stage_keys g"
  by (simp_all add: view_def stage_keys_def case_prod_unfold comp_def image_image)

lemma GetStage_view: "GetStage k (view g) = map_option untrigger (GetStage k g)"
  by (simp add: GetStage_def view_def map_of_map)

lemma view_view [simp]: "view (view g) = view g"
  by (simp add: view_def case_prod_unfold)

lemma view_field_simps [simp]:
  "view (next_order g) = view g"
  "view (g\<lparr>startTime := t\<rparr>) = view g"
  "view (g\<lparr>state := x\<rparr>) = (view g)\<lparr>state := x\<rparr>"
  "view (g\<lparr>terminationRoot := r\<rparr>) = (view g)\<lparr>terminationRoot := r\<rparr>"
  "view (g\<lparr>terminationChainHead := h\<rparr>) = (view g)\<lparr>terminationChainHead := h\<rparr>"
  by (simp_all add: view_def next_order_def)

lemma view_update_startTime [simp]: "view (update_startTime e g) = view g"
  by (simp add: update_startTime_def split: prod.splits)

lemma map_entry_untrigger:
  "(\<And>st. untrigger (f (untrigger st)) = untrigger (f st)) \<Longrightarrow>
   map (\<lambda>(k, st). (k, untrigger st)) (AList.map_entry i f al) =
   AList.map_entry i (\<lambda>st. untrigger (f st)) (map (\<lambda>(k, st). (k, untrigger st)) al)"
  by (induction al) auto

lemma view_upd_stage:
  "(\<And>st. untrigger (f (untrigger st)) = untrigger (f st)) \<Longrightarrow>
   view (upd_stage i f g) = upd_stage i (\<lambda>st. untrigger (f st)) (view g)"
  by (simp add: view_def upd_stage_def map_entry_untrigger)

lemma view_mark [simp]: "view (upd_stage k (\<lambda>st. st\<lparr>triggered := b\<rparr>) g) = view g"
proof -
  have "map (\<lambda>(k, st). (k, untrigger st)) (AList.map_entry k (\<lambda>st. st\<lparr>triggered := b\<rparr>) al) =
      map (\<lambda>(k, st). (k, untrigger st)) al" for al
    by (induction al) (auto simp: untrigger_def)
  then show ?thesis
    by (simp add: view_def upd_stage_def)
qed

lemma view_put_stage: "view (put_stage st g) = put_stage (untrigger st) (view g)"
proof -
  have "map (\<lambda>(k, st). (k, untrigger st)) (AList.update i st al) =
      AList.update i (untrigger st) (map (\<lambda>(k, st). (k, untrigger st)) al)" for i al
    by (induction al) auto
  then show ?thesis
    by (simp add: view_def put_stage_def)
qed

lemma untrigger_complete: "untrigger (complete r (untrigger st)) = untrigger (complete r st)"
  by (simp add: untrigger_def complete_def Let_def)

lemma view_fold_add_child:
  "view (fold (\<lambda>d. upd_stage d (add_child sid)) deps g) =
   fold (\<lambda>d. upd_stage d (\<lambda>st. untrigger (add_child sid st))) deps (view g)"
proof (induction deps arbitrary: g)
  case (Cons d deps)
  have "untrigger (add_child sid (untrigger st)) = untrigger (add_child sid st)" for st
    by (simp add: untrigger_def add_child_def)
  then show ?case
    using Cons by (simp add: view_upd_stage)
qed simp

text \<open>An event changes the view in a way the view alone determines.\<close>

lemma view_mutate_add: "view (mutate_add sid op cl deps (view g)) = view (mutate_add sid op cl deps g)"
  by (simp add: mutate_add_def view_put_stage view_fold_add_child split: option.splits)

lemma view_mutate_hook: "view (mutate_hook sid cl (view g)) = view (mutate_hook sid cl g)"
proof -
  have "untrigger ((untrigger st)\<lparr>dependencies := ds\<rparr>) = untrigger (st\<lparr>dependencies := ds\<rparr>)" for st ds
    by (simp add: untrigger_def)
  then show ?thesis
    by (simp add: mutate_hook_def Let_def view_put_stage view_upd_stage split: option.splits)
qed

lemma view_mutate: "view (mutate e (view g)) = view (mutate e g)"
proof -
  have c: "untrigger ((untrigger st)\<lparr>composeReference := x\<rparr>) = untrigger (st\<lparr>composeReference := x\<rparr>)"
    for st x
    by (simp add: untrigger_def)
  show ?thesis
    by (cases e)
       (auto simp: mutate_def view_mutate_add view_mutate_hook view_upd_stage untrigger_complete c
        split: option.splits)
qed

end
