(* ===== verification/Flow_Spec.thy ===== *)
theory Flow_Spec
  imports Graph_Contract
begin

text \<open>
  The abstract specification of a flow: a state machine whose state is the view of a graph
  and whose steps are the events of the journal. \<open>legal\<close> says when an event may be
  written; \<open>flow_run\<close> is a run of the machine. The invariants of a flow are proved here
  by rule induction on its runs; the theory \<open>Actor_Journal\<close> shows that the graph actor
  implements the machine.
\<close>

section \<open>The machine\<close>

definition ids_ok :: "'a CompletionGraph_scheme \<Rightarrow> bool" where
  "ids_ok g \<longleftrightarrow> map fst (stages g) = map itoa [0..<length (stages g)]"

definition legal :: "Event \<Rightarrow> 'a CompletionGraph_scheme \<Rightarrow> bool" where
  "legal e g \<longleftrightarrow>
     (case e of
        GraphCreatedEvent f fn ts \<Rightarrow> False
      | GraphCommittedEvent f ts \<Rightarrow> state g = StateInitial
      | GraphTerminatingEvent f fn status ts \<Rightarrow>
          state g = StateCommitted \<and> getPendingCount MainExecPhase g = 0
      | GraphCompletedEvent f fn ts \<Rightarrow>
          state g = StateTerminating \<and> getPendingCount TerminationExecPhase g = 0
      | StageAddedEvent f sid op cl deps ts loc caller \<Rightarrow>
          sid = NextStageID g \<and> canModifyGraph g \<and> length (stages g) < maxStages
      | StageComposedEvent f sid inner ts \<Rightarrow> sid \<in> stage_keys g \<and> inner \<in> stage_keys g
      | _ \<Rightarrow> True)"

definition flow_step :: "Event \<Rightarrow> CompletionGraph \<Rightarrow> CompletionGraph" where
  "flow_step e g = view (mutate e g)"

inductive flow_run :: "CompletionGraph \<Rightarrow> Event list \<Rightarrow> CompletionGraph \<Rightarrow> bool" where
  run_nil: "flow_run g [] g"
| run_snoc: "flow_run g es h \<Longrightarrow> legal e h \<Longrightarrow> flow_run g (es @ [e]) (flow_step e h)"

text \<open>The events the graph itself asks for, through its listener.\<close>

fun is_callback :: "Event \<Rightarrow> bool" where
  "is_callback (GraphTerminatingEvent f fn status ts) = True"
| "is_callback (GraphCompletedEvent f fn ts) = True"
| "is_callback (StageCompletedEvent f sid r ts) = True"
| "is_callback (StageComposedEvent f sid inner ts) = True"
| "is_callback (FaasInvocationStartedEvent f sid ts fn) = True"
| "is_callback _ = False"

inductive_cases flow_run_nilE: "flow_run g [] h"

lemma flow_run_nil [simp]: "flow_run g [] h \<longleftrightarrow> h = g"
  by (auto intro: run_nil elim: flow_run_nilE)

lemma flow_run_fold: "flow_run g es h \<Longrightarrow> h = fold flow_step es g"
  by (induction rule: flow_run.induct) simp_all

lemma flow_run_append:
  assumes "flow_run h es' i" and "flow_run g es h"
  shows "flow_run g (es @ es') i"
  using assms
proof (induction rule: flow_run.induct)
  case (run_snoc h es' i e)
  then show ?case
    using flow_run.run_snoc [of g "es @ es'" i e] by simp
qed simp

lemma flow_run_single: "legal e g \<Longrightarrow> flow_run g [e] (flow_step e g)"
  using run_snoc [OF run_nil, of e g] by simp

lemma flow_run_Cons: "legal e g \<Longrightarrow> flow_run (flow_step e g) es h \<Longrightarrow> flow_run g (e # es) h"
  using flow_run_append [OF _ flow_run_single] by fastforce

lemma flow_run_ConsD:
  assumes "flow_run g (e # es) h"
  shows "legal e g \<and> flow_run (flow_step e g) es h"
  using assms
proof (induction es arbitrary: h rule: rev_induct)
  case Nil
  from Nil.prems show ?case
    by (cases rule: flow_run.cases) simp_all
next
  case (snoc x es)
  from snoc.prems obtain i where "flow_run g (e # es) i" "legal x i" "h = flow_step x i"
    by (cases rule: flow_run.cases) auto
  then show ?case
    using snoc.IH by (auto intro: run_snoc)
qed

section \<open>Runs respect the view\<close>

lemma getPendingCount_view [simp]: "getPendingCount ph (view g) = getPendingCount ph g"
proof -
  have "length (filter (\<lambda>(k, s). execPhase s = ph \<and> \<not> IsResolved s)
      (map (\<lambda>(k, st). (k, untrigger st)) al)) =
    length (filter (\<lambda>(k, s). execPhase s = ph \<and> \<not> IsResolved s) al)"
    for al :: "(stage_id \<times> CompletionStage) list"
    by (induction al) (auto simp: IsResolved_def)
  then show ?thesis
    by (simp add: getPendingCount_def view_def)
qed

lemma length_stages_view [simp]: "length (stages (view g)) = length (stages g)"
  by (simp add: view_def)

lemma NextStageID_view [simp]: "NextStageID (view g) = NextStageID g"
  by (simp add: NextStageID_def)

lemma ids_ok_view [simp]: "ids_ok (view g) = ids_ok g"
  by (simp add: ids_ok_def)

lemma canModifyGraph_view [simp]: "canModifyGraph (view g) = canModifyGraph g"
  by (simp add: canModifyGraph_def)

lemma legal_view [simp]: "legal e (view g) = legal e g"
  by (cases e) (simp_all add: legal_def)

lemma flow_step_view [simp]: "flow_step e (view g) = flow_step e g"
  by (simp add: flow_step_def view_mutate)

lemma wf_stage_untrigger: "wf_stage K k st \<Longrightarrow> result st = None \<Longrightarrow> wf_stage K k (untrigger st)"
  by (simp add: wf_stage_defs untrigger_def)

section \<open>Stage identifiers\<close>

lemma ids_ok_keys: "ids_ok g \<Longrightarrow> stage_keys g = itoa ` {0..<length (stages g)}"
  by (metis ids_ok_def stage_keys_def set_map set_upt)

lemma ids_ok_distinct: "ids_ok g \<Longrightarrow> distinct (map fst (stages g))"
  by (simp add: ids_ok_def distinct_map inj_on_def itoa_inj del: upt_Suc)

lemma NextStageID_fresh: "ids_ok g \<Longrightarrow> NextStageID g \<notin> stage_keys g"
  by (auto simp: ids_ok_keys NextStageID_def itoa_inj)

lemma map_fst_put_new:
  "ID st \<notin> stage_keys g \<Longrightarrow> map fst (stages (put_stage st g)) = map fst (stages g) @ [ID st]"
  by (simp add: put_stage_def stage_keys_def map_fst_update_new)

lemma length_put_new:
  "ID st \<notin> stage_keys g \<Longrightarrow> length (stages (put_stage st g)) = Suc (length (stages g))"
  by (simp add: put_stage_def stage_keys_def map_fst_update_new)

lemma ids_ok_put:
  assumes "map fst (stages h) = map fst (stages g)" and "ids_ok g" and "ID st = NextStageID g"
  shows "ids_ok (put_stage st h)"
proof -
  have "length (stages h) = length (stages g)"
    using assms(1) by (metis length_map)
  moreover have "ID st \<notin> stage_keys h"
    using NextStageID_fresh [OF assms(2)] assms(1,3) by (simp add: stage_keys_def del: set_map)
  ultimately show ?thesis
    using assms by (simp add: ids_ok_def map_fst_put_new length_put_new NextStageID_def)
qed

lemma ids_ok_cong: "map fst (stages h) = map fst (stages g) \<Longrightarrow> ids_ok h = ids_ok g"
  by (metis ids_ok_def length_map)

lemma map_fst_mutate:
  "\<not> is_StageAddedEvent e \<Longrightarrow> map fst (stages (mutate e g)) = map fst (stages g)"
  by (cases e) (auto simp: mutate_def split: option.splits)

lemma ids_ok_mutate_added:
  "ids_ok g \<Longrightarrow> ids_ok (mutate (StageAddedEvent f (NextStageID g) op cl deps ts loc caller) g)"
  by (auto simp: mutate_def mutate_hook_def mutate_add_def Let_def split: option.splits
      intro!: ids_ok_put [of _ g])

lemma ids_ok_mutate:
  assumes "ids_ok g" and "legal e g"
  shows "ids_ok (mutate e g)"
proof (cases "is_StageAddedEvent e")
  case True
  then show ?thesis
    using assms by (cases e) (simp_all add: legal_def ids_ok_mutate_added)
next
  case False
  then have "map fst (stages (mutate e g)) = map fst (stages g)"
    by (rule map_fst_mutate)
  then show ?thesis
    using assms(1) ids_ok_cong by metis
qed

lemma length_fold_add_child [simp]:
  "length (stages (fold (\<lambda>d. upd_stage d (add_child sid)) deps g)) = length (stages g)"
  by (induction deps arbitrary: g) simp_all

lemma length_mutate_added:
  "sid \<notin> stage_keys g \<Longrightarrow>
   length (stages (mutate (StageAddedEvent f sid op cl deps ts loc caller) g)) \<le> Suc (length (stages g))"
  by (auto simp: mutate_def mutate_hook_def mutate_add_def length_put_new Let_def split: option.splits)

lemma length_mutate:
  assumes "ids_ok g" and "legal e g" and "length (stages g) \<le> maxStages"
  shows "length (stages (mutate e g)) \<le> maxStages"
proof (cases "is_StageAddedEvent e")
  case True
  then obtain f sid op cl deps ts loc caller where e: "e = StageAddedEvent f sid op cl deps ts loc caller"
    by (cases e) simp_all
  have "length (stages (mutate e g)) \<le> Suc (length (stages g))"
    using assms e by (auto simp: legal_def intro!: length_mutate_added NextStageID_fresh)
  then show ?thesis
    using assms(2) e by (simp add: legal_def)
next
  case False
  then have "map fst (stages (mutate e g)) = map fst (stages g)"
    by (rule map_fst_mutate)
  then show ?thesis
    using assms(3) by (metis length_map)
qed

section \<open>How a flow evolves\<close>

text \<open>What no step changes: a stage keeps its identity, its operation, its closure and, once it
  has one, its result; a stage that is not a termination hook keeps its dependencies.\<close>

definition stage_evolves :: "CompletionStage \<Rightarrow> CompletionStage \<Rightarrow> bool" where
  "stage_evolves a b \<longleftrightarrow>
     ID b = ID a \<and> operation b = operation a \<and> stage_strategy b = stage_strategy a \<and>
     closure b = closure a \<and> execPhase b = execPhase a \<and>
     (operation a \<noteq> Op_terminationHook \<longrightarrow> dependencies b = dependencies a) \<and>
     (\<forall>r. result a = Some r \<longrightarrow> result b = Some r) \<and>
     take (length (children a)) (children b) = children a"

definition graph_evolves :: "'a CompletionGraph_scheme \<Rightarrow> 'b CompletionGraph_scheme \<Rightarrow> bool" where
  "graph_evolves g h \<longleftrightarrow>
     (\<forall>k a. GetStage k g = Some a \<longrightarrow> (\<exists>b. GetStage k h = Some b \<and> stage_evolves a b)) \<and>
     state g \<le> state h \<and> GraphID h = GraphID g \<and> FunctionID h = FunctionID g"

lemma stage_evolves_refl [simp]: "stage_evolves a a"
  by (simp add: stage_evolves_def)

lemma stage_evolves_trans:
  assumes "stage_evolves a b" and "stage_evolves b c"
  shows "stage_evolves a c"
proof -
  have "take (length (children a)) (children c) = children a"
    if ab: "take (length (children a)) (children b) = children a"
      and bc: "take (length (children b)) (children c) = children b"
  proof -
    have "length (children a) \<le> length (children b)"
      using ab by (metis length_take min.cobounded1)
    then have "take (length (children a)) (children c) =
        take (length (children a)) (take (length (children b)) (children c))"
      by (simp add: min_def)
    then show ?thesis
      using ab bc by simp
  qed
  then show ?thesis
    using assms by (auto simp: stage_evolves_def split: option.splits)
qed

lemma graph_evolves_refl [simp]: "graph_evolves g g"
  by (auto simp: graph_evolves_def)

lemma graph_evolves_trans:
  assumes "graph_evolves g h" and "graph_evolves h i"
  shows "graph_evolves g i"
  using assms unfolding graph_evolves_def by (metis stage_evolves_trans order_trans)

lemma stage_evolves_untrigger [simp]:
  "stage_evolves (untrigger a) b = stage_evolves a b"
  "stage_evolves a (untrigger b) = stage_evolves a b"
  by (simp_all add: stage_evolves_def untrigger_def)

lemma graph_evolves_view [simp]:
  "graph_evolves (view g) h = graph_evolves g h"
  "graph_evolves g (view h) = graph_evolves g h"
  by (fastforce simp: graph_evolves_def GetStage_view)+

lemma graph_evolves_upd_stage:
  "(\<And>st. GetStage k g = Some st \<Longrightarrow> stage_evolves st (f st)) \<Longrightarrow> graph_evolves g (upd_stage k f g)"
  by (auto simp: graph_evolves_def GetStage_upd_stage)

lemma graph_evolves_put_new:
  "ID st \<notin> stage_keys g \<Longrightarrow> graph_evolves g (put_stage st g)"
  using GetStage_in_keys by (fastforce simp: graph_evolves_def GetStage_put_stage)

lemma stage_evolves_field [simp]:
  "stage_evolves st (complete r st)"
  "stage_evolves st (add_child i st)"
  "stage_evolves st (st\<lparr>composeReference := x\<rparr>)"
  "stage_evolves st (st\<lparr>triggered := b\<rparr>)"
  "operation st = Op_terminationHook \<Longrightarrow> stage_evolves st (st\<lparr>dependencies := ds\<rparr>)"
  by (auto simp: stage_evolves_def split: option.splits)

lemma graph_evolves_fold_add_child:
  "graph_evolves g (fold (\<lambda>d. upd_stage d (add_child sid)) deps g)"
proof (induction deps arbitrary: g)
  case (Cons d deps)
  show ?case
    using graph_evolves_trans [OF graph_evolves_upd_stage Cons.IH] by fastforce
qed simp

lemma graph_evolves_state: "state g \<le> x \<Longrightarrow> graph_evolves g (g\<lparr>state := x\<rparr>)"
  by (auto simp: graph_evolves_def)

definition head_ok :: "'a CompletionGraph_scheme \<Rightarrow> bool" where
  "head_ok g \<longleftrightarrow>
     (\<forall>h. terminationChainHead g = Some h \<longrightarrow>
        (\<exists>st. GetStage h g = Some st \<and> operation st = Op_terminationHook))"

lemma graph_evolves_mutate_hook:
  assumes "head_ok g" and "sid \<notin> stage_keys g"
  shows "graph_evolves g (mutate_hook sid cl g)"
proof (cases "terminationChainHead g")
  case None
  then show ?thesis
    using assms(2) graph_evolves_put_new [of _ "g\<lparr>terminationChainHead := Some sid\<rparr>"]
    by (simp add: mutate_hook_def graph_evolves_def)
next
  case (Some h)
  let ?h = "upd_stage h (\<lambda>st. st\<lparr>dependencies := [StageDep sid]\<rparr>) g"
  let ?k = "?h\<lparr>terminationChainHead := Some sid\<rparr>"
  have "graph_evolves g ?h"
    using assms(1) Some by (intro graph_evolves_upd_stage) (auto simp: head_ok_def)
  then have "graph_evolves g ?k"
    by (simp add: graph_evolves_def)
  moreover have "graph_evolves ?k (put_stage st ?k)" if "ID st = sid" for st
    by (rule graph_evolves_put_new) (simp add: that assms(2))
  ultimately show ?thesis
    using Some by (auto simp: mutate_hook_def Let_def intro: graph_evolves_trans)
qed

lemma graph_evolves_mutate_add: "graph_evolves g (mutate_add sid op cl deps g)"
  by (auto simp: mutate_add_def split: option.splits
      intro: graph_evolves_trans [OF graph_evolves_fold_add_child graph_evolves_put_new])

lemma graph_evolves_mutate:
  assumes "ids_ok g" and "head_ok g" and "legal e g"
  shows "graph_evolves g (mutate e g)"
proof (cases e)
  case (GraphTerminatingEvent f fn status ts)
  then show ?thesis
    using assms(3) by (simp add: mutate_def legal_def graph_evolves_def less_eq_State_def)
qed (use assms NextStageID_fresh [OF assms(1)] in
    \<open>auto simp: mutate_def legal_def graph_evolves_mutate_hook graph_evolves_mutate_add
        graph_evolves_upd_stage graph_evolves_state less_eq_State_def split: option.splits\<close>)

section \<open>The shape of a flow\<close>

text \<open>The links between stages, in the order in which the stages were added.\<close>

type_synonym stage_shape = "stage_id \<times> CompletionOperation \<times> StageDependency list"

definition shape_of :: "stage_id \<times> CompletionStage \<Rightarrow> stage_shape" where
  "shape_of = (\<lambda>(k, st). (k, operation st, dependencies st))"

definition shape :: "'a CompletionGraph_scheme \<Rightarrow> stage_shape list" where
  "shape g = map shape_of (stages g)"

fun relink :: "stage_id option \<Rightarrow> stage_id \<Rightarrow> stage_shape \<Rightarrow> stage_shape" where
  "relink h sid (k, op, ds) = (k, op, if h = Some k then [StageDep sid] else ds)"

lemma shape_view [simp]: "shape (view g) = shape g"
  by (simp add: shape_def view_def shape_of_def case_prod_unfold)

lemma length_shape [simp]: "length (shape g) = length (stages g)"
  by (simp add: shape_def)

lemma map_fst_shape: "map fst (shape g) = map fst (stages g)"
  by (simp add: shape_def shape_of_def case_prod_unfold)

lemma shape_cong [simp]:
  "shape (g\<lparr>state := x\<rparr>) = shape g"
  "shape (g\<lparr>terminationRoot := r\<rparr>) = shape g"
  "shape (g\<lparr>terminationChainHead := h\<rparr>) = shape g"
  by (simp_all add: shape_def)

lemma shape_upd_stage:
  assumes "\<And>st. operation (f st) = operation st" and "\<And>st. dependencies (f st) = dependencies st"
  shows "shape (upd_stage k f g) = shape g"
proof -
  have "map shape_of (AList.map_entry k f al) = map shape_of al" for al
    by (induction al) (auto simp: shape_of_def assms)
  then show ?thesis
    by (simp add: shape_def upd_stage_def)
qed

lemma shape_fold_add_child [simp]: "shape (fold (\<lambda>d. upd_stage d (add_child sid)) deps g) = shape g"
  by (induction deps arbitrary: g) (simp_all add: shape_upd_stage)

lemma shape_put_new:
  "ID st \<notin> stage_keys g \<Longrightarrow> shape (put_stage st g) = shape g @ [(ID st, operation st, dependencies st)]"
  by (simp add: shape_def put_stage_def stage_keys_def map_fst_update_new shape_of_def)

lemma shape_mutate:
  "\<not> is_StageAddedEvent e \<Longrightarrow> shape (mutate e g) = shape g"
  by (cases e) (auto simp: mutate_def shape_upd_stage shape_cong split: option.splits)

lemma shape_relink:
  assumes "distinct (map fst (stages g))"
  shows "shape (upd_stage h (\<lambda>st. st\<lparr>dependencies := [StageDep sid]\<rparr>) g) =
    map (relink (Some h) sid) (shape g)"
proof -
  have "map shape_of (AList.map_entry h (\<lambda>st. st\<lparr>dependencies := [StageDep sid]\<rparr>) al) =
      map (relink (Some h) sid \<circ> shape_of) al" if "distinct (map fst al)" for al
    using that
  proof (induction al)
    case (Cons a al)
    have "map (relink (Some h) sid \<circ> shape_of) al = map shape_of al" if "h \<notin> set (map fst al)"
      using that by (induction al) (auto simp: shape_of_def)
    then show ?case
      using Cons by (cases a) (auto simp: shape_of_def image_iff)
  qed simp
  then show ?thesis
    using assms by (simp add: shape_def upd_stage_def)
qed

lemma shape_mutate_hook:
  assumes "distinct (map fst (stages g))" and "sid \<notin> stage_keys g"
  shows "shape (mutate_hook sid cl g) =
    map (relink (terminationChainHead g) sid) (shape g) @
      [(sid, Op_terminationHook, [TerminationRootDep])]"
proof -
  have none: "map (relink None sid) xs = xs" for xs
    by (induction xs) auto
  show ?thesis
    using assms
    by (cases "terminationChainHead g")
       (simp_all add: mutate_hook_def Let_def shape_put_new none shape_relink)
qed

lemma shape_mutate_add:
  assumes "sid \<notin> stage_keys g"
  shows "shape (mutate_add sid op cl deps g) = shape g \<or>
    set deps \<subseteq> stage_keys g \<and>
    shape (mutate_add sid op cl deps g) = shape g @ [(sid, op, map StageDep deps)]"
  using assms by (auto simp: mutate_add_def shape_put_new split: option.splits)

section \<open>Termination hooks and dependencies\<close>

text \<open>
  The termination hooks in the order in which they were added. Each depends on the next, and
  the last on the termination root: when the flow terminates they run in reverse order.
\<close>

fun is_hook :: "stage_shape \<Rightarrow> bool" where
  "is_hook (k, op, ds) \<longleftrightarrow> op = Op_terminationHook"

fun chained :: "stage_shape list \<Rightarrow> bool" where
  "chained [] \<longleftrightarrow> True"
| "chained [(k, op, ds)] \<longleftrightarrow> ds = [TerminationRootDep]"
| "chained ((k, op, ds) # (k', op', ds') # hs) \<longleftrightarrow>
     ds = [StageDep k'] \<and> chained ((k', op', ds') # hs)"

definition hooks :: "'a CompletionGraph_scheme \<Rightarrow> stage_shape list" where
  "hooks g = filter is_hook (shape g)"

definition hook_chain :: "'a CompletionGraph_scheme \<Rightarrow> bool" where
  "hook_chain g \<longleftrightarrow>
     terminationChainHead g = (if hooks g = [] then None else Some (fst (last (hooks g)))) \<and>
     chained (hooks g)"

text \<open>A stage that is not a hook depends on stages added before it.\<close>

definition deps_older :: "'a CompletionGraph_scheme \<Rightarrow> bool" where
  "deps_older g \<longleftrightarrow>
     (\<forall>i < length (stages g).
        \<not> is_hook (shape g ! i) \<longrightarrow>
        (\<forall>d \<in> set (snd (snd (shape g ! i))). \<exists>j < i. d = StageDep (itoa j)))"

lemma chained_relink:
  assumes "chained hs" and "distinct (map fst hs)" and "hs \<noteq> []"
  shows "chained (map (relink (Some (fst (last hs))) sid) hs @ [(sid, op', [TerminationRootDep])])"
  using assms
proof (induction hs rule: chained.induct)
  case (3 k op ds k' op' ds' hs)
  have "k \<noteq> fst (last ((k', op', ds') # hs))"
    using "3.prems"(2) last_in_set [of "(k', op', ds') # hs"] by (force simp: image_iff)
  then show ?case
    using 3 by (cases hs) auto
qed simp_all

lemma filter_relink: "filter is_hook (map (relink h sid) xs) = map (relink h sid) (filter is_hook xs)"
  by (induction xs) auto

lemma map_fst_relink: "map fst (map (relink h sid) xs) = map fst xs"
  by (induction xs) auto

lemma hook_chain_mutate_hook:
  assumes "hook_chain g" and "distinct (map fst (stages g))" and "sid \<notin> stage_keys g"
  shows "hook_chain (mutate_hook sid cl g)"
proof -
  have head: "terminationChainHead (mutate_hook sid cl g) = Some sid"
    by (simp add: mutate_hook_def Let_def split: option.splits)
  have hs: "hooks (mutate_hook sid cl g) =
      map (relink (terminationChainHead g) sid) (hooks g) @ [(sid, Op_terminationHook, [TerminationRootDep])]"
    using assms(2,3) by (simp add: hooks_def shape_mutate_hook filter_relink)
  have "distinct (map fst (hooks g))"
    using assms(2) by (simp add: hooks_def distinct_map_filter map_fst_shape)
  then have "chained (hooks (mutate_hook sid cl g))"
    using assms(1) hs chained_relink [of "hooks g" sid]
    by (cases "hooks g = []") (auto simp: hook_chain_def)
  then show ?thesis
    using head hs by (simp add: hook_chain_def)
qed

lemma hook_chain_cong:
  "hooks h = hooks g \<Longrightarrow> terminationChainHead h = terminationChainHead g \<Longrightarrow> hook_chain h = hook_chain g"
  by (simp add: hook_chain_def)

lemma terminationChainHead_mutate:
  "\<not> is_StageAddedEvent e \<Longrightarrow> terminationChainHead (mutate e g) = terminationChainHead g"
  by (cases e) (auto simp: mutate_def split: option.splits)

lemma hook_chain_mutate:
  assumes "hook_chain g" and "ids_ok g" and "legal e g"
  shows "hook_chain (mutate e g)"
proof (cases "is_StageAddedEvent e")
  case False
  then show ?thesis
    using assms(1) hook_chain_cong [of "mutate e g" g]
    by (simp add: hooks_def shape_mutate terminationChainHead_mutate)
next
  case True
  then obtain f op cl deps ts loc caller
    where e: "e = StageAddedEvent f (NextStageID g) op cl deps ts loc caller"
    using assms(3) by (cases e) (auto simp: legal_def)
  note fresh = NextStageID_fresh [OF assms(2)]
  show ?thesis
  proof (cases "op = Op_terminationHook")
    case True
    have "distinct (map fst (stages g))"
      using assms(2) by (rule ids_ok_distinct)
    then show ?thesis
      using True e hook_chain_mutate_hook [OF assms(1) _ fresh] by (simp add: mutate_def)
  next
    case False
    have "terminationChainHead (mutate_add sid op cl deps g) = terminationChainHead g" for sid
      by (simp add: mutate_add_def split: option.splits)
    moreover have "hooks (mutate_add (NextStageID g) op cl deps g) = hooks g"
      using shape_mutate_add [OF fresh, of op cl deps] False by (auto simp: hooks_def)
    ultimately show ?thesis
      using False e assms(1) hook_chain_cong [of "mutate e g" g] by (simp add: mutate_def)
  qed
qed

section \<open>The invariant of a flow\<close>

lemma deps_older_append:
  assumes "shape h = shape g @ [(sid, op, ds)]" and "deps_older g" and "length (stages h) = Suc (length (stages g))"
    and "op \<noteq> Op_terminationHook \<Longrightarrow> set ds \<subseteq> StageDep ` itoa ` {0..<length (stages g)}"
  shows "deps_older h"
  using assms by (fastforce simp: deps_older_def nth_append less_Suc_eq)

lemma deps_older_relink:
  assumes "shape h = map (relink x sid) (shape g)" and "deps_older g"
    and "\<And>k op ds. (k, op, ds) \<in> set (shape g) \<Longrightarrow> x = Some k \<Longrightarrow> op = Op_terminationHook"
  shows "deps_older h"
proof -
  have len: "length (stages h) = length (stages g)"
    using assms(1) by (metis length_map length_shape)
  have "\<not> is_hook (shape g ! i) \<and> shape h ! i = shape g ! i"
    if "i < length (stages g)" "\<not> is_hook (shape h ! i)" for i
  proof -
    obtain k op ds where i: "shape g ! i = (k, op, ds)"
      by (metis prod_cases3)
    then have "(k, op, ds) \<in> set (shape g)"
      using that(1) by (metis length_shape nth_mem)
    then show ?thesis
      using that i assms(1,3) by (auto simp: nth_map)
  qed
  then show ?thesis
    using assms(2) len by (metis deps_older_def)
qed

lemma hook_chain_head:
  assumes "hook_chain g" and "ids_ok g"
  shows "head_ok g"
proof -
  have d: "distinct (map fst (stages g))"
    using assms(2) by (rule ids_ok_distinct)
  have "\<exists>st. GetStage h g = Some st \<and> operation st = Op_terminationHook"
    if "terminationChainHead g = Some h" for h
  proof -
    obtain op ds where "last (hooks g) = (h, op, ds)" "hooks g \<noteq> []"
      using assms(1) \<open>terminationChainHead g = Some h\<close> by (cases "last (hooks g)") (auto simp: hook_chain_def split: if_splits)
    then have "(h, op, ds) \<in> set (hooks g)"
      by (metis last_in_set)
    then obtain st where "(h, st) \<in> set (stages g)" "operation st = Op_terminationHook"
      by (auto simp: hooks_def shape_def shape_of_def)
    then show ?thesis
      using d by (auto simp: GetStage_def)
  qed
  then show ?thesis
    by (simp add: head_ok_def)
qed

lemma shape_hook_unique:
  assumes "hook_chain g" and "ids_ok g" and "(k, op, ds) \<in> set (shape g)" and "terminationChainHead g = Some k"
  shows "op = Op_terminationHook"
proof -
  have "distinct (map fst (stages g))"
    using assms(2) by (rule ids_ok_distinct)
  moreover obtain st where "(k, st) \<in> set (stages g)" "operation st = op"
    using assms(3) by (auto simp: shape_def shape_of_def)
  ultimately show ?thesis
    using hook_chain_head [OF assms(1,2)] assms(4)
    by (auto simp: head_ok_def GetStage_def dest: eq_key_imp_eq_value)
qed

lemma deps_older_mutate_hook:
  assumes "deps_older g" and "hook_chain g" and "ids_ok g"
  shows "deps_older (mutate_hook (NextStageID g) cl g)"
proof -
  note fresh = NextStageID_fresh [OF assms(3)]
  let ?x = "relink (terminationChainHead g) (NextStageID g)"
  let ?h = "upd_stage (the (terminationChainHead g)) (\<lambda>st. st\<lparr>dependencies := [StageDep (NextStageID g)]\<rparr>) g"
  have d: "distinct (map fst (stages g))"
    using assms(3) by (rule ids_ok_distinct)
  have none: "map (relink None sid) xs = xs" for xs sid
    by (induction xs) auto
  obtain h :: "'a CompletionGraph_scheme" where h: "shape h = map ?x (shape g)"
    using shape_relink [OF d, of "the (terminationChainHead g)" "NextStageID g"] none
    by (cases "terminationChainHead g") auto
  then have "deps_older h"
    by (rule deps_older_relink [OF _ assms(1)]) (use shape_hook_unique assms in blast)
  moreover have "shape (mutate_hook (NextStageID g) cl g) =
      shape h @ [(NextStageID g, Op_terminationHook, [TerminationRootDep])]"
    by (simp add: shape_mutate_hook d fresh h)
  moreover from this have "length (stages (mutate_hook (NextStageID g) cl g)) = Suc (length (stages h))"
    by (metis length_shape length_append_singleton)
  ultimately show ?thesis
    using deps_older_append by blast
qed

lemma deps_older_mutate:
  assumes "deps_older g" and "hook_chain g" and "ids_ok g" and "legal e g"
  shows "deps_older (mutate e g)"
proof -
  have same: "deps_older h" if "shape h = shape g" for h :: "'a CompletionGraph_scheme"
    using that assms(1) by (metis deps_older_def length_shape)
  show ?thesis
  proof (cases "is_StageAddedEvent e")
    case False
    then show ?thesis
      by (intro same shape_mutate)
  next
    case True
    then obtain f op cl deps ts loc caller
      where e: "e = StageAddedEvent f (NextStageID g) op cl deps ts loc caller"
      using assms(4) by (cases e) (auto simp: legal_def)
    show ?thesis
    proof (cases "op = Op_terminationHook")
      case True
      then show ?thesis
        using e assms by (simp add: mutate_def deps_older_mutate_hook)
    next
      case False
      let ?h = "mutate_add (NextStageID g) op cl deps g"
      have "deps_older ?h"
        using shape_mutate_add [OF NextStageID_fresh [OF assms(3)], of op cl deps]
      proof
        assume *: "set deps \<subseteq> stage_keys g \<and> shape ?h = shape g @ [(NextStageID g, op, map StageDep deps)]"
        then have "length (stages ?h) = Suc (length (stages g))"
          by (metis length_shape length_append_singleton)
        then show ?thesis
          by (rule deps_older_append [rotated 2])
             (use * assms(1,3) in \<open>auto simp: ids_ok_keys\<close>)
      qed (rule same)
      then show ?thesis
        using False e by (simp add: mutate_def)
    qed
  qed
qed

text \<open>The termination root has a result once the flow terminates, and not before.\<close>

definition root_ok :: "'a CompletionGraph_scheme \<Rightarrow> bool" where
  "root_ok g \<longleftrightarrow> (rawResult (terminationRoot g) = None) = canModifyGraph g"

lemma root_ok_mutate: "root_ok g \<Longrightarrow> legal e g \<Longrightarrow> root_ok (mutate e g)"
  by (cases e)
     (auto simp: root_ok_def canModifyGraph_iff mutate_def mutate_hook_def mutate_add_def legal_def
        SetResult_def Let_def split: option.splits)

definition flow_inv :: "'a CompletionGraph_scheme \<Rightarrow> bool" where
  "flow_inv g \<longleftrightarrow>
     ids_ok g \<and> length (stages g) \<le> maxStages \<and> hook_chain g \<and> deps_older g \<and> root_ok g"

lemma flow_inv_view [simp]: "flow_inv (view g) = flow_inv g"
  by (simp add: flow_inv_def hook_chain_def deps_older_def hooks_def root_ok_def)

lemma flow_inv_mutate: "flow_inv g \<Longrightarrow> legal e g \<Longrightarrow> flow_inv (mutate e g)"
  by (simp add: flow_inv_def ids_ok_mutate length_mutate hook_chain_mutate deps_older_mutate
      root_ok_mutate)

lemma flow_inv_of_view:
  assumes "view u = flow_step e (view s)" and "flow_inv s" and "legal e s"
  shows "flow_inv u"
  by (metis assms flow_inv_mutate flow_inv_view flow_step_def view_mutate)

lemma flow_inv_new: "flow_inv (graph_New i fn now orders x)"
  by (simp add: flow_inv_def graph_New_def ids_ok_def hook_chain_def deps_older_def hooks_def shape_def
      root_ok_def canModifyGraph_def)

lemma flow_run_inv: "flow_run g es h \<Longrightarrow> flow_inv g \<Longrightarrow> flow_inv h"
  by (induction rule: flow_run.induct) (simp_all add: flow_step_def flow_inv_mutate)

lemma flow_run_evolves: "flow_run g es h \<Longrightarrow> flow_inv g \<Longrightarrow> graph_evolves g h"
proof (induction rule: flow_run.induct)
  case (run_snoc g es h e)
  then have "graph_evolves h (mutate e h)"
    using flow_run_inv [OF run_snoc.hyps(1)]
    by (intro graph_evolves_mutate hook_chain_head) (simp_all add: flow_inv_def)
  then show ?case
    using run_snoc graph_evolves_trans by (fastforce simp: flow_step_def)
qed simp

text \<open>The life cycle: a run writes each of the three life cycle events at most once.\<close>

definition lifecycle_events :: "Event list \<Rightarrow> Event list" where
  "lifecycle_events es =
     filter (\<lambda>e. is_GraphCommittedEvent e \<or> is_GraphTerminatingEvent e \<or> is_GraphCompletedEvent e) es"

fun lifecycle_target :: "Event \<Rightarrow> State" where
  "lifecycle_target (GraphCommittedEvent f ts) = StateCommitted"
| "lifecycle_target (GraphTerminatingEvent f fn status ts) = StateTerminating"
| "lifecycle_target _ = StateCompleted"

lemma state_mutate:
  "\<not> (is_GraphCommittedEvent e \<or> is_GraphTerminatingEvent e \<or> is_GraphCompletedEvent e) \<Longrightarrow>
   state (mutate e g) = state g"
  by (cases e) (auto simp: mutate_def mutate_hook_def mutate_add_def Let_def split: option.splits)

lemma flow_run_state: "flow_run g es h \<Longrightarrow> state_rank (state g) \<le> state_rank (state h)"
proof (induction rule: flow_run.induct)
  case (run_snoc g es h e)
  then show ?case
    using state_mutate [of e h]
    by (cases e) (auto simp: flow_step_def mutate_def legal_def)
qed simp

lemma flow_run_lifecycle:
  assumes "flow_run g es h"
  shows "map (state_rank \<circ> lifecycle_target) (lifecycle_events es) =
    [Suc (state_rank (state g))..<Suc (state_rank (state h))]"
  using assms
proof (induction rule: flow_run.induct)
  case (run_snoc g es h e)
  show ?case
  proof (cases "is_GraphCommittedEvent e \<or> is_GraphTerminatingEvent e \<or> is_GraphCompletedEvent e")
    case True
    have "state_rank (state g) \<le> state_rank (state h)"
      by (rule flow_run_state [OF run_snoc.hyps(1)])
    moreover have "state (flow_step e h) = lifecycle_target e"
      and "state_rank (lifecycle_target e) = Suc (state_rank (state h))"
      using True run_snoc.hyps(2) by (cases e; simp add: flow_step_def mutate_def legal_def)+
    ultimately show ?thesis
      using True run_snoc.IH by (simp add: lifecycle_events_def)
  next
    case False
    then have "state (mutate e h) = state h"
      by (rule state_mutate)
    then show ?thesis
      using False run_snoc by (simp add: lifecycle_events_def flow_step_def)
  qed
qed (simp add: lifecycle_events_def)

end
