(* ===== verification/Listener_Contract.thy ===== *)
theory Listener_Contract
  imports Graph_Contract
begin

text \<open>
  The interface between the graph and its event listener as a locale. \<open>R\<close> is any
  preorder on states that marking a stage as triggered respects; if each of the listener's
  five methods keeps the structural invariant and moves the state along \<open>R\<close>, then so does
  every operation of the graph, from the state in which the handled event has been applied.
\<close>

text \<open>A panic leaves the state in which it cut the operation off; \<open>C\<close> relates the last state that \<open>R\<close> was kept up to to that one.\<close>

definition keeps ::
  "('a CompletionGraph_scheme \<Rightarrow> 'a CompletionGraph_scheme \<Rightarrow> bool) \<Rightarrow>
   ('a CompletionGraph_scheme \<Rightarrow> 'a CompletionGraph_scheme \<Rightarrow> bool) \<Rightarrow>
   'a CompletionGraph_scheme \<Rightarrow> 'a CompletionGraph_scheme res \<Rightarrow> bool" where
  "keeps C R g r \<longleftrightarrow>
     (case r of
        Done h \<Rightarrow> wf_graph h \<and> R g h
      | Panic p h \<Rightarrow> wf_graph h \<and> (\<exists>h'. R g h' \<and> C h' h)
      | NoFuel \<Rightarrow> True)"

lemma keeps_simps [simp]:
  "keeps C R g (Done h) \<longleftrightarrow> wf_graph h \<and> R g h"
  "keeps C R g (Panic p h) \<longleftrightarrow> wf_graph h \<and> (\<exists>h'. R g h' \<and> C h' h)"
  "keeps C R g NoFuel"
  by (simp_all add: keeps_def)

lemma keeps_DoneD: "keeps C R g r \<Longrightarrow> r = Done h \<Longrightarrow> wf_graph h \<and> R g h"
  by simp

lemma upd_stage_missing: "k \<notin> stage_keys g \<Longrightarrow> upd_stage k f g = g"
proof -
  have "k \<notin> set (map fst al) \<Longrightarrow> AList.map_entry k f al = al" for al :: "(stage_id \<times> CompletionStage) list"
    by (induction al) auto
  then show "k \<notin> stage_keys g \<Longrightarrow> upd_stage k f g = g"
    by (simp add: upd_stage_def stage_keys_def del: set_map)
qed

locale listener_contract =
  fixes lis :: "('a CompletionGraph_scheme) CompletionEventListener"
    and R :: "'a CompletionGraph_scheme \<Rightarrow> 'a CompletionGraph_scheme \<Rightarrow> bool"
    and C :: "'a CompletionGraph_scheme \<Rightarrow> 'a CompletionGraph_scheme \<Rightarrow> bool"
  assumes C_refl: "C g g"
    and R_refl: "R g g"
    and R_trans: "R g h \<Longrightarrow> R h i \<Longrightarrow> R g i"
    and R_order: "R g (next_order g)"
    and R_mark: "wf_graph g \<Longrightarrow> R g (upd_stage k (\<lambda>st. st\<lparr>triggered := True\<rparr>) g)"
    and on_execute: "wf_graph g \<Longrightarrow> ID st \<in> stage_keys g \<Longrightarrow> keeps C R g (lis (OnExecuteStage st rs) g)"
    and on_complete: "wf_graph g \<Longrightarrow> ID st \<in> stage_keys g \<Longrightarrow> keeps C R g (lis (OnCompleteStage st r) g)"
    and on_compose: "wf_graph g \<Longrightarrow> ID st \<in> stage_keys g \<Longrightarrow> ID st' \<in> stage_keys g \<Longrightarrow>
      keeps C R g (lis (OnComposeStage st st') g)"
    and on_finished: "wf_graph g \<Longrightarrow> state g = StateCommitted \<Longrightarrow>
      getPendingCount MainExecPhase g = 0 \<Longrightarrow> keeps C R g (lis OnGraphExecutionFinished g)"
    and on_graph_complete: "wf_graph g \<Longrightarrow> state g = StateTerminating \<Longrightarrow>
      getPendingCount TerminationExecPhase g = 0 \<Longrightarrow> keeps C R g (lis OnGraphComplete g)"
begin

lemma cut_here [simp]: "\<exists>h'. R g h' \<and> C h' g"
  using R_refl C_refl by blast

lemma keeps_step: "R g h \<Longrightarrow> keeps C R h r \<Longrightarrow> keeps C R g r"
  by (cases r) (auto intro: R_trans)

lemma keeps_bind:
  assumes "keeps C R g r" and "\<And>h. wf_graph h \<Longrightarrow> R g h \<Longrightarrow> keeps C R h (f h)"
  shows "keeps C R g (bind_res r f)"
  using assms by (cases r) (auto intro: keeps_step)

lemma keeps_fold:
  assumes "wf_graph g" and "\<And>k h. wf_graph h \<Longrightarrow> keeps C R h (f k h)"
  shows "keeps C R g (fold_res f ks g)"
  using assms(1)
proof (induction ks arbitrary: g)
  case Nil
  then show ?case by (simp add: R_refl)
next
  case (Cons k ks)
  then show ?case
    by (simp add: keeps_bind assms(2))
qed

lemma keeps_run_execution:
  assumes "wf_graph g" and "ID stage \<in> stage_keys g"
  shows "keeps C R g (run_execution x lis stage input g)"
  using assms
  by (cases x)
     (auto simp: succeedWithEmpty_def invokeWithoutArgs_def invokeWithResult_def
        invokeWithResultOrError_def completeExternally_def propagateResult_def R_refl
        on_execute on_complete split: list.splits)

lemma keeps_trigger:
  "wf_graph g \<Longrightarrow> ID stage \<in> stage_keys g \<Longrightarrow> keeps C R g (trigger status lis stage input g)"
  by (simp add: trigger_def keeps_run_execution)

lemma keeps_run_result:
  assumes "wf_graph g" and "ID stage \<in> stage_keys g"
  shows "keeps C R g (run_result x lis stage r g)"
proof -
  have "ID st \<in> stage_keys g" if "GetStage i g = Some st" for i st
    using that assms(1) wf_graph_ID GetStage_in_keys by metis
  then show ?thesis
    using assms
    by (cases x)
       (auto simp: invocationResult_def referencedStageResult_def parentStageResult_def
          noResultStrategy_def R_refl on_complete on_compose split: option.splits list.splits)
qed

lemma keeps_try_trigger:
  assumes "wf_graph g"
  shows "keeps C R g (try_trigger lis k g)"
proof (cases "GetStage k g")
  case None
  then show ?thesis by (simp add: try_trigger_def R_refl assms)
next
  case (Some stage)
  let ?h = "upd_stage k (\<lambda>st. st\<lparr>triggered := True\<rparr>) g"
  have id: "ID stage \<in> stage_keys ?h"
    using Some assms wf_graph_ID GetStage_in_keys by (metis stage_keys_simps(1))
  have "keeps C R g (trigger status lis stage input ?h)" for status input
    by (rule keeps_step [OF R_mark [OF assms, of k]]) (intro keeps_trigger wf_graph_mark assms id)
  then show ?thesis
    using Some assms
    by (auto simp: try_trigger_def requestTrigger_def R_refl split: prod.splits)
qed

lemma keeps_triggerReadyStages:
  assumes "wf_graph g"
  shows "keeps C R g (triggerReadyStages lis g)"
  unfolding triggerReadyStages_def
  by (rule keeps_step [OF R_order], rule keeps_fold)
     (simp_all add: assms keeps_try_trigger)

lemma keeps_checkForExecutionFinished:
  assumes "wf_graph g"
  shows "keeps C R g (checkForExecutionFinished lis g)"
proof -
  have p: "getPendingCount ph (next_order g) = getPendingCount ph g" for ph
    by (simp add: getPendingCount_def)
  have "keeps C R g (lis OnGraphExecutionFinished (next_order g))"
    if "state g = StateCommitted" "getPendingCount MainExecPhase g = 0"
    by (rule keeps_step [OF R_order], rule on_finished) (simp_all add: assms that p)
  moreover have "keeps C R g (lis OnGraphComplete (next_order g))"
    if "state g = StateTerminating" "getPendingCount TerminationExecPhase g = 0"
    by (rule keeps_step [OF R_order], rule on_graph_complete) (simp_all add: assms that p)
  ultimately show ?thesis
    using assms
    by (cases "state g") (simp_all add: checkForExecutionFinished_def R_refl R_order)
qed

lemma keeps_tryCompleteComposedStage:
  assumes "wf_graph g"
  shows "keeps C R g (tryCompleteComposedStage lis outer inner g)"
proof -
  have "ID st \<in> stage_keys g" if "GetStage i g = Some st" for i st
    using that assms wf_graph_ID GetStage_in_keys by metis
  then show ?thesis
    using assms
    by (auto simp: tryCompleteComposedStage_def R_refl on_complete split: option.splits)
qed

lemma keeps_fail_lost_stage:
  assumes "wf_graph g"
  shows "keeps C R g (fail_lost_stage lis k g)"
proof (cases "GetStage k g")
  case None
  then show ?thesis by (simp add: fail_lost_stage_def R_refl assms)
next
  case (Some stage)
  let ?h = "upd_stage k (\<lambda>st. st\<lparr>triggered := True\<rparr>) g"
  have id: "ID stage \<in> stage_keys ?h"
    using Some assms wf_graph_ID GetStage_in_keys by (metis stage_keys_simps(1))
  have "keeps C R g (lis (OnCompleteStage stage r) ?h)" for r
    by (rule keeps_step [OF R_mark [OF assms, of k]]) (intro on_complete wf_graph_mark assms id)
  then show ?thesis
    using Some assms
    by (auto simp: fail_lost_stage_def requestTrigger_def R_refl split: prod.splits)
qed

lemma keeps_Recover:
  assumes "wf_graph g"
  shows "keeps C R g (Recover lis g)"
  unfolding Recover_def
proof (rule keeps_bind)
  show "keeps C R g (fold_res (fail_lost_stage lis) (range_keys g) (next_order g))"
    by (rule keeps_step [OF R_order], rule keeps_fold) (simp_all add: assms keeps_fail_lost_stage)
next
  fix h :: "'a CompletionGraph_scheme"
  assume "wf_graph h"
  then show "keeps C R h (bind_res (triggerReadyStages lis h) (checkForExecutionFinished lis))"
    by (intro keeps_bind keeps_triggerReadyStages keeps_checkForExecutionFinished)
qed

lemma keeps_handleInvokeComplete:
  assumes "wf_graph g"
  shows "keeps C R g (handleInvokeComplete lis sid r g)"
proof (cases "GetStage sid g")
  case None
  then show ?thesis by (simp add: handleInvokeComplete_def R_refl assms)
next
  case (Some stage)
  moreover from this have "ID stage \<in> stage_keys g"
    using assms wf_graph_ID GetStage_in_keys by metis
  ultimately show ?thesis
    by (simp add: handleInvokeComplete_def handleResult_def keeps_run_result assms)
qed

lemma keeps_trigger_then_check:
  assumes "wf_graph g"
  shows "keeps C R g (bind_res (if b then triggerReadyStages lis g else Done g)
    (checkForExecutionFinished lis))"
  using assms
  by (intro keeps_bind keeps_checkForExecutionFinished)
     (simp_all add: keeps_triggerReadyStages R_refl)

lemma keeps_handleStageAdded:
  assumes "wf_graph g" and "op \<noteq> Op_terminationHook"
  shows "keeps C R (mutate_add sid op cl deps g) (handleStageAdded lis sid op cl deps b g)"
  using wf_graph_mutate_add [OF assms, of sid cl deps] assms(1)
  by (auto simp: handleStageAdded_def mutate_add_def GetStage_None_iff R_refl Let_def
      keeps_triggerReadyStages split: option.splits if_splits)

lemma keeps_handleStageCompleted:
  assumes "wf_graph g"
  shows "keeps C R (upd_stage sid (complete r) g) (handleStageCompleted lis sid (Some r) b g)"
proof (cases "GetStage sid g")
  case None
  then have "upd_stage sid (complete r) g = g"
    by (simp add: upd_stage_missing GetStage_None_iff)
  with None show ?thesis
    by (simp add: handleStageCompleted_def R_refl assms)
next
  case (Some node)
  let ?h = "upd_stage sid (complete r) g"
  have wf: "wf_graph ?h"
    by (rule wf_graph_complete [OF assms])
  have "keeps C R ?h (bind_res (bind_res
      (case composeReference node of
         None \<Rightarrow> Done ?h
       | Some outer \<Rightarrow> tryCompleteComposedStage lis outer sid ?h)
      (\<lambda>g. if b then triggerReadyStages lis g else Done g)) (checkForExecutionFinished lis))"
    unfolding bind_res_assoc
    by (rule keeps_bind)
       (auto simp: wf R_refl keeps_tryCompleteComposedStage keeps_trigger_then_check
          split: option.splits)
  then show ?thesis
    using Some by (simp add: handleStageCompleted_def)
qed

lemma keeps_handleStageComposed:
  assumes "wf_graph g"
  shows "keeps C R (upd_stage inner (\<lambda>st. st\<lparr>composeReference :=
      (if outer \<in> stage_keys g then Some outer else None)\<rparr>) g)
    (handleStageComposed lis outer inner g)"
proof -
  let ?h = "upd_stage inner (\<lambda>st. st\<lparr>composeReference :=
      (if outer \<in> stage_keys g then Some outer else None)\<rparr>) g"
  have eq: "(case GetStage outer g of None \<Rightarrow> None | Some _ \<Rightarrow> Some outer) =
      (if outer \<in> stage_keys g then Some outer else None)"
    by (auto simp: GetStage_None_iff dest: GetStage_in_keys split: option.splits)
  have wf: "wf_graph ?h"
    by (rule wf_graph_compose [OF assms])
  show ?thesis
  proof (cases "GetStage inner g = None")
    case True
    then have "?h = g"
      by (simp add: upd_stage_missing GetStage_None_iff)
    with True show ?thesis
      by (simp add: handleStageComposed_def R_refl assms)
  next
    case False
    then have "handleStageComposed lis outer inner g = tryCompleteComposedStage lis outer inner ?h"
      by (simp add: handleStageComposed_def eq del: not_None_eq)
    then show ?thesis
      using keeps_tryCompleteComposedStage [OF wf] by simp
  qed
qed

lemma keeps_UpdateWithEvent:
  assumes "wf_graph g" and "event_fresh e g"
  shows "keeps C R (mutate e (update_startTime e g)) (UpdateWithEvent lis e b g)"
proof -
  let ?g = "update_startTime e g"
  have wf: "wf_graph ?g" and fr: "event_fresh e ?g"
    using assms by (auto simp: update_startTime_def event_fresh_def split: prod.splits Event.splits)
  have wf': "wf_graph (mutate e ?g)"
    by (rule wf_graph_mutate [OF wf fr])
  show ?thesis
  proof (cases e)
    case (GraphCommittedEvent f ts)
    then show ?thesis
      using wf' by (simp add: UpdateWithEvent_def mutate_def handleCommitted_def
          keeps_checkForExecutionFinished)
  next
    case (GraphTerminatingEvent f fn status ts)
    then show ?thesis
      using wf' keeps_trigger_then_check [OF wf', of b]
      by (cases b) (simp_all add: UpdateWithEvent_def mutate_def handleTerminating_def Let_def)
  next
    case (StageCompletedEvent f sid r ts)
    then show ?thesis
      using wf by (cases r)
        (simp_all add: UpdateWithEvent_def mutate_def keeps_handleStageCompleted R_refl
          handleStageCompleted_def [of _ _ None])
  next
    case (StageAddedEvent f sid op cl deps ts loc caller)
    then show ?thesis
      using wf wf' by (cases "op = Op_terminationHook")
        (simp_all add: UpdateWithEvent_def mutate_def keeps_handleStageAdded R_refl
          handleAddTerminationHook_mutate)
  qed (use wf wf' in \<open>simp_all add: UpdateWithEvent_def mutate_def handleCompleted_def R_refl
          keeps_handleStageComposed keeps_handleInvokeComplete Let_def\<close>)
qed

end

end
