(* ===== verification/Persist_Mixin.thy ===== *)
theory Persist_Mixin
  imports Flow_Model
begin

text \<open>
  The persistence mixin of \<^verbatim>\<open>src/persistence/plugin.go\<close> that the graph actor and the
  supervisor embed.

  \<open>written\<close> is what the actor has stored with its provider, in order, each event with the index it
  was given. \<open>storeFault\<close> says how the coming calls of \<^verbatim>\<open>PersistEvent\<close> fail, if they do. The provider of
  \<^verbatim>\<open>src/persistence/streaming.go\<close> stores an event and then publishes it to its subscribers, so there are two
  ways: the store panics and nothing is stored, or a subscriber's callback panics when the event
  is stored already. Both fields belong to the provider, whose implementations are in the theories \<open>Event_Store\<close>
  and \<open>Subscriptions\<close>.
\<close>

datatype store_fault = StoreFails panic_reason | PublishPanics panic_reason

record Mixin =
  eventIndex :: int
  snapshotInterval :: int
  recovering :: bool
  snapshotRequested :: bool
  written :: "(int \<times> Event) list"
  storeFault :: "nat \<Rightarrow> store_fault option"

definition provider_PersistEvent :: "Event \<Rightarrow> Mixin \<Rightarrow> Mixin res" where
  "provider_PersistEvent e m =
     (let m' = m\<lparr>storeFault := (\<lambda>n. storeFault m (Suc n))\<rparr>; stored = m'\<lparr>written := written m @ [(eventIndex m, e)]\<rparr> in
      case storeFault m 0 of
        Some (StoreFails p) \<Rightarrow> Panic p m'
      | Some (PublishPanics p) \<Rightarrow> Panic p stored
      | None \<Rightarrow> Done stored)"

definition PersistReceive :: "Event \<Rightarrow> Mixin \<Rightarrow> Mixin res" where
  "PersistReceive message m =
     bind_res (provider_PersistEvent message m)
       (\<lambda>m. let m = m\<lparr>eventIndex := eventIndex m + 1\<rparr> in
            if snapshotInterval m = 0 then Panic DivideByZero m
            else if eventIndex m mod snapshotInterval m = 0
            then Done (m\<lparr>snapshotRequested := True\<rparr>)
            else Done m)"

definition isSnapshotRequested :: "Mixin \<Rightarrow> bool" where
  "isSnapshotRequested m \<longleftrightarrow> snapshotRequested m"

text \<open>The part of \<^verbatim>\<open>Mixin.init\<close> before the replay.\<close>

definition mixin_start :: "Mixin \<Rightarrow> Mixin" where
  "mixin_start m = m\<lparr>eventIndex := 0, recovering := True, snapshotRequested := False\<rparr>"

section \<open>What the mixin promises\<close>

lemma PersistReceive_cases:
  assumes "snapshotInterval m \<noteq> 0"
  obtains p ws where "storeFault m 0 \<noteq> None" and "ws = [] \<or> ws = [(eventIndex m, e)]"
      and "PersistReceive e m = Panic p (m\<lparr>written := written m @ ws, storeFault := (\<lambda>n. storeFault m (Suc n))\<rparr>)"
  | b where "storeFault m 0 = None"
      and "PersistReceive e m =
        Done (m\<lparr>eventIndex := eventIndex m + 1, snapshotRequested := b,
                written := written m @ [(eventIndex m, e)],
                storeFault := (\<lambda>n. storeFault m (Suc n))\<rparr>)"
proof (cases "storeFault m 0")
  case None
  let ?b = "if (eventIndex m + 1) mod snapshotInterval m = 0 then True else snapshotRequested m"
  have "PersistReceive e m =
        Done (m\<lparr>eventIndex := eventIndex m + 1, snapshotRequested := ?b,
                written := written m @ [(eventIndex m, e)],
                storeFault := (\<lambda>n. storeFault m (Suc n))\<rparr>)"
    using None assms by (cases m) (simp add: PersistReceive_def provider_PersistEvent_def Let_def)
  then show ?thesis
    using None that(2) by blast
next
  case (Some x)
  then show ?thesis
    using that(1) [of "[]"] that(1) [of "[(eventIndex m, e)]"]
    by (cases x) (simp_all add: PersistReceive_def provider_PersistEvent_def Let_def)
qed

text \<open>With a snapshot interval of 0 no event is ever persisted without a panic.\<close>

lemma PersistReceive_interval: "PersistReceive e m = Done m' \<Longrightarrow> snapshotInterval m \<noteq> 0"
  by (auto simp: PersistReceive_def provider_PersistEvent_def Let_def split: option.splits store_fault.splits)

end
