(* ===== verification/Graph_Actor.thy ===== *)
theory Graph_Actor
  imports Completion_Graph Persist_Mixin
begin

text \<open>
  The graph actor of \<^verbatim>\<open>src/actor/graph.go\<close>: it validates commands, writes events to its
  journal before it applies them to its graph, and is the graph's event listener.
\<close>

section \<open>State\<close>

text \<open>What the actor does to its surroundings, in order.\<close>

datatype Timeout = CommitTimeout | CompletionTimeout | ReadTimeout

record StageRepresentation =
  RepType :: string
  RepStatus :: string
  RepDependencies :: "stage_id list"

datatype Response =
    CreateGraphResponse (RespFlowId: flow_id)
  | AddStageResponse flow_id stage_id
  | CompleteStageExternallyResponse flow_id stage_id bool
  | GraphRequestProcessedResponse flow_id
  | GetGraphStateResponse flow_id function_id "(stage_id \<times> StageRepresentation) list"
  | AwaitStageResultResponse flow_id stage_id CompletionResult
  | ErrorResponse error

datatype Effect =
    InvokeStageRequest function_id flow_id stage_id "CompletionResult list" "BlobDatum option"
  | InvokeFunctionRequest flow_id stage_id function_id "HTTPReqDatum option"
  | Respond Response
  | TellParent Command
  | TellSelf Command
  | TellSelfAfter int Command
  | SetReceiveTimeout Timeout
  | AwaitFuture flow_id stage_id
  | GracefulStop

text \<open>
  \<open>hasGraph\<close> is \<^verbatim>\<open>g.graph != nil\<close>; the graph's fields mean nothing while it is
  false. \<open>clock\<close> lists the coming readings of the clock in nanoseconds.
\<close>

record graphActor = CompletionGraph +
  hasGraph :: bool
  mixin :: Mixin
  clock :: "nat \<Rightarrow> int"
  outbox :: "Effect list"

definition tick :: "graphActor \<Rightarrow> graphActor" where
  "tick s = s\<lparr>clock := (\<lambda>n. clock s (Suc n))\<rparr>"

definition send :: "Effect \<Rightarrow> graphActor \<Rightarrow> graphActor" where
  "send x s = s\<lparr>outbox := outbox s @ [x]\<rparr>"

definition currentTimestamp :: "graphActor \<Rightarrow> Timestamp option" where
  "currentTimestamp s = Some (timestamp_of (clock s 0))"

definition timeMillis :: "graphActor \<Rightarrow> int" where
  "timeMillis s = quot (clock s 0) 1000000"

definition actor_PersistReceive :: "Event \<Rightarrow> graphActor \<Rightarrow> graphActor res" where
  "actor_PersistReceive e s =
     (case PersistReceive e (mixin s) of
        Done m \<Rightarrow> Done (s\<lparr>mixin := m\<rparr>)
      | Panic p m \<Rightarrow> Panic p (s\<lparr>mixin := m\<rparr>)
      | NoFuel \<Rightarrow> NoFuel)"

section \<open>Applying events\<close>

text \<open>
  \<^verbatim>\<open>persistAndUpdateGraph\<close> with the listener the graph calls back. The event is built
  from a reading of the clock, as all its callers do.
\<close>

definition persistAndUpdateGraph ::
  "graphActor CompletionEventListener \<Rightarrow> (Timestamp option \<Rightarrow> Event) \<Rightarrow>
   graphActor \<Rightarrow> graphActor res" where
  "persistAndUpdateGraph lis mk s0 =
     (let event = mk (currentTimestamp s0); s = tick s0 in
      if \<not> hasGraph s then Done s
      else bind_res (actor_PersistReceive event s)
             (\<lambda>s. UpdateWithEvent lis event (\<not> recovering (mixin s)) s))"

definition actor_OnExecuteStage ::
  "CompletionStage \<Rightarrow> CompletionResult list \<Rightarrow> graphActor \<Rightarrow> graphActor res" where
  "actor_OnExecuteStage stage results s =
     bind_res
       (actor_PersistReceive
          (FaasInvocationStartedEvent (GraphID s) (ID stage) (currentTimestamp s) (FunctionID s))
          (tick s))
       (\<lambda>s. Done (send (InvokeStageRequest (FunctionID s) (GraphID s) (ID stage) results
                          (closure stage)) s))"

definition actor_OnCompleteStage ::
  "graphActor CompletionEventListener \<Rightarrow>
   CompletionStage \<Rightarrow> CompletionResult option \<Rightarrow> graphActor \<Rightarrow> graphActor res" where
  "actor_OnCompleteStage lis stage res s =
     persistAndUpdateGraph lis (StageCompletedEvent (GraphID s) (ID stage) res) s"

definition actor_OnComposeStage ::
  "graphActor CompletionEventListener \<Rightarrow>
   CompletionStage \<Rightarrow> CompletionStage \<Rightarrow> graphActor \<Rightarrow> graphActor res" where
  "actor_OnComposeStage lis stage composedStage s =
     persistAndUpdateGraph lis (StageComposedEvent (GraphID s) (ID stage) (ID composedStage)) s"

definition actor_OnGraphExecutionFinished ::
  "graphActor CompletionEventListener \<Rightarrow> graphActor \<Rightarrow> graphActor res" where
  "actor_OnGraphExecutionFinished lis s =
     (if recovering (mixin s) then Done s
      else persistAndUpdateGraph lis
             (GraphTerminatingEvent (GraphID s) (FunctionID s) Status_succeeded) s)"

definition actor_OnGraphComplete ::
  "graphActor CompletionEventListener \<Rightarrow> graphActor \<Rightarrow> graphActor res" where
  "actor_OnGraphComplete lis s =
     (if recovering (mixin s) then Done s
      else bind_res
             (persistAndUpdateGraph lis (GraphCompletedEvent (GraphID s) (FunctionID s)) s)
             (\<lambda>s. Done (send (TellSelf (DeactivateGraphRequest (GraphID s))) s)))"

text \<open>
  The actor as a listener. Its methods call back into the graph with itself as the
  listener; the fuel bounds the depth of these nested calls, and \<open>call_depth\<close> is enough
  of it for every call the actor makes.
\<close>

fun actorListener :: "nat \<Rightarrow> graphActor CompletionEventListener" where
  "actorListener 0 call s = NoFuel"
| "actorListener (Suc n) (OnExecuteStage stage results) s = actor_OnExecuteStage stage results s"
| "actorListener (Suc n) (OnCompleteStage stage res) s =
     actor_OnCompleteStage (actorListener n) stage res s"
| "actorListener (Suc n) (OnComposeStage stage composedStage) s =
     actor_OnComposeStage (actorListener n) stage composedStage s"
| "actorListener (Suc n) OnGraphExecutionFinished s =
     actor_OnGraphExecutionFinished (actorListener n) s"
| "actorListener (Suc n) OnGraphComplete s = actor_OnGraphComplete (actorListener n) s"

definition call_depth :: "graphActor \<Rightarrow> nat" where
  "call_depth s = 2 * length (stages s) + 10"

definition emit :: "(Timestamp option \<Rightarrow> Event) \<Rightarrow> graphActor \<Rightarrow> graphActor res" where
  "emit mk s = persistAndUpdateGraph (actorListener (call_depth s)) mk s"

section \<open>Delays and queries\<close>

definition scheduleDelay :: "flow_id \<Rightarrow> stage_id \<Rightarrow> int \<Rightarrow> graphActor \<Rightarrow> graphActor" where
  "scheduleDelay flowId stageId timeMs s0 =
     (let delayMs = int64 (timeMs - timeMillis s0); s = tick s0;
          delayReq = CompleteDelayStageRequest flowId stageId (Some NewEmptyResult)
      in if delayMs > 0 then send (TellSelfAfter delayMs delayReq) s
         else send (TellSelf delayReq) s)"

definition stage_status :: "CompletionStage \<Rightarrow> string" where
  "stage_status s =
     (if IsFailed s then ''failed''
      else if IsSuccessful s then ''successful''
      else if IsTriggered s then ''running''
      else ''pending'')"

definition stage_representation ::
  "'a CompletionGraph_scheme \<Rightarrow> CompletionStage \<Rightarrow> StageRepresentation" where
  "stage_representation g s =
     \<lparr>RepType = CompletionOperation_name (operation s), RepStatus = stage_status s,
      RepDependencies = map (dep_id g) (dependencies s)\<rparr>"

definition createExternalState :: "'a CompletionGraph_scheme \<Rightarrow> Response" where
  "createExternalState g =
     GetGraphStateResponse (GraphID g) (FunctionID g)
       (map (\<lambda>s. (ID s, stage_representation g s)) (GetStages g))"

section \<open>Commands\<close>

definition initGraph :: "flow_id \<Rightarrow> function_id \<Rightarrow> graphActor \<Rightarrow> graphActor" where
  "initGraph flowId functionId s =
     (graph_New flowId functionId (clock s 0) (mapOrder s)
        (CompletionGraph.more (tick s)))\<lparr>hasGraph := True\<rparr>"

text \<open>\<^verbatim>\<open>validateCmd\<close>: whether the command may be processed, and the state with the error
  response sent if it may not; a panic of the validation is a panic of the actor.\<close>

definition validateCmd :: "Command \<Rightarrow> graphActor \<Rightarrow> (graphActor \<Rightarrow> graphActor res) \<Rightarrow> graphActor res" where
  "validateCmd cmd s process =
     (case cmd of
        CreateGraphRequest f fn \<Rightarrow>
          if hasGraph s then Done (send (Respond (ErrorResponse (NewGraphAlreadyExistsError f))) s)
          else process s
      | _ \<Rightarrow>
          if \<not> hasGraph s
          then Done (send (Respond (ErrorResponse (NewGraphNotFoundError (CmdFlowId cmd)))) s)
          else (case ValidateCommand cmd s of
                  Valid \<Rightarrow> process s
                | Invalid err \<Rightarrow> Done (send (Respond (ErrorResponse err)) s)
                | ValidationPanic p \<Rightarrow> Panic p s))"

text \<open>The branches of \<^verbatim>\<open>receiveCommand\<close> that add a stage.\<close>

definition cmd_AddStage ::
  "flow_id \<Rightarrow> CompletionOperation \<Rightarrow> BlobDatum option \<Rightarrow> stage_id list \<Rightarrow> string \<Rightarrow> string \<Rightarrow>
   graphActor \<Rightarrow> graphActor res" where
  "cmd_AddStage f op cl deps loc caller s =
     (let stageID = NextStageID s in
      bind_res (emit (\<lambda>ts. StageAddedEvent f stageID op cl deps ts loc caller) s)
        (\<lambda>s. Done (send (Respond (AddStageResponse f stageID)) s)))"

definition cmd_AddCompletedValueStage ::
  "flow_id \<Rightarrow> CompletionResult option \<Rightarrow> string \<Rightarrow> string \<Rightarrow> graphActor \<Rightarrow> graphActor res" where
  "cmd_AddCompletedValueStage f v loc caller s =
     (let stageID = NextStageID s in
      bind_res (emit (\<lambda>ts. StageAddedEvent f stageID Op_completedValue None [] ts loc caller) s)
        (\<lambda>s. bind_res (emit (StageCompletedEvent f stageID v) s)
          (\<lambda>s. Done (send (Respond (AddStageResponse f stageID)) s))))"

definition cmd_AddDelayStage ::
  "flow_id \<Rightarrow> int \<Rightarrow> string \<Rightarrow> string \<Rightarrow> graphActor \<Rightarrow> graphActor res" where
  "cmd_AddDelayStage f ms loc caller s =
     (let stageID = NextStageID s in
      bind_res (emit (\<lambda>ts. StageAddedEvent f stageID Op_delay None [] ts loc caller) s)
        (\<lambda>s. let timeMs = int64 (timeMillis s + ms); s = tick s;
                 delayEvent = DelayScheduledEvent f stageID timeMs (currentTimestamp s)
             in bind_res (actor_PersistReceive delayEvent (tick s))
                  (\<lambda>s. Done (send (Respond (AddStageResponse f stageID))
                          (scheduleDelay f stageID timeMs s)))))"

definition cmd_AddInvokeFunctionStage ::
  "flow_id \<Rightarrow> function_id \<Rightarrow> HTTPReqDatum option \<Rightarrow> string \<Rightarrow> string \<Rightarrow>
   graphActor \<Rightarrow> graphActor res" where
  "cmd_AddInvokeFunctionStage f fn arg loc caller s =
     (let stageID = NextStageID s in
      bind_res (emit (\<lambda>ts. StageAddedEvent f stageID Op_invokeFunction None [] ts loc caller) s)
        (\<lambda>s. bind_res
          (actor_PersistReceive (FaasInvocationStartedEvent f stageID (currentTimestamp s) fn) (tick s))
          (\<lambda>s. Done (send (Respond (AddStageResponse f stageID))
                  (send (InvokeFunctionRequest f stageID fn arg) s)))))"

definition cmd_CompleteStageExternally ::
  "flow_id \<Rightarrow> stage_id \<Rightarrow> CompletionResult option \<Rightarrow> graphActor \<Rightarrow> graphActor res" where
  "cmd_CompleteStageExternally f sid v s =
     (case GetStage sid s of
        None \<Rightarrow> Panic NilDereference s
      | Some stage \<Rightarrow>
          (let completable = \<not> IsResolved stage in
           bind_res (if completable then emit (StageCompletedEvent f sid v) s else Done s)
             (\<lambda>s. Done (send (Respond (CompleteStageExternallyResponse f sid completable)) s))))"

definition cmd_CommitGraph :: "flow_id \<Rightarrow> graphActor \<Rightarrow> graphActor res" where
  "cmd_CommitGraph f s =
     (if IsCommitted s then Done (send (Respond (GraphRequestProcessedResponse f)) s)
      else bind_res (emit (GraphCommittedEvent f) s)
             (\<lambda>s. Done (send (Respond (GraphRequestProcessedResponse f))
                     (send (SetReceiveTimeout CompletionTimeout) s))))"

definition cmd_CompleteDelayStage ::
  "flow_id \<Rightarrow> stage_id \<Rightarrow> CompletionResult option \<Rightarrow> graphActor \<Rightarrow> graphActor res" where
  "cmd_CompleteDelayStage f sid r s =
     (if (case GetStage sid s of None \<Rightarrow> False | Some stage \<Rightarrow> IsResolved stage) then Done s
      else emit (StageCompletedEvent f sid r) s)"

definition cmd_CreateGraph :: "flow_id \<Rightarrow> function_id \<Rightarrow> graphActor \<Rightarrow> graphActor res" where
  "cmd_CreateGraph f fn s =
     bind_res (actor_PersistReceive (GraphCreatedEvent f fn (currentTimestamp s)) (tick s))
       (\<lambda>s. Done (send (Respond (CreateGraphResponse f)) (initGraph f fn s)))"

definition process_cmd :: "Command \<Rightarrow> graphActor \<Rightarrow> graphActor res" where
  "process_cmd cmd s =
     (case cmd of
        CreateGraphRequest f fn \<Rightarrow> cmd_CreateGraph f fn s
      | GetGraphStateRequest f \<Rightarrow> Done (send (Respond (createExternalState s)) (next_order s))
      | AddStageRequest f op cl deps loc caller \<Rightarrow> cmd_AddStage f op cl deps loc caller s
      | AddCompletedValueStageRequest f v loc caller \<Rightarrow> cmd_AddCompletedValueStage f v loc caller s
      | AddDelayStageRequest f ms loc caller \<Rightarrow> cmd_AddDelayStage f ms loc caller s
      | AddInvokeFunctionStageRequest f fn arg loc caller \<Rightarrow>
          cmd_AddInvokeFunctionStage f fn arg loc caller s
      | CompleteStageExternallyRequest f sid v loc caller \<Rightarrow> cmd_CompleteStageExternally f sid v s
      | CommitGraphRequest f \<Rightarrow> cmd_CommitGraph f s
      | AwaitStageResultRequest f sid timeout \<Rightarrow>
          (case GetStage sid s of
             None \<Rightarrow> Panic NilDereference s
           | Some stage \<Rightarrow> Done (send (AwaitFuture f sid) s))
      | CompleteDelayStageRequest f sid r \<Rightarrow> cmd_CompleteDelayStage f sid r s
      | FaasInvocationResponse f sid fn r call \<Rightarrow>
          emit (\<lambda>ts. FaasInvocationCompletedEvent f sid r ts call) s
      | DeactivateGraphRequest f \<Rightarrow> Done (send (TellParent (DeactivateGraphRequest f)) s)
      | OtherCommand f \<Rightarrow> Done s)"

definition receiveCommand :: "Command \<Rightarrow> graphActor \<Rightarrow> graphActor res" where
  "receiveCommand cmd s = validateCmd cmd s (process_cmd cmd)"

text \<open>The continuation given to \<^verbatim>\<open>context.AwaitFuture\<close>.\<close>

definition await_continuation ::
  "flow_id \<Rightarrow> stage_id \<Rightarrow> CompletionResult option \<Rightarrow> graphActor \<Rightarrow> graphActor" where
  "await_continuation f sid r s =
     (case r of
        None \<Rightarrow> send (Respond (ErrorResponse (NewAwaitStageError f sid))) s
      | Some v \<Rightarrow> send (Respond (AwaitStageResultResponse f sid v)) s)"

section \<open>Other messages, replay\<close>

datatype SysMessage = RequestSnapshot | Started | ReceiveTimeout | ReplayComplete | UnknownMessage

definition receiveMessage :: "SysMessage \<Rightarrow> graphActor \<Rightarrow> graphActor res" where
  "receiveMessage msg s =
     (case msg of
        RequestSnapshot \<Rightarrow> Done s
      | Started \<Rightarrow> Done (send (SetReceiveTimeout CommitTimeout) s)
      | ReceiveTimeout \<Rightarrow>
          if hasGraph s then Done (send (TellParent (DeactivateGraphRequest (GraphID s))) s)
          else Done (send GracefulStop s)
      | ReplayComplete \<Rightarrow>
          if hasGraph s
          then bind_res (Recover (actorListener (call_depth s)) s)
                 (\<lambda>s. if IsCompleted s then Done (send (SetReceiveTimeout ReadTimeout) s)
                      else Done (send (SetReceiveTimeout CompletionTimeout) s))
          else Done s
      | UnknownMessage \<Rightarrow> Done s)"

definition receiveEvent :: "Event \<Rightarrow> graphActor \<Rightarrow> graphActor res" where
  "receiveEvent event s =
     (case event of
        GraphCreatedEvent f fn ts \<Rightarrow> Done (initGraph f fn s)
      | DelayScheduledEvent f sid timeMs ts \<Rightarrow> Done (scheduleDelay f sid timeMs s)
      | _ \<Rightarrow>
          if \<not> hasGraph s
          then Panic (PanicMessage ''Trying to replay event but graph is not initialized'') s
          else UpdateWithEvent (actorListener (call_depth s)) event False s)"

datatype Message = MsgEvent Event | MsgCommand Command | MsgSystem SysMessage

definition Receive :: "Message \<Rightarrow> graphActor \<Rightarrow> graphActor res" where
  "Receive msg s =
     (if recovering (mixin s)
      then (case msg of MsgEvent e \<Rightarrow> receiveEvent e s | _ \<Rightarrow> Done s)
      else (case msg of
              MsgCommand c \<Rightarrow> receiveCommand c s
            | MsgSystem m \<Rightarrow> receiveMessage m s
            | MsgEvent e \<Rightarrow> receiveCommand (OtherCommand (EvtFlowId e)) s))"

text \<open>\<^verbatim>\<open>Mixin.init\<close> for the graph actor, given the stored events and their indices; the
  actor never writes a snapshot.\<close>

definition replay_one :: "int \<times> Event \<Rightarrow> graphActor \<Rightarrow> graphActor res" where
  "replay_one ie s =
     (case ie of (index, e) \<Rightarrow>
        bind_res (Receive (MsgEvent e) s)
          (\<lambda>s. Done (s\<lparr>mixin := (mixin s)\<lparr>eventIndex := index + 1\<rparr>\<rparr>)))"

definition mixin_init :: "(int \<times> Event) list \<Rightarrow> graphActor \<Rightarrow> graphActor res" where
  "mixin_init events s =
     bind_res (fold_res replay_one events (s\<lparr>mixin := mixin_start (mixin s)\<rparr>))
       (\<lambda>s. Receive (MsgSystem ReplayComplete) (s\<lparr>mixin := (mixin s)\<lparr>recovering := False\<rparr>\<rparr>))"

end
