(* ===== verification/Actor_Journal.thy ===== *)
theory Actor_Journal
  imports Flow_Spec Listener_Contract Graph_Actor
begin

text \<open>
  The graph actor implements the machine of \<open>Flow_Spec\<close>: whatever it does to its graph is
  the effect of the events it has written to its journal, in the order in which it wrote
  them, each of them legal when it was written. The actor as a listener meets the contract
  of \<open>Listener_Contract\<close>, at every depth of nested calls.
\<close>

section \<open>The graph of an actor\<close>

lemma graph_of_cong:
  fixes g :: "'a CompletionGraph_scheme" and h :: "'b CompletionGraph_scheme"
  assumes "stages g = stages h" and "terminationChainHead g = terminationChainHead h"
  shows "wf_graph g = wf_graph h" and "GetStage k g = GetStage k h" and "stage_keys g = stage_keys h"
  using assms by (simp_all add: wf_graph_iff GetStage_def stage_keys_def)

lemma actor_field_simps [simp]:
  "wf_graph (s\<lparr>mixin := m\<rparr>) = wf_graph s"
  "wf_graph (s\<lparr>outbox := x\<rparr>) = wf_graph s"
  "wf_graph (s\<lparr>clock := c\<rparr>) = wf_graph s"
  "GetStage k (s\<lparr>mixin := m\<rparr>) = GetStage k s"
  "GetStage k (s\<lparr>outbox := x\<rparr>) = GetStage k s"
  "GetStage k (s\<lparr>clock := c\<rparr>) = GetStage k s"
  "stage_keys (s\<lparr>mixin := m\<rparr>) = stage_keys s"
  "stage_keys (s\<lparr>outbox := x\<rparr>) = stage_keys s"
  "stage_keys (s\<lparr>clock := c\<rparr>) = stage_keys s"
  "view (s\<lparr>mixin := m\<rparr>) = view s"
  "view (s\<lparr>outbox := x\<rparr>) = view s"
  "view (s\<lparr>clock := c\<rparr>) = view s"
  by (simp_all add: wf_graph_iff GetStage_def stage_keys_def view_def)

lemma dep_result_cong:
  "stages g = stages h \<Longrightarrow> terminationRoot g = terminationRoot h \<Longrightarrow> dep_result g d = dep_result h d"
  by (simp add: dep_result_def GetStage_def split: StageDependency.splits)

lemma tick_simps [simp]:
  "wf_graph (tick s) = wf_graph s" "GetStage k (tick s) = GetStage k s"
  "stage_keys (tick s) = stage_keys s" "view (tick s) = view s"
  "mixin (tick s) = mixin s" "hasGraph (tick s) = hasGraph s" "outbox (tick s) = outbox s"
  "stages (tick s) = stages s" "state (tick s) = state s" "GraphID (tick s) = GraphID s"
  "FunctionID (tick s) = FunctionID s" "terminationRoot (tick s) = terminationRoot s"
  by (simp_all add: tick_def)

lemma send_simps [simp]:
  "wf_graph (send x s) = wf_graph s" "GetStage k (send x s) = GetStage k s"
  "stage_keys (send x s) = stage_keys s" "view (send x s) = view s"
  "mixin (send x s) = mixin s" "hasGraph (send x s) = hasGraph s"
  "stages (send x s) = stages s" "state (send x s) = state s" "clock (send x s) = clock s"
  "GraphID (send x s) = GraphID s" "FunctionID (send x s) = FunctionID s"
  "outbox (send x s) = outbox s @ [x]"
  by (simp_all add: send_def)

lemma more_simps [simp]:
  "CompletionGraph.more (mutate e g) = CompletionGraph.more g"
  "CompletionGraph.more (update_startTime e g) = CompletionGraph.more g"
  "CompletionGraph.more (upd_stage k f g) = CompletionGraph.more g"
  "CompletionGraph.more (next_order g) = CompletionGraph.more g"
  by (auto simp: mutate_def mutate_add_def mutate_hook_def update_startTime_def Let_def
      split: Event.splits option.splits prod.splits)

lemma actor_of_more:
  fixes s t :: graphActor
  assumes "CompletionGraph.more s = CompletionGraph.more t"
  shows "mixin s = mixin t" and "hasGraph s = hasGraph t" and "clock s = clock t" and "outbox s = outbox t"
  using assms by (cases s; cases t; simp)+

lemma actor_part_simps [simp]:
  fixes s :: graphActor
  shows "mixin (mutate e s) = mixin s" "hasGraph (mutate e s) = hasGraph s"
    "mixin (update_startTime e s) = mixin s" "hasGraph (update_startTime e s) = hasGraph s"
    "mixin (upd_stage k f s) = mixin s" "hasGraph (upd_stage k f s) = hasGraph s"
    "mixin (next_order s) = mixin s" "hasGraph (next_order s) = hasGraph s"
    "outbox (mutate e s) = outbox s" "outbox (update_startTime e s) = outbox s"
    "outbox (upd_stage k f s) = outbox s" "outbox (next_order s) = outbox s"
  by (rule actor_of_more, simp)+

lemma event_fresh_cong: "stage_keys g = stage_keys h \<Longrightarrow> event_fresh e g = event_fresh e h"
  by (cases e) (simp_all add: event_fresh_def)

lemma not_added_fresh: "\<not> is_StageAddedEvent e \<Longrightarrow> event_fresh e g"
  by (cases e) (simp_all add: event_fresh_def)

lemma callback_fresh: "is_callback e \<Longrightarrow> event_fresh e g"
  by (rule not_added_fresh) (cases e; simp)

section \<open>The journal relation\<close>

text \<open>An actor that has a graph and a working snapshot interval.\<close>

definition ready :: "graphActor \<Rightarrow> bool" where
  "ready s \<longleftrightarrow> hasGraph s \<and> snapshotInterval (mixin s) \<noteq> 0"

definition journal :: "graphActor \<Rightarrow> Event list" where
  "journal s = map snd (written (mixin s))"

text \<open>A store that does not fail.\<close>

definition reliable :: "Mixin \<Rightarrow> bool" where
  "reliable m \<longleftrightarrow> (\<forall>n. storeFault m n = None)"

definition journals :: "(Event \<Rightarrow> bool) \<Rightarrow> graphActor \<Rightarrow> graphActor \<Rightarrow> bool" where
  "journals P s t \<longleftrightarrow>
     (ready s \<longrightarrow>
        ready t \<and> recovering (mixin t) = recovering (mixin s) \<and>
        snapshotInterval (mixin t) = snapshotInterval (mixin s) \<and>
        (reliable (mixin s) \<longrightarrow> reliable (mixin t)) \<and>
        (\<exists>es. flow_run (view s) es (view t) \<and> list_all P es \<and>
           written (mixin t) =
             written (mixin s) @ zip (map (\<lambda>i. eventIndex (mixin s) + int i) [0..<length es]) es \<and>
           eventIndex (mixin t) = eventIndex (mixin s) + int (length es)))"

lemma journals_same:
  assumes "view t = view s" and "hasGraph t = hasGraph s"
    and "written (mixin t) = written (mixin s)" and "eventIndex (mixin t) = eventIndex (mixin s)"
    and "recovering (mixin t) = recovering (mixin s)"
    and "snapshotInterval (mixin t) = snapshotInterval (mixin s)"
    and "reliable (mixin s) \<Longrightarrow> reliable (mixin t)"
  shows "journals P s t"
  using assms by (auto simp: journals_def ready_def intro!: exI [of _ "[]"])

lemma journals_refl: "journals P s s"
  by (rule journals_same) simp_all

lemma zip_index_append:
  "zip (map (\<lambda>k. i + int k) [0..<length es]) es @
     zip (map (\<lambda>k. i + int (length es) + int k) [0..<length es']) es' =
   zip (map (\<lambda>k. i + int k) [0..<length (es @ es')]) (es @ es')"
proof -
  have "[0..<length (es @ es')] = [0..<length es] @ map (\<lambda>k. length es + k) [0..<length es']"
    by (simp add: upt_add_eq_append [of 0 "length es" "length es'"] map_add_upt add.commute)
  then show ?thesis
    by (simp add: zip_append comp_def add.assoc)
qed

lemma journals_trans:
  assumes "journals P s t" and "journals P t u"
  shows "journals P s u"
proof -
  have ?thesis if "ready s"
  proof -
    from that assms(1) obtain es where t: "ready t" "recovering (mixin t) = recovering (mixin s)"
        "snapshotInterval (mixin t) = snapshotInterval (mixin s)"
        "reliable (mixin s) \<longrightarrow> reliable (mixin t)"
        "flow_run (view s) es (view t)" "list_all P es"
        "written (mixin t) =
           written (mixin s) @ zip (map (\<lambda>i. eventIndex (mixin s) + int i) [0..<length es]) es"
        "eventIndex (mixin t) = eventIndex (mixin s) + int (length es)"
      by (auto simp: journals_def)
    from t(1) assms(2) obtain es' where u: "ready u" "recovering (mixin u) = recovering (mixin t)"
        "snapshotInterval (mixin u) = snapshotInterval (mixin t)"
        "reliable (mixin t) \<longrightarrow> reliable (mixin u)"
        "flow_run (view t) es' (view u)" "list_all P es'"
        "written (mixin u) =
           written (mixin t) @ zip (map (\<lambda>i. eventIndex (mixin t) + int i) [0..<length es']) es'"
        "eventIndex (mixin u) = eventIndex (mixin t) + int (length es')"
      by (auto simp: journals_def)
    show ?thesis
      unfolding journals_def
      using t u flow_run_append [OF u(5) t(5)] zip_index_append [of "eventIndex (mixin s)" es es']
      by (auto intro!: exI [of _ "es @ es'"])
  qed
  then show ?thesis
    by (auto simp: journals_def)
qed

lemma journals_mono: "journals P s t \<Longrightarrow> (\<And>e. P e \<Longrightarrow> Q e) \<Longrightarrow> journals Q s t"
  by (auto simp: journals_def list_all_iff)

text \<open>A panic in the middle of \<^verbatim>\<open>PersistEvent\<close>: the event may be stored already.\<close>

definition torn :: "graphActor \<Rightarrow> graphActor \<Rightarrow> bool" where
  "torn s t \<longleftrightarrow>
     (\<exists>ws faults. (ws = [] \<or> (\<exists>e. ws = [(eventIndex (mixin s), e)])) \<and>
        t = s\<lparr>mixin := (mixin s)\<lparr>written := written (mixin s) @ ws, storeFault := faults\<rparr>\<rparr>)"

lemma torn_refl [simp]: "torn s s"
  unfolding torn_def by (intro exI [of _ "[]"] exI [of _ "storeFault (mixin s)"]) simp

lemma torn_here [simp]: "\<exists>t. journals P s t \<and> torn t s" "\<exists>t. torn t s"
  using journals_refl torn_refl by blast+

lemma keeps_trans: "journals P s t \<Longrightarrow> keeps torn (journals P) t r \<Longrightarrow> keeps torn (journals P) s r"
  by (cases r) (auto intro: journals_trans)

lemma keeps_mono: "keeps torn (journals P) s r \<Longrightarrow> (\<And>e. P e \<Longrightarrow> Q e) \<Longrightarrow> keeps torn (journals Q) s r"
  by (cases r) (auto intro: journals_mono)

text \<open>Writing an event and making its change.\<close>

lemma journals_write:
  assumes "legal e s" and "P e" and "view t = flow_step e (view s)"
    and "hasGraph t = hasGraph s"
    and "written (mixin t) = written (mixin s) @ [(eventIndex (mixin s), e)]"
    and "eventIndex (mixin t) = eventIndex (mixin s) + 1"
    and "recovering (mixin t) = recovering (mixin s)"
    and "snapshotInterval (mixin t) = snapshotInterval (mixin s)"
    and "reliable (mixin s) \<Longrightarrow> reliable (mixin t)"
  shows "journals P s t"
proof -
  have "flow_run (view s) [e] (view t)"
    using flow_run_single [of e "view s"] assms(1,3) by simp
  then show ?thesis
    using assms(2-) by (auto simp: journals_def ready_def intro!: exI [of _ "[e]"])
qed

section \<open>Writing events\<close>

lemma actor_PersistReceive_cases:
  assumes "snapshotInterval (mixin s) \<noteq> 0"
  obtains p m where "actor_PersistReceive e s = Panic p (s\<lparr>mixin := m\<rparr>)" "torn s (s\<lparr>mixin := m\<rparr>)"
      "\<not> reliable (mixin s)"
  | m where "actor_PersistReceive e s = Done (s\<lparr>mixin := m\<rparr>)"
      "reliable (mixin s) \<Longrightarrow> reliable m"
      "written m = written (mixin s) @ [(eventIndex (mixin s), e)]"
      "eventIndex m = eventIndex (mixin s) + 1"
      "recovering m = recovering (mixin s)" "snapshotInterval m = snapshotInterval (mixin s)"
proof (rule PersistReceive_cases [OF assms, of e])
  fix p ws
  assume *: "storeFault (mixin s) 0 \<noteq> None" "ws = [] \<or> ws = [(eventIndex (mixin s), e)]"
    and "PersistReceive e (mixin s) =
      Panic p ((mixin s)\<lparr>written := written (mixin s) @ ws, storeFault := \<lambda>n. storeFault (mixin s) (Suc n)\<rparr>)"
  moreover have "\<not> reliable (mixin s)"
    using *(1) by (auto simp: reliable_def)
  ultimately show thesis
    by (intro that(1) [of p "(mixin s)\<lparr>written := written (mixin s) @ ws, storeFault := \<lambda>n. storeFault (mixin s) (Suc n)\<rparr>"])
       (auto simp: actor_PersistReceive_def torn_def)
next
  fix b
  assume "PersistReceive e (mixin s) =
      Done ((mixin s)\<lparr>eventIndex := eventIndex (mixin s) + 1, snapshotRequested := b,
        written := written (mixin s) @ [(eventIndex (mixin s), e)],
        storeFault := \<lambda>n. storeFault (mixin s) (Suc n)\<rparr>)"
  then show thesis
    by (intro that(2) [of "(mixin s)\<lparr>eventIndex := eventIndex (mixin s) + 1, snapshotRequested := b,
        written := written (mixin s) @ [(eventIndex (mixin s), e)],
        storeFault := \<lambda>n. storeFault (mixin s) (Suc n)\<rparr>"])
       (simp_all add: actor_PersistReceive_def reliable_def)
qed

lemma actor_PersistReceive_graph:
  "res_all (\<lambda>t. \<exists>m. t = s\<lparr>mixin := m\<rparr>) (actor_PersistReceive e s)"
  by (auto simp: actor_PersistReceive_def split: res.splits)

lemma actor_PersistReceive_returns [simp]: "actor_PersistReceive e s \<noteq> NoFuel"
  by (auto simp: actor_PersistReceive_def PersistReceive_def provider_PersistEvent_def Let_def
      split: option.splits store_fault.splits)

lemma actor_PersistReceive_interval: "actor_PersistReceive e s = Done t \<Longrightarrow> snapshotInterval (mixin s) \<noteq> 0"
  using PersistReceive_interval by (auto simp: actor_PersistReceive_def split: res.splits)

lemma keeps_actor_PersistReceive:
  assumes "wf_graph s" and "legal e s" and "P e" and "flow_step e (view s) = view s"
  shows "keeps torn (journals P) s (actor_PersistReceive e s)"
proof (cases "snapshotInterval (mixin s) = 0")
  case True
  then have "\<not> ready s"
    by (simp add: ready_def)
  then show ?thesis
    using actor_PersistReceive_graph [of s e] assms(1)
    by (cases "actor_PersistReceive e s") (auto simp: journals_def)
next
  case False
  then show ?thesis
    by (cases rule: actor_PersistReceive_cases [of s e])
       (use assms in \<open>auto intro: journals_same journals_write [of e]\<close>)
qed

lemma keeps_actor_OnExecuteStage:
  assumes "wf_graph s"
  shows "keeps torn (journals is_callback) s (actor_OnExecuteStage stage rs s)"
proof -
  let ?e = "FaasInvocationStartedEvent (GraphID s) (ID stage) (currentTimestamp s) (FunctionID s)"
  have "keeps torn (journals is_callback) (tick s) (actor_PersistReceive ?e (tick s))"
    by (rule keeps_actor_PersistReceive)
       (simp_all add: assms legal_def flow_step_def mutate_def)
  moreover have "journals is_callback s (tick s)"
    by (rule journals_same) simp_all
  moreover have "journals is_callback t (send x t)" for t x
    by (rule journals_same) simp_all
  ultimately show ?thesis
    unfolding actor_OnExecuteStage_def
    by (cases "actor_PersistReceive ?e (tick s)") (auto intro: journals_trans)
qed

text \<open>The heart of the refinement: an event is written, its change is made, and what the change
  sets off is again a run.\<close>

lemma keeps_persistAndUpdateGraph:
  assumes lis: "listener_contract lis (journals Q) torn" and QP: "\<And>e. Q e \<Longrightarrow> P e" and wf: "wf_graph s"
    and e: "\<And>ts. event_fresh (mk ts) s" "\<And>ts. legal (mk ts) s" "\<And>ts. P (mk ts)"
  shows "keeps torn (journals P) s (persistAndUpdateGraph lis mk s)"
proof (cases "ready s")
  case False
  have j: "journals P s t" for t
    using False by (simp add: journals_def)
  show ?thesis
  proof (cases "hasGraph s")
    case False
    then show ?thesis
      using wf j by (simp add: persistAndUpdateGraph_def)
  next
    case True
    then have "snapshotInterval (mixin s) = 0"
      using False by (simp add: ready_def)
    then obtain p m where
      "actor_PersistReceive (mk (currentTimestamp s)) (tick s) = Panic p ((tick s)\<lparr>mixin := m\<rparr>)"
      using actor_PersistReceive_graph [of "tick s" "mk (currentTimestamp s)"] actor_PersistReceive_interval [of _ "tick s"]
      by (cases "actor_PersistReceive (mk (currentTimestamp s)) (tick s)") auto
    then show ?thesis
      using True wf j by (simp add: persistAndUpdateGraph_def)
  qed
next
  case True
  let ?e = "mk (currentTimestamp s)"
  have si: "snapshotInterval (mixin (tick s)) \<noteq> 0" and hg: "hasGraph s"
    using True by (simp_all add: ready_def)
  show ?thesis
  proof (cases rule: actor_PersistReceive_cases [OF si, of ?e])
    case (1 p m)
    have "journals P s (tick s)"
      by (rule journals_same) simp_all
    with 1(2) show ?thesis
      using wf hg 1(1) by (auto simp: persistAndUpdateGraph_def)
  next
    case (2 m)
    let ?t = "(tick s)\<lparr>mixin := m\<rparr>"
    let ?u = "mutate ?e (update_startTime ?e ?t)"
    have "keeps torn (journals Q) ?u (UpdateWithEvent lis ?e (\<not> recovering m) ?t)"
      by (rule listener_contract.keeps_UpdateWithEvent [OF lis])
         (use wf e(1) event_fresh_cong [of ?t s] in simp_all)
    moreover have "view ?u = flow_step ?e (view s)"
      by (metis actor_field_simps(10) flow_step_def tick_simps(4) view_mutate view_update_startTime)
    then have "journals P s ?u"
      using 2 e(2,3) by (intro journals_write [of ?e]) simp_all
    ultimately have "keeps torn (journals P) s (UpdateWithEvent lis ?e (\<not> recovering m) ?t)"
      using QP by (intro keeps_trans [of P s ?u] keeps_mono [of Q ?u _ P])
    then show ?thesis
      using hg 2(1) by (simp add: persistAndUpdateGraph_def Let_def)
  qed
qed

section \<open>The actor meets the contract\<close>

lemma legal_tick [simp]: "legal e (tick s) = legal e s"
  by (cases e) (simp_all add: legal_def getPendingCount_def NextStageID_def canModifyGraph_def)

lemma journals_order: "journals P s (next_order s)"
  by (rule journals_same) simp_all

lemma journals_mark: "journals P s (upd_stage k (\<lambda>st. st\<lparr>triggered := True\<rparr>) s)"
  by (rule journals_same) simp_all

lemma actor_listener_contract: "listener_contract (actorListener n) (journals is_callback) torn"
proof (induction n)
  case 0
  show ?case
    by unfold_locales (simp_all add: journals_refl journals_order journals_mark, erule (1) journals_trans)
next
  case (Suc n)
  have upd: "keeps torn (journals is_callback) g (persistAndUpdateGraph (actorListener n) mk g)"
    if "wf_graph g" "\<And>ts. is_callback (mk ts)" "\<And>ts. legal (mk ts) g" for g mk
    using that by (intro keeps_persistAndUpdateGraph [OF Suc] callback_fresh)
  have send: "journals is_callback t (send x t)" for t x
    by (rule journals_same) simp_all
  show ?case
  proof unfold_locales
    fix g :: graphActor
    assume "wf_graph g" "state g = StateTerminating" "getPendingCount TerminationExecPhase g = 0"
    then have "keeps torn (journals is_callback) g (persistAndUpdateGraph (actorListener n)
        (GraphCompletedEvent (GraphID g) (FunctionID g)) g)"
      by (intro upd) (simp_all add: legal_def)
    then show "keeps torn (journals is_callback) g (actorListener (Suc n) OnGraphComplete g)"
      using \<open>wf_graph g\<close> send journals_refl journals_trans
      by (cases "persistAndUpdateGraph (actorListener n)
            (GraphCompletedEvent (GraphID g) (FunctionID g)) g")
         (auto simp: actor_OnGraphComplete_def)
  qed (simp_all add: journals_refl journals_order journals_mark keeps_actor_OnExecuteStage
      actor_OnCompleteStage_def actor_OnComposeStage_def actor_OnGraphExecutionFinished_def
      legal_def upd, erule (1) journals_trans)
qed

interpretation actor: listener_contract "actorListener n" "journals is_callback" torn for n
  by (rule actor_listener_contract)

section \<open>Commands\<close>

abbreviation journaled :: "graphActor \<Rightarrow> graphActor \<Rightarrow> bool" where
  "journaled \<equiv> journals (\<lambda>e. True)"

lemma keeps_emit:
  assumes "wf_graph s" and "\<And>ts. event_fresh (mk ts) s" and "\<And>ts. legal (mk ts) s"
  shows "keeps torn journaled s (emit mk s)"
  unfolding emit_def
  by (rule keeps_persistAndUpdateGraph [OF actor_listener_contract]) (simp_all add: assms)

lemma keeps_bind_journal:
  assumes "keeps torn (journals P) s r"
    and "\<And>t. r = Done t \<Longrightarrow> wf_graph t \<Longrightarrow> journals P s t \<Longrightarrow> keeps torn (journals P) t (f t)"
  shows "keeps torn (journals P) s (bind_res r f)"
  using assms by (cases r) (auto intro: keeps_trans)

lemma journals_send [simp]: "journals P s (send x s)"
  by (rule journals_same) simp_all

lemma journals_tick [simp]: "journals P s (tick s)"
  by (rule journals_same) simp_all

lemma journals_send2 [simp]: "journals P s (send x (send y s))"
  by (rule journals_trans [OF journals_send journals_send])

lemma scheduleDelay_simps [simp]:
  "wf_graph (scheduleDelay f k t s) = wf_graph s" "view (scheduleDelay f k t s) = view s"
  "mixin (scheduleDelay f k t s) = mixin s" "hasGraph (scheduleDelay f k t s) = hasGraph s"
  by (simp_all add: scheduleDelay_def Let_def)

lemma validated_add:
  assumes "ValidateCommand cmd s = Valid" and "isAddStageCommand cmd"
  shows "canModifyGraph s" and "length (stages s) < maxStages"
    and "\<exists>strat. getStrategyFromOperation (GetOperation_cmd cmd) = Some strat \<and>
      \<not> deps_out_of_range strat (GetDependencyCount cmd) \<and> TakesClosure strat = HasClosure cmd"
    and "GetOperation_cmd cmd = Op_terminationHook \<Longrightarrow> hook_count s < maxTerminationHooks"
proof -
  have v: "validate_add cmd s = None"
    using assms by (simp add: ValidateCommand_def split: option.splits if_splits)
  then show "canModifyGraph s"
    by (auto simp: validate_add_def split: if_splits)
  with v show "length (stages s) < maxStages"
    and "\<exists>strat. getStrategyFromOperation (GetOperation_cmd cmd) = Some strat \<and>
      \<not> deps_out_of_range strat (GetDependencyCount cmd) \<and> TakesClosure strat = HasClosure cmd"
    and "GetOperation_cmd cmd = Op_terminationHook \<Longrightarrow> hook_count s < maxTerminationHooks"
    by (auto simp: validate_add_def split: if_splits option.splits)
qed

lemma keeps_emit_added:
  assumes "wf_graph s" and "flow_inv s" and "canModifyGraph s" and "length (stages s) < maxStages"
  shows "keeps torn journaled s (emit (\<lambda>ts. StageAddedEvent f (NextStageID s) op cl deps ts loc caller) s)"
  using assms NextStageID_fresh [of s]
  by (intro keeps_emit) (simp_all add: event_fresh_def legal_def flow_inv_def)

lemma keeps_process_add:
  assumes wf: "wf_graph s" and inv: "flow_inv s"
    and add: "isAddStageCommand cmd" and v: "ValidateCommand cmd s = Valid"
  shows "keeps torn journaled s (process_cmd cmd s)"
proof -
  note added = keeps_emit_added [OF wf inv validated_add(1,2) [OF v add]]
  show ?thesis
  proof (cases cmd)
    case (AddStageRequest f op cl deps loc caller)
    then show ?thesis
      using added by (auto simp: process_cmd_def cmd_AddStage_def Let_def intro!: keeps_bind_journal)
  next
    case (AddCompletedValueStageRequest f v loc caller)
    have "keeps torn journaled t (emit (StageCompletedEvent f k v) t)" if "wf_graph t" for t k
      by (rule keeps_emit) (simp_all add: that event_fresh_def legal_def)
    then show ?thesis
      using added AddCompletedValueStageRequest
      by (auto simp: process_cmd_def cmd_AddCompletedValueStage_def Let_def
          intro!: keeps_bind_journal)
  next
    case (AddInvokeFunctionStageRequest f fn arg loc caller)
    have "keeps torn journaled t (actor_PersistReceive (FaasInvocationStartedEvent f k ts fn) (tick t))"
      if "wf_graph t" for t k ts
      by (rule keeps_trans [OF journals_tick keeps_actor_PersistReceive])
         (simp_all add: that legal_def flow_step_def mutate_def)
    then show ?thesis
      using added AddInvokeFunctionStageRequest
      by (auto simp: process_cmd_def cmd_AddInvokeFunctionStage_def Let_def intro!: keeps_bind_journal)
  next
    case (AddDelayStageRequest f ms loc caller)
    have "keeps torn journaled t (actor_PersistReceive (DelayScheduledEvent f k m ts) (tick (tick t)))"
      if "wf_graph t" for t k m ts
      by (rule keeps_trans [OF journals_trans [OF journals_tick journals_tick] keeps_actor_PersistReceive])
         (simp_all add: that legal_def flow_step_def mutate_def)
    moreover have "journaled t (send x (scheduleDelay f k m t))" for x t k m
      by (rule journals_same) simp_all
    ultimately show ?thesis
      using added AddDelayStageRequest
      by (auto simp: process_cmd_def cmd_AddDelayStage_def Let_def intro!: keeps_bind_journal)
  qed (use add in simp_all)
qed

lemma keeps_process_other:
  assumes "wf_graph s" and "\<not> isAddStageCommand cmd" and "\<not> is_CreateGraphRequest cmd"
  shows "keeps torn journaled s (process_cmd cmd s)"
proof -
  have e: "keeps torn journaled s (emit mk s)"
    if "\<And>ts. \<not> is_StageAddedEvent (mk ts)" "\<And>ts. legal (mk ts) s" for mk
    using that by (intro keeps_emit assms(1) not_added_fresh)
  have o: "journaled s (send x (next_order s))" for x
    by (rule journals_same) simp_all
  show ?thesis
    using assms
    by (cases cmd)
       (auto simp: process_cmd_def cmd_CompleteStageExternally_def cmd_CommitGraph_def
          cmd_CompleteDelayStage_def journals_refl IsCommitted_iff legal_def o Let_def
        intro!: keeps_bind_journal e split: option.splits)
qed

theorem receiveCommand_journaled:
  assumes "wf_graph s" and "flow_inv s" and "hasGraph s"
  shows "keeps torn journaled s (receiveCommand cmd s)"
proof -
  have "keeps torn journaled s (process_cmd cmd s)"
    if "ValidateCommand cmd s = Valid" "\<not> is_CreateGraphRequest cmd"
    using that assms keeps_process_add keeps_process_other by blast
  then show ?thesis
    using assms(1,3)
    by (cases cmd)
       (auto simp: receiveCommand_def validateCmd_def journals_refl split: validation.splits)
qed

end
