(* ===== verification/Listener_Progress.thy ===== *)
theory Listener_Progress
  imports Listener_Contract
begin

text \<open>
  Why the graph and its listener do not call each other for ever, and why the graph's
  strategies do not panic. \<open>work\<close> bounds what is left to do: the stages without a result
  and the states of the life cycle still to come. Every callback that calls the graph again
  makes it smaller. The locale \<open>listener_progress\<close> extends the contract by the listener's
  promise to return as long as the work is within a bound \<open>N\<close>; inside it, the graph's
  operations return too. With \<open>strict\<close> they return without a panic.
\<close>

definition returns :: "bool \<Rightarrow> 's res \<Rightarrow> bool" where
  "returns strict r \<longleftrightarrow> (case r of Done s \<Rightarrow> True | Panic p s \<Rightarrow> \<not> strict | NoFuel \<Rightarrow> False)"

lemma returns_simps [simp]:
  "returns strict (Done s)" "returns strict (Panic p s) = (\<not> strict)" "\<not> returns strict NoFuel"
  by (simp_all add: returns_def)

lemma returns_bind:
  "returns strict r \<Longrightarrow> (\<And>s. r = Done s \<Longrightarrow> returns strict (f s)) \<Longrightarrow> returns strict (bind_res r f)"
  by (cases r) auto

lemma returns_strictD: "returns True r \<Longrightarrow> \<exists>s. r = Done s"
  by (cases r) auto

lemma returns_NoFuelD: "returns strict r \<Longrightarrow> r \<noteq> NoFuel"
  by auto

section \<open>The work that is left\<close>

definition unresolved :: "'a CompletionGraph_scheme \<Rightarrow> nat" where
  "unresolved g = length (filter (\<lambda>(k, st). \<not> IsResolved st) (stages g))"

definition work :: "'a CompletionGraph_scheme \<Rightarrow> nat" where
  "work g = unresolved g + (3 - state_rank (state g))"

lemma unresolved_le: "unresolved g \<le> length (stages g)"
  by (simp add: unresolved_def)

lemma unresolved_upd_same:
  assumes "\<And>st. IsResolved (f st) = IsResolved st"
  shows "unresolved (upd_stage k f g) = unresolved g"
proof -
  have "length (filter (\<lambda>(k, st). \<not> IsResolved st) (AList.map_entry k f al)) =
      length (filter (\<lambda>(k, st). \<not> IsResolved st) al)" for al :: "(stage_id \<times> CompletionStage) list"
    by (induction al) (auto simp: assms)
  then show ?thesis
    by (simp add: unresolved_def upd_stage_def)
qed

lemma unresolved_complete_le: "unresolved (upd_stage k (complete r) g) \<le> unresolved g"
proof -
  have "length (filter (\<lambda>(k, st). \<not> IsResolved st) (AList.map_entry k (complete r) al)) \<le>
      length (filter (\<lambda>(k, st). \<not> IsResolved st) al)" for al :: "(stage_id \<times> CompletionStage) list"
    by (induction al) auto
  then show ?thesis
    by (simp add: unresolved_def upd_stage_def)
qed

lemma unresolved_complete_less:
  assumes "GetStage k g = Some st" and "\<not> IsResolved st"
  shows "unresolved (upd_stage k (complete r) g) < unresolved g"
proof -
  have "length (filter (\<lambda>(k, st). \<not> IsResolved st) (AList.map_entry k (complete r) al)) <
      length (filter (\<lambda>(k, st). \<not> IsResolved st) al)" if "map_of al k = Some st"
    for al :: "(stage_id \<times> CompletionStage) list"
    using that assms(2) by (induction al) (auto split: if_splits)
  then show ?thesis
    using assms(1) by (simp add: unresolved_def upd_stage_def GetStage_def)
qed

lemma IsResolved_field [simp]:
  "IsResolved (st\<lparr>triggered := b\<rparr>) = IsResolved st"
  "IsResolved (st\<lparr>composeReference := x\<rparr>) = IsResolved st"
  "IsResolved (untrigger st) = IsResolved st"
  by (simp_all add: IsResolved_def)

lemma work_simps [simp]:
  "work (next_order g) = work g"
  "work (g\<lparr>startTime := t\<rparr>) = work g"
  "work (upd_stage k (\<lambda>st. st\<lparr>triggered := b\<rparr>) g) = work g"
  "work (upd_stage k (\<lambda>st. st\<lparr>composeReference := x\<rparr>) g) = work g"
  by (simp_all add: work_def unresolved_upd_same) (simp_all add: unresolved_def)

lemma work_update_startTime [simp]: "work (update_startTime e g) = work g"
  by (simp add: update_startTime_def split: prod.splits)

lemma work_view [simp]: "work (view g) = work g"
proof -
  have "length (filter (\<lambda>(k, st). \<not> IsResolved st) (map (\<lambda>(k, st). (k, untrigger st)) al)) =
      length (filter (\<lambda>(k, st). \<not> IsResolved st) al)" for al :: "(stage_id \<times> CompletionStage) list"
    by (induction al) auto
  then show ?thesis
    by (simp add: work_def unresolved_def view_def)
qed

lemma work_complete_le: "work (upd_stage k (complete r) g) \<le> work g"
  using unresolved_complete_le by (simp add: work_def)

lemma work_complete_less:
  "GetStage k g = Some st \<Longrightarrow> \<not> IsResolved st \<Longrightarrow> work (upd_stage k (complete r) g) < work g"
  using unresolved_complete_less by (simp add: work_def)

lemma work_state:
  "state g = StateCommitted \<Longrightarrow> work (g\<lparr>state := StateTerminating, terminationRoot := r\<rparr>) < work g"
  "state g = StateTerminating \<Longrightarrow> work (g\<lparr>state := StateCompleted\<rparr>) < work g"
  by (simp_all add: work_def unresolved_def)

section \<open>Triggered stages have the inputs their strategies need\<close>

lemma collect_results_length: "length (collect_results ds) \<le> length ds"
  by (induction ds rule: collect_results.induct) auto

lemma waitForAll_failed: "waitForAll ds = (True, False, rs) \<Longrightarrow> length rs = 1"
  by (auto simp: waitForAll_def Let_def split: if_splits option.splits)

lemma triggerAny_loop_single:
  assumes "triggerAny_loop ds u ff = (True, status, rs)" and "ds \<noteq> [] \<or> ff \<noteq> None \<or> u"
  shows "length rs = 1"
  using assms
proof (induction ds u ff rule: triggerAny_loop.induct)
  case (1 u ff)
  then show ?case by (auto split: if_splits option.splits)
next
  case (2 d ds u ff)
  then show ?case by (auto split: option.splits if_splits)
qed

lemma triggerAny_single: "triggerAny ds = (True, status, rs) \<Longrightarrow> length rs = 1"
  by (auto simp: triggerAny_def split: if_splits dest: triggerAny_loop_single)

fun needs_single :: "ExecutionStrategy \<Rightarrow> bool" where
  "needs_single InvokeWithResultOrError = True"
| "needs_single PropagateResult = True"
| "needs_single _ = False"

lemma strategy_single:
  assumes "getStrategyFromOperation op = Some s"
  shows "stTrigger s = WaitForAll \<longrightarrow> \<not> needs_single (SuccessStrategy s)"
  using assms by (cases op) (auto simp: getStrategyFromOperation_def)

lemma trigger_state_single:
  assumes "wf_static k st" and "trigger_state st g = (True, status, rs)"
    and "needs_single (if status then SuccessStrategy (stage_strategy st) else FailureStrategy (stage_strategy st))"
  shows "length rs = 1"
proof (cases "stTrigger (stage_strategy st)")
  case WaitForAll
  then have "\<not> status"
    using assms(1,3) strategy_single by (fastforce simp: wf_static_def)
  then show ?thesis
    using assms(2) WaitForAll by (auto simp: trigger_state_def dest: waitForAll_failed)
next
  case TriggerAny
  then show ?thesis
    using assms(2) by (auto simp: trigger_state_def dest: triggerAny_single)
next
  case TriggerNever
  then show ?thesis
    using assms(2) by (simp add: trigger_state_def triggerNever_def)
qed

section \<open>Events whose handlers do not panic\<close>

definition applies :: "Event \<Rightarrow> 'a CompletionGraph_scheme \<Rightarrow> bool" where
  "applies e g \<longleftrightarrow>
     (case e of
        StageAddedEvent f sid op cl deps ts loc caller \<Rightarrow>
          op = Op_terminationHook \<or>
          (case getStrategyFromOperation op of
             None \<Rightarrow> False
           | Some strat \<Rightarrow>
               \<not> deps_out_of_range strat (length deps) \<and> list_all (\<lambda>d. GetStage d g \<noteq> None) deps)
      | StageCompletedEvent f sid r ts \<Rightarrow> GetStage sid g \<noteq> None \<and> r \<noteq> None
      | StageComposedEvent f sid inner ts \<Rightarrow> GetStage sid g \<noteq> None \<and> GetStage inner g \<noteq> None
      | FaasInvocationCompletedEvent f sid r ts call \<Rightarrow>
          r \<noteq> None \<and>
          (case GetStage sid g of
             None \<Rightarrow> False
           | Some st \<Rightarrow>
               stResultHandling (stage_strategy st) = ParentStageResult \<longrightarrow>
                 (case dependencies st of [d] \<Rightarrow> dep_result g d \<noteq> None | _ \<Rightarrow> False))
      | _ \<Rightarrow> True)"

lemma applies_iff:
  "applies e g \<longleftrightarrow>
     (case e of
        StageAddedEvent f sid op cl deps ts loc caller \<Rightarrow>
          op = Op_terminationHook \<or>
          (\<exists>strat. getStrategyFromOperation op = Some strat \<and>
             \<not> deps_out_of_range strat (length deps) \<and> set deps \<subseteq> stage_keys g)
      | StageCompletedEvent f sid r ts \<Rightarrow> sid \<in> stage_keys g \<and> r \<noteq> None
      | StageComposedEvent f sid inner ts \<Rightarrow> sid \<in> stage_keys g \<and> inner \<in> stage_keys g
      | FaasInvocationCompletedEvent f sid r ts call \<Rightarrow>
          r \<noteq> None \<and>
          (\<exists>st. GetStage sid g = Some st \<and>
             (stResultHandling (stage_strategy st) = ParentStageResult \<longrightarrow>
                (\<exists>d. dependencies st = [d] \<and> dep_result g d \<noteq> None)))
      | _ \<Rightarrow> True)"
  by (cases e)
     (auto simp: applies_def list_all_iff GetStage_None_iff dest: GetStage_in_keys split: option.splits list.splits)

section \<open>The listener returns\<close>

locale listener_progress = listener_contract lis R C
  for lis :: "('a CompletionGraph_scheme) CompletionEventListener"
    and R :: "'a CompletionGraph_scheme \<Rightarrow> 'a CompletionGraph_scheme \<Rightarrow> bool"
    and C :: "'a CompletionGraph_scheme \<Rightarrow> 'a CompletionGraph_scheme \<Rightarrow> bool" +
  fixes strict :: bool and good :: "'a CompletionGraph_scheme \<Rightarrow> bool" and N :: nat
  assumes R_good: "R g h \<Longrightarrow> good g \<Longrightarrow> good h"
    and good_more: "CompletionGraph.more g = CompletionGraph.more h \<Longrightarrow> good g \<Longrightarrow> good h"
    and R_work: "R g h \<Longrightarrow> good g \<Longrightarrow> work h \<le> work g"
    and returns_execute: "wf_graph g \<Longrightarrow> good g \<Longrightarrow> returns strict (lis (OnExecuteStage st rs) g)"
    and returns_complete: "wf_graph g \<Longrightarrow> good g \<Longrightarrow> ID st \<in> stage_keys g \<Longrightarrow>
      (\<And>r. res = Some r \<Longrightarrow> work (upd_stage (ID st) (complete r) g) < N) \<Longrightarrow>
      (strict \<Longrightarrow> res \<noteq> None) \<Longrightarrow> 0 < N \<Longrightarrow>
      returns strict (lis (OnCompleteStage st res) g)"
    and returns_compose: "wf_graph g \<Longrightarrow> good g \<Longrightarrow> ID st \<in> stage_keys g \<Longrightarrow> ID st' \<in> stage_keys g \<Longrightarrow>
      work g < N \<Longrightarrow> returns strict (lis (OnComposeStage st st') g)"
    and returns_finished: "wf_graph g \<Longrightarrow> good g \<Longrightarrow> state g = StateCommitted \<Longrightarrow>
      getPendingCount MainExecPhase g = 0 \<Longrightarrow> work g \<le> N \<Longrightarrow>
      returns strict (lis OnGraphExecutionFinished g)"
    and returns_graph_complete: "wf_graph g \<Longrightarrow> good g \<Longrightarrow> state g = StateTerminating \<Longrightarrow>
      getPendingCount TerminationExecPhase g = 0 \<Longrightarrow> work g \<le> N \<Longrightarrow>
      returns strict (lis OnGraphComplete g)"
begin

lemma good_simps [simp]:
  "good (upd_stage k f g) = good g" "good (next_order g) = good g"
  "good (g\<lparr>state := x\<rparr>) = good g" "good (g\<lparr>terminationRoot := r\<rparr>) = good g"
  by (auto intro: good_more [rotated])

lemma returns_complete_unresolved:
  assumes "wf_graph g" and "good g" and "work g \<le> N"
    and "GetStage (ID st) g = Some st'" and "\<not> IsResolved st'"
  shows "returns strict (lis (OnCompleteStage st (Some r)) g)"
proof -
  have less: "work (upd_stage (ID st) (complete r') g) < N" for r'
    using work_complete_less [OF assms(4,5)] assms(3) by (rule less_le_trans)
  show ?thesis
    using less [of r] by (intro returns_complete assms(1,2)) (auto intro: GetStage_in_keys [OF assms(4)] less)
qed

lemma returns_trigger:
  assumes "wf_graph g" and "good g" and "work g \<le> N" and "wf_static k st"
    and "GetStage (ID st) g = Some st'" and "\<not> IsResolved st'"
    and "trigger_state st g' = (True, status, rs)"
  shows "returns strict (trigger status lis st rs g)"
proof -
  let ?x = "if status then SuccessStrategy (stage_strategy st) else FailureStrategy (stage_strategy st)"
  have single: "\<exists>r. rs = [r]" if "needs_single ?x"
    using trigger_state_single [OF assms(4,7) that] by (cases rs) auto
  have "returns strict (run_execution ?x lis st rs g)"
    using assms(1,2) single returns_complete_unresolved [OF assms(1-3,5,6)]
    by (cases ?x)
       (auto simp: succeedWithEmpty_def invokeWithoutArgs_def invokeWithResult_def
          invokeWithResultOrError_def completeExternally_def propagateResult_def returns_execute)
  then show ?thesis
    by (simp add: trigger_def split: if_splits)
qed

lemma returns_try_trigger:
  assumes "wf_graph g" and "good g" and "work g \<le> N"
  shows "returns strict (try_trigger lis k g)"
proof (cases "GetStage k g")
  case None
  then show ?thesis by (simp add: try_trigger_def)
next
  case (Some st)
  have id: "ID st = k" and static: "wf_static k st"
    using wf_graph_stage [OF assms(1) Some] by (simp_all add: wf_stage_def wf_static_def)
  have "returns strict (trigger status lis st rs (upd_stage k (\<lambda>st. st\<lparr>triggered := True\<rparr>) g))"
    if "trigger_state st g = (True, status, rs)" "\<not> IsResolved st" for status rs
    by (rule returns_trigger [OF wf_graph_mark [OF assms(1)] _ _ static _ _ that(1),
          where st' = "st\<lparr>triggered := True\<rparr>"])
       (simp_all add: assms Some id GetStage_upd_stage that)
  then show ?thesis
    using Some by (auto simp: try_trigger_def requestTrigger_def split: prod.splits)
qed

lemma returns_bind_keeps:
  assumes "keeps C R g r" and "returns strict r" and "good g" and "work g \<le> N"
    and "\<And>h. r = Done h \<Longrightarrow> wf_graph h \<Longrightarrow> good h \<Longrightarrow> work h \<le> N \<Longrightarrow> returns strict (f h)"
  shows "returns strict (bind_res r f)"
proof (cases r)
  case (Done h)
  then have "wf_graph h" "R g h"
    using assms(1) by simp_all
  then show ?thesis
    using Done assms(5) [OF Done] R_good [OF _ assms(3)] R_work [OF _ assms(3)] assms(4)
    by (auto intro: order_trans)
qed (use assms in auto)

lemma returns_fold:
  assumes "wf_graph g" and "good g" and "work g \<le> N"
    and "\<And>k h. wf_graph h \<Longrightarrow> good h \<Longrightarrow> work h \<le> N \<Longrightarrow> returns strict (f k h)"
    and "\<And>k h. wf_graph h \<Longrightarrow> keeps C R h (f k h)"
  shows "returns strict (fold_res f ks g)"
  using assms(1-3)
proof (induction ks arbitrary: g)
  case (Cons k ks)
  then show ?case
    using returns_bind_keeps [OF assms(5) assms(4)] by simp
qed simp

lemma returns_triggerReadyStages:
  "wf_graph g \<Longrightarrow> good g \<Longrightarrow> work g \<le> N \<Longrightarrow> returns strict (triggerReadyStages lis g)"
  unfolding triggerReadyStages_def
  by (rule returns_fold) (simp_all add: returns_try_trigger keeps_try_trigger)

lemma returns_checkForExecutionFinished:
  assumes "wf_graph g" and "good g" and "work g \<le> N"
  shows "returns strict (checkForExecutionFinished lis g)"
proof -
  have "getPendingCount ph (next_order g) = getPendingCount ph g" for ph
    by (simp add: getPendingCount_def)
  then show ?thesis
    using assms
    by (cases "state g")
       (simp_all add: checkForExecutionFinished_def returns_finished returns_graph_complete)
qed

lemma returns_trigger_then_check:
  assumes "wf_graph g" and "good g" and "work g \<le> N"
  shows "returns strict (bind_res (if b then triggerReadyStages lis g else Done g)
    (checkForExecutionFinished lis))"
  using assms
  by (intro returns_bind_keeps [of g] returns_checkForExecutionFinished)
     (simp_all add: keeps_triggerReadyStages R_refl returns_triggerReadyStages)

lemma returns_tryCompleteComposedStage:
  assumes "wf_graph g" and "good g" and "work g \<le> N"
    and "outer \<in> stage_keys g" and "inner \<in> stage_keys g"
  shows "returns strict (tryCompleteComposedStage lis outer inner g)"
proof -
  obtain o' i where oi: "GetStage outer g = Some o'" "GetStage inner g = Some i"
    using assms(4,5) by (metis GetStage_Some_iff)
  have "ID o' = outer"
    by (rule wf_graph_ID [OF assms(1) oi(1)])
  then have "returns strict (lis (OnCompleteStage o' (Some r)) g)" if "\<not> IsResolved o'" for r
    using that oi by (intro returns_complete_unresolved [OF assms(1-3)]) simp_all
  then show ?thesis
    using oi by (auto simp: tryCompleteComposedStage_def IsResolved_def)
qed

lemma returns_handleStageCompleted:
  assumes "wf_graph g" and "good g" and "\<And>r. res = Some r \<Longrightarrow> work (upd_stage sid (complete r) g) \<le> N"
    and "strict \<Longrightarrow> sid \<in> stage_keys g \<and> res \<noteq> None"
  shows "returns strict (handleStageCompleted lis sid res b g)"
proof (cases "\<exists>r node. res = Some r \<and> GetStage sid g = Some node")
  case True
  then obtain r node where r: "res = Some r" "GetStage sid g = Some node"
    by blast
  let ?h = "upd_stage sid (complete r) g"
  have h: "wf_graph ?h" "good ?h" "work ?h \<le> N"
    using assms(1,2) assms(3) [OF r(1)] by (simp_all add: wf_graph_complete)
  let ?c = "case composeReference node of None \<Rightarrow> Done ?h
    | Some outer \<Rightarrow> tryCompleteComposedStage lis outer sid ?h"
  have keys: "outer \<in> stage_keys ?h" if "composeReference node = Some outer" for outer
    using wf_graph_stage [OF assms(1) r(2)] that by (simp add: wf_stage_def wf_links_def)
  have "sid \<in> stage_keys ?h"
    using GetStage_in_keys [OF r(2)] by simp
  with h keys have ret: "returns strict ?c"
    by (auto simp: returns_tryCompleteComposedStage split: option.splits)
  have "keeps C R ?h ?c"
    using h by (auto simp: R_refl keeps_tryCompleteComposedStage split: option.splits)
  with ret have "returns strict (bind_res ?c (\<lambda>g. bind_res (if b then triggerReadyStages lis g else Done g)
      (checkForExecutionFinished lis)))"
    using h by (intro returns_bind_keeps [of ?h ?c] returns_trigger_then_check)
  then show ?thesis
    using r by (simp add: handleStageCompleted_def bind_res_assoc)
next
  case False
  then have "\<not> strict"
    using assms(4) by (auto simp: GetStage_Some_iff [symmetric])
  then show ?thesis
    using False by (cases res) (auto simp: handleStageCompleted_def split: option.splits)
qed

lemma returns_fail_lost_stage:
  assumes "wf_graph g" and "good g" and "work g \<le> N"
  shows "returns strict (fail_lost_stage lis k g)"
proof (cases "GetStage k g")
  case None
  then show ?thesis by (simp add: fail_lost_stage_def)
next
  case (Some st)
  let ?h = "upd_stage k (\<lambda>st. st\<lparr>triggered := True\<rparr>) g"
  have id: "ID st = k"
    by (rule wf_graph_ID [OF assms(1) Some])
  have "returns strict (lis (OnCompleteStage st (Some r)) ?h)" if "\<not> IsResolved st" for r
    by (rule returns_complete_unresolved [where st' = "st\<lparr>triggered := True\<rparr>"])
       (simp_all add: assms wf_graph_mark Some id GetStage_upd_stage that)
  then show ?thesis
    using Some by (auto simp: fail_lost_stage_def requestTrigger_def split: prod.splits)
qed

lemma returns_Recover:
  assumes "wf_graph g" and "good g" and "work g \<le> N"
  shows "returns strict (Recover lis g)"
proof -
  have "keeps C R (next_order g) (fold_res (fail_lost_stage lis) (range_keys g) (next_order g))"
    by (rule keeps_fold) (simp_all add: assms keeps_fail_lost_stage)
  moreover have "returns strict (fold_res (fail_lost_stage lis) (range_keys g) (next_order g))"
    by (rule returns_fold) (simp_all add: assms returns_fail_lost_stage keeps_fail_lost_stage)
  ultimately show ?thesis
    unfolding Recover_def
  proof (rule returns_bind_keeps)
    fix h
    assume "wf_graph h" "good h" "work h \<le> N"
    then show "returns strict (bind_res (triggerReadyStages lis h) (checkForExecutionFinished lis))"
      using returns_trigger_then_check [of h True] by simp
  qed (simp_all add: assms)
qed

lemma returns_handleStageComposed:
  assumes "wf_graph g" and "good g" and "work g \<le> N"
    and "outer \<in> stage_keys g" and "inner \<in> stage_keys g"
  shows "returns strict (handleStageComposed lis outer inner g)"
proof -
  obtain i where "GetStage inner g = Some i"
    using assms(5) by (metis GetStage_Some_iff)
  moreover obtain o' where "GetStage outer g = Some o'"
    using assms(4) by (metis GetStage_Some_iff)
  ultimately show ?thesis
    using assms wf_graph_compose [OF assms(1), of inner outer]
    by (simp add: handleStageComposed_def returns_tryCompleteComposedStage)
qed

lemma returns_run_result:
  assumes "wf_graph g" and "good g" and "work g < N" and "ID st \<in> stage_keys g"
    and "strict \<Longrightarrow> r \<noteq> None \<and> (x = ParentStageResult \<longrightarrow>
      (\<exists>d. dependencies st = [d] \<and> dep_result g d \<noteq> None))"
  shows "returns strict (run_result x lis st r g)"
proof -
  have "work (upd_stage (ID st) (complete v) g) < N" for v
    using work_complete_le assms(3) by (rule le_less_trans)
  then have c: "returns strict (lis (OnCompleteStage st v) g)" if "strict \<Longrightarrow> v \<noteq> None" for v
    using assms(3) that by (intro returns_complete assms(1,2,4)) auto
  have o: "returns strict (lis (OnComposeStage st st') g)" if "GetStage i g = Some st'" for i st'
    using that wf_graph_ID [OF assms(1) that] GetStage_in_keys [OF that]
    by (intro returns_compose assms) simp
  show ?thesis
  proof (cases x)
    case InvocationResult
    then show ?thesis using c assms(5) by (auto simp: invocationResult_def)
  next
    case ReferencedStageResult
    then show ?thesis
      using c o assms(5) by (auto simp: referencedStageResult_def split: option.splits)
  next
    case ParentStageResult
    then show ?thesis
      using c assms(5) by (auto simp: parentStageResult_def split: list.splits option.splits)
  next
    case NoResultStrategy
    then show ?thesis by (simp add: noResultStrategy_def)
  qed
qed

lemma returns_handleStageAdded:
  assumes "wf_graph g" and "good g" and "sid \<notin> stage_keys g" and "op \<noteq> Op_terminationHook"
    and "work (mutate_add sid op cl deps g) \<le> N"
    and "strict \<Longrightarrow> \<exists>strat. getStrategyFromOperation op = Some strat \<and>
      \<not> deps_out_of_range strat (length deps) \<and> set deps \<subseteq> stage_keys g"
  shows "returns strict (handleStageAdded lis sid op cl deps b g)"
proof (cases "\<exists>strat. getStrategyFromOperation op = Some strat \<and>
      \<not> deps_out_of_range strat (length deps) \<and> set deps \<subseteq> stage_keys g")
  case True
  then obtain strat where s: "getStrategyFromOperation op = Some strat"
    "\<not> deps_out_of_range strat (length deps)" "set deps \<subseteq> stage_keys g"
    by blast
  have "CompletionGraph.more (mutate_add sid op cl deps g) = CompletionGraph.more g"
    by (simp add: mutate_add_def split: option.splits)
  then have "good (mutate_add sid op cl deps g)"
    using good_more assms(2) by metis
  moreover have "handleStageAdded lis sid op cl deps b g =
      (if b then triggerReadyStages lis (mutate_add sid op cl deps g)
       else Done (mutate_add sid op cl deps g))"
    using s assms(3)
    by (auto simp: handleStageAdded_def mutate_add_def GetStage_None_iff Let_def)
  ultimately show ?thesis
    using assms by (auto simp: wf_graph_mutate_add intro!: returns_triggerReadyStages)
next
  case False
  then have "\<not> strict"
    using assms(6) by blast
  then show ?thesis
    using False assms(3)
    by (auto simp: handleStageAdded_def GetStage_None_iff split: option.splits)
qed

text \<open>An event is handled to the end when the work after its own change is below the bound.\<close>

theorem returns_UpdateWithEvent:
  assumes "wf_graph g" and "good g" and "event_fresh e g" and "work (mutate e g) \<le> N"
    and "is_FaasInvocationCompletedEvent e \<Longrightarrow> work g < N"
    and "strict \<Longrightarrow> applies e g"
    and "is_StageComposedEvent e \<Longrightarrow> applies e g"
  shows "returns strict (UpdateWithEvent lis e b g)"
proof -
  let ?g = "update_startTime e g"
  have more: "CompletionGraph.more ?g = CompletionGraph.more g"
    by (simp add: update_startTime_def split: prod.splits)
  have g: "wf_graph ?g" "good ?g" "event_fresh e ?g"
    using assms good_more [OF more [symmetric]]
    by (auto simp: update_startTime_def event_fresh_def split: prod.splits Event.splits)
  have m: "wf_graph (mutate e ?g)"
    by (rule wf_graph_mutate [OF g(1,3)])
  have w: "work (mutate e ?g) \<le> N"
    using assms(4) by (metis view_mutate view_update_startTime work_view)
  have keys: "stage_keys ?g = stage_keys g" "GetStage k ?g = GetStage k g" "dep_result ?g d = dep_result g d" for k d
    by (simp_all add: update_startTime_def dep_result_def split: prod.splits StageDependency.splits)
  show ?thesis
  proof (cases e)
    case (GraphCommittedEvent f ts)
    then show ?thesis
      using g m w by (simp add: UpdateWithEvent_def handleCommitted_def mutate_def
          returns_checkForExecutionFinished)
  next
    case (GraphTerminatingEvent f fn status ts)
    then show ?thesis
      using m w g returns_trigger_then_check [of "mutate e ?g" b]
      by (cases b) (simp_all add: UpdateWithEvent_def handleTerminating_def mutate_def Let_def)
  next
    case (StageAddedEvent f sid op cl deps ts loc caller)
    show ?thesis
    proof (cases "op = Op_terminationHook")
      case True
      then show ?thesis
        using StageAddedEvent by (simp add: UpdateWithEvent_def handleAddTerminationHook_mutate)
    next
      case False
      have "returns strict (handleStageAdded lis sid op cl deps b ?g)"
        by (rule returns_handleStageAdded)
           (use False StageAddedEvent g w assms(6) keys in
              \<open>auto simp: mutate_def event_fresh_def applies_iff\<close>)
      then show ?thesis
        using False StageAddedEvent by (simp add: UpdateWithEvent_def)
    qed
  next
    case (StageCompletedEvent f sid r ts)
    have "returns strict (handleStageCompleted lis sid r b ?g)"
      by (rule returns_handleStageCompleted)
         (use StageCompletedEvent g w assms(6) keys in \<open>auto simp: mutate_def applies_iff\<close>)
    then show ?thesis
      using StageCompletedEvent by (simp add: UpdateWithEvent_def)
  next
    case (StageComposedEvent f sid inner ts)
    have "returns strict (handleStageComposed lis sid inner ?g)"
      by (rule returns_handleStageComposed)
         (use StageComposedEvent g w assms(7) keys in \<open>auto simp: mutate_def applies_iff\<close>)
    then show ?thesis
      using StageComposedEvent by (simp add: UpdateWithEvent_def)
  next
    case (FaasInvocationCompletedEvent f sid r ts call)
    have "returns strict (handleInvokeComplete lis sid r ?g)"
    proof (cases "GetStage sid ?g")
      case None
      then have "\<not> strict"
        using assms(6) FaasInvocationCompletedEvent keys by (auto simp: applies_iff)
      then show ?thesis
        using None by (simp add: handleInvokeComplete_def)
    next
      case (Some st)
      then have "ID st \<in> stage_keys ?g"
        using wf_graph_ID [OF g(1)] GetStage_in_keys by metis
      then show ?thesis
        unfolding handleInvokeComplete_def handleResult_def Some option.case
        by (intro returns_run_result)
           (use FaasInvocationCompletedEvent Some g assms(5,6) keys in
              \<open>auto simp: applies_iff mutate_def\<close>)
    qed
    then show ?thesis
      using FaasInvocationCompletedEvent by (simp add: UpdateWithEvent_def Let_def)
  qed (simp_all add: UpdateWithEvent_def handleCompleted_def Let_def)
qed

end

end
