(* ===== verification/Actor_Progress.thy ===== *)
theory Actor_Progress
  imports Actor_Journal Listener_Progress
begin

text \<open>
  The graph actor handles every command to the end: the nesting of calls between the actor
  and its graph stays below \<open>call_depth\<close>, and with a store that does not fail no
  validated command makes the actor panic.
\<close>

section \<open>Callbacks reduce the work\<close>

lemma callback_step:
  assumes "is_callback e" and "legal e g"
  shows "work (mutate e g) \<le> work g \<and> stage_keys (mutate e g) = stage_keys g"
  using assms less_imp_le [OF work_state(1)] less_imp_le [OF work_state(2)]
  by (cases e) (auto simp: mutate_def legal_def work_complete_le split: option.splits)

lemma callback_run:
  "flow_run g es h \<Longrightarrow> list_all is_callback es \<Longrightarrow> work h \<le> work g \<and> stage_keys h = stage_keys g"
proof (induction rule: flow_run.induct)
  case (run_snoc g es h e)
  then show ?case
    using callback_step [of e h] by (fastforce simp: flow_step_def)
qed simp

lemma journals_work:
  assumes "journals is_callback s t" and "ready s"
  shows "work t \<le> work s" and "stage_keys t = stage_keys s"
  using assms callback_run [of "view s" _ "view t"] by (auto simp: journals_def)

section \<open>The actor returns\<close>

definition good :: "bool \<Rightarrow> graphActor \<Rightarrow> bool" where
  "good strict s \<longleftrightarrow> ready s \<and> (strict \<longrightarrow> reliable (mixin s))"

lemma journals_good: "journals P s t \<Longrightarrow> good strict s \<Longrightarrow> good strict t"
  by (auto simp: good_def journals_def)

lemma good_of_more: "CompletionGraph.more s = CompletionGraph.more t \<Longrightarrow> good strict s \<Longrightarrow> good strict t"
  using actor_of_more [of s t] by (simp add: good_def ready_def)

lemma returns_actor_PersistReceive: "good strict s \<Longrightarrow> returns strict (actor_PersistReceive e s)"
  by (rule actor_PersistReceive_cases [of s e]) (auto simp: good_def ready_def)

lemma returns_persistAndUpdateGraph:
  assumes lis: "listener_progress lis (journals is_callback) torn strict (good strict) N"
    and s: "wf_graph s" "good strict s"
    and e: "\<And>ts. event_fresh (mk ts) s" "\<And>ts. work (mutate (mk ts) s) \<le> N"
      "\<And>ts. is_FaasInvocationCompletedEvent (mk ts) \<Longrightarrow> work s < N"
      "\<And>ts. strict \<Longrightarrow> applies (mk ts) s" "\<And>ts. is_StageComposedEvent (mk ts) \<Longrightarrow> applies (mk ts) s"
  shows "returns strict (persistAndUpdateGraph lis mk s)"
proof -
  let ?e = "mk (currentTimestamp s)"
  have hg: "hasGraph s" and si: "snapshotInterval (mixin (tick s)) \<noteq> 0"
    using s(2) by (simp_all add: good_def ready_def)
  show ?thesis
  proof (cases rule: actor_PersistReceive_cases [OF si, of ?e])
    case (1 p m)
    then show ?thesis
      using s(2) hg by (auto simp: persistAndUpdateGraph_def good_def)
  next
    case (2 m)
    let ?t = "(tick s)\<lparr>mixin := m\<rparr>"
    have good: "good strict ?t"
      using s(2) 2 by (simp add: good_def ready_def)
    have "view (mutate ?e ?t) = view (mutate ?e s)"
      by (metis actor_field_simps(10) tick_simps(4) view_mutate)
    then have w: "work (mutate ?e ?t) = work (mutate ?e s)" and w': "work ?t = work s"
      by (metis work_view, metis actor_field_simps(10) tick_simps(4) work_view)
    have a: "applies ?e ?t = applies ?e s"
      using dep_result_cong [of ?t s] by (cases ?e) (simp_all add: applies_iff)
    have "returns strict (UpdateWithEvent lis ?e (\<not> recovering m) ?t)"
      by (rule listener_progress.returns_UpdateWithEvent [OF lis])
         (use s(1) good e event_fresh_cong [of ?t s] w w' a in simp_all)
    then show ?thesis
      using hg 2(1) by (simp add: persistAndUpdateGraph_def Let_def)
  qed
qed

lemma callback_not_faas: "is_callback e \<Longrightarrow> \<not> is_FaasInvocationCompletedEvent e"
  by (cases e) simp_all

lemma returns_actor_OnExecuteStage: "good strict s \<Longrightarrow> returns strict (actor_OnExecuteStage st rs s)"
proof -
  assume "good strict s"
  then have "good strict (tick s)"
    by (simp add: good_def ready_def)
  then show ?thesis
    by (auto simp: actor_OnExecuteStage_def intro!: returns_bind returns_actor_PersistReceive)
qed

lemma returns_nil_completion:
  assumes "ready s"
  shows "returns False (persistAndUpdateGraph lis (StageCompletedEvent f k None) s)"
proof -
  have "snapshotInterval (mixin (tick s)) \<noteq> 0"
    using assms by (simp add: ready_def)
  from this assms show ?thesis
    by (cases rule: actor_PersistReceive_cases [of "tick s" "StageCompletedEvent f k None (currentTimestamp s)"])
       (auto simp: persistAndUpdateGraph_def UpdateWithEvent_def handleStageCompleted_def ready_def Let_def)
qed

lemma actor_listener_progress:
  "listener_progress (actorListener (Suc n)) (journals is_callback) torn strict (good strict) n"
proof (induction n)
  case 0
  show ?case
  proof (intro listener_progress.intro actor_listener_contract listener_progress_axioms.intro)
    show "work h \<le> work g" if "journals is_callback g h" "good strict g" for g h
      using that by (simp add: journals_work good_def)
  qed (auto simp: work_def returns_actor_OnExecuteStage intro: journals_good good_of_more)
next
  case (Suc n)
  have upd: "returns strict (persistAndUpdateGraph (actorListener (Suc n)) mk g)"
    if "wf_graph g" "good strict g" "\<And>ts. is_callback (mk ts)" "\<And>ts. work (mutate (mk ts) g) \<le> n"
      "\<And>ts. strict \<Longrightarrow> applies (mk ts) g" "\<And>ts. is_StageComposedEvent (mk ts) \<Longrightarrow> applies (mk ts) g" for g mk
    by (rule returns_persistAndUpdateGraph [OF Suc that(1,2)])
       (use that in \<open>auto simp: callback_fresh dest: callback_not_faas\<close>)
  show ?case
  proof (intro listener_progress.intro actor_listener_contract listener_progress_axioms.intro)
    show "work h \<le> work g" if "journals is_callback g h" "good strict g" for g h
      using that by (simp add: journals_work good_def)
  next
    fix g :: graphActor and st :: CompletionStage and res
    assume *: "wf_graph g" "good strict g" "ID st \<in> stage_keys g" "strict \<Longrightarrow> res \<noteq> None"
      "\<And>r. res = Some r \<Longrightarrow> work (upd_stage (ID st) (complete r) g) < Suc n"
    show "returns strict (actorListener (Suc (Suc n)) (OnCompleteStage st res) g)"
    proof (cases res)
      case None
      then show ?thesis
        using *(2,4) returns_nil_completion [of g]
        by (cases strict) (simp_all add: actor_OnCompleteStage_def good_def)
    next
      case (Some r)
      then show ?thesis
        using * by (auto simp: actor_OnCompleteStage_def mutate_def applies_iff less_Suc_eq_le intro!: upd)
    qed
  next
    fix g :: graphActor and st st' :: CompletionStage
    assume "wf_graph g" "good strict g" "ID st \<in> stage_keys g" "ID st' \<in> stage_keys g" "work g < Suc n"
    then show "returns strict (actorListener (Suc (Suc n)) (OnComposeStage st st') g)"
      by (auto simp: actor_OnComposeStage_def mutate_def applies_iff intro!: upd)
  next
    fix g :: graphActor
    assume *: "wf_graph g" "good strict g" "state g = StateCommitted" "work g \<le> Suc n"
    then have "work (g\<lparr>state := StateTerminating, terminationRoot := r\<rparr>) \<le> n" for r
      using work_state(1) [OF *(3), of r] by simp
    then show "returns strict (actorListener (Suc (Suc n)) OnGraphExecutionFinished g)"
      using * by (auto simp: actor_OnGraphExecutionFinished_def mutate_def applies_iff intro!: upd)
  next
    fix g :: graphActor
    assume *: "wf_graph g" "good strict g" "state g = StateTerminating" "work g \<le> Suc n"
    then have "work (g\<lparr>state := StateCompleted\<rparr>) \<le> n"
      using work_state(2) [OF *(3)] by simp
    then show "returns strict (actorListener (Suc (Suc n)) OnGraphComplete g)"
      using * by (auto simp: actor_OnGraphComplete_def mutate_def applies_iff intro!: upd returns_bind)
  qed (auto simp: returns_actor_OnExecuteStage intro: journals_good good_of_more)
qed


interpretation actor_progress:
  listener_progress "actorListener (Suc n)" "journals is_callback" torn strict "good strict" n for n strict
  by (rule actor_listener_progress)

section \<open>Commands\<close>

lemma work_bound: "work s \<le> length (stages s) + 3"
  using unresolved_le [of s] by (simp add: work_def)

lemma unresolved_fold_add_child:
  "unresolved (fold (\<lambda>d. upd_stage d (add_child sid)) deps g) = unresolved g"
  by (induction deps arbitrary: g) (simp_all add: unresolved_upd_same IsResolved_def)

lemma unresolved_put: "ID st \<notin> stage_keys g \<Longrightarrow> unresolved (put_stage st g) \<le> Suc (unresolved g)"
  by (simp add: unresolved_def put_stage_def stage_keys_def map_fst_update_new)

lemma work_mutate_le:
  assumes "event_fresh e g"
  shows "work (mutate e g) \<le> length (stages g) + 4"
proof -
  have le: "work h \<le> length (stages g) + 4" if "unresolved h \<le> Suc (unresolved g)"
    for h :: "'a CompletionGraph_scheme"
    using that unresolved_le [of g] by (simp add: work_def)
  have fields: "unresolved (g\<lparr>state := x\<rparr>) = unresolved g"
    "unresolved (g\<lparr>state := x, terminationRoot := r\<rparr>) = unresolved g"
    "unresolved (h\<lparr>terminationChainHead := c\<rparr>) = unresolved h" for x r c and h :: "'a CompletionGraph_scheme"
    by (simp_all add: unresolved_def)
  have "unresolved (mutate e g) \<le> Suc (unresolved g)"
  proof (cases e)
    case (StageAddedEvent f sid op cl deps ts loc caller)
    then have new: "sid \<notin> stage_keys g"
      using assms by (simp add: event_fresh_def)
    have "unresolved (put_stage st h) \<le> Suc (unresolved g)"
      if "ID st = sid" "stage_keys h = stage_keys g" "unresolved h = unresolved g"
      for st and h :: "'a CompletionGraph_scheme"
      using that new unresolved_put [of st h] by simp
    then show ?thesis
      using StageAddedEvent new
      by (auto simp: mutate_def mutate_hook_def mutate_add_def Let_def fields unresolved_fold_add_child
          unresolved_upd_same IsResolved_def split: option.splits)
  qed (auto simp: mutate_def fields unresolved_upd_same le_SucI [OF unresolved_complete_le]
      split: option.splits)
  then show ?thesis
    by (rule le)
qed

lemma returns_emit:
  assumes "wf_graph s" and "good strict s" and "\<And>ts. event_fresh (mk ts) s"
    and "\<And>ts. strict \<Longrightarrow> applies (mk ts) s" and "\<And>ts. \<not> is_StageComposedEvent (mk ts)"
  shows "returns strict (emit mk s)"
proof -
  have "call_depth s = Suc (2 * length (stages s) + 9)"
    by (simp add: call_depth_def)
  moreover have "work (mutate (mk ts) s) \<le> 2 * length (stages s) + 9" for ts
    using work_mutate_le [OF assms(3), of ts] by simp
  moreover have "work s < 2 * length (stages s) + 9"
    using work_bound [of s] by simp
  ultimately show ?thesis
    unfolding emit_def
    using assms by (simp only:) (rule returns_persistAndUpdateGraph [OF actor_listener_progress]; simp)
qed

text \<open>An event that was handled has been written and its change has been made; what follows it
  are callbacks.\<close>

lemma persist_journal:
  assumes "persistAndUpdateGraph (actorListener n) mk s = Done t" and "wf_graph s" and "ready s" and "\<And>ts. event_fresh (mk ts) s"
  obtains u where "view u = flow_step (mk (currentTimestamp s)) (view s)" and "wf_graph u" and "ready u"
    and "written (mixin u) = written (mixin s) @ [(eventIndex (mixin s), mk (currentTimestamp s))]"
    and "recovering (mixin u) = recovering (mixin s)"
    and "outbox u = outbox s" and "wf_graph t" and "journals is_callback u t"
proof -
  let ?e = "mk (currentTimestamp s)"
  have si: "snapshotInterval (mixin (tick s)) \<noteq> 0" and hg: "hasGraph s"
    using assms(3) by (simp_all add: ready_def)
  show thesis
  proof (cases rule: actor_PersistReceive_cases [OF si, of ?e])
    case (1 p m)
    then show thesis
      using assms(1) hg by (simp add: persistAndUpdateGraph_def)
  next
    case (2 m)
    let ?t = "(tick s)\<lparr>mixin := m\<rparr>"
    let ?u = "mutate ?e (update_startTime ?e ?t)"
    have wf: "wf_graph ?t" and fr: "event_fresh ?e ?t"
      using assms(2,4) event_fresh_cong [of ?t s] by simp_all
    have "UpdateWithEvent (actorListener n) ?e (\<not> recovering m) ?t = Done t"
      using assms(1) hg 2(1) by (simp add: persistAndUpdateGraph_def Let_def)
    then have "wf_graph t \<and> journals is_callback ?u t"
      using actor.keeps_UpdateWithEvent [OF wf fr] keeps_DoneD by blast
    moreover have "view ?u = flow_step ?e (view s)"
      by (metis actor_field_simps(10) flow_step_def tick_simps(4) view_mutate view_update_startTime)
    moreover have "wf_graph ?u"
      by (rule wf_graph_mutate)
         (use wf fr in \<open>auto simp: update_startTime_def event_fresh_def split: prod.splits Event.splits\<close>)
    moreover have "ready ?u"
      using assms(3) 2 by (simp add: ready_def)
    ultimately show thesis
      using 2 by (intro that [of ?u]) simp_all
  qed
qed

lemmas emit_Done = persist_journal [of "call_depth s" mk s for mk s, folded emit_def]

lemma mutate_added_keys:
  assumes "sid \<notin> stage_keys g" and "applies (StageAddedEvent f sid op cl deps ts loc caller) g"
  shows "stage_keys (mutate (StageAddedEvent f sid op cl deps ts loc caller) g) = insert sid (stage_keys g)"
  using assms
  by (auto simp: mutate_def mutate_hook_def mutate_add_def applies_iff Let_def stage_keys_put_stage
      split: option.splits)

lemma stage_keys_of_view: "view u = flow_step e (view s) \<Longrightarrow> stage_keys u = stage_keys (mutate e s)"
  by (metis flow_step_def view_mutate view_simps(7))

text \<open>The commands whose handlers rely on more than the validation: the responses of functions and
  of timers, and commands that carry a value.\<close>

definition cmd_applies :: "Command \<Rightarrow> 'a CompletionGraph_scheme \<Rightarrow> bool" where
  "cmd_applies cmd g \<longleftrightarrow>
     (case cmd of
        FaasInvocationResponse f sid fn r call \<Rightarrow>
          applies (FaasInvocationCompletedEvent f sid r None call) g
      | CompleteDelayStageRequest f sid r \<Rightarrow> sid \<in> stage_keys g \<and> r \<noteq> None
      | AddCompletedValueStageRequest f v loc caller \<Rightarrow> v \<noteq> None \<and> ResultDatum (the v) \<noteq> None
      | CompleteStageExternallyRequest f sid v loc caller \<Rightarrow> v \<noteq> None \<and> ResultDatum (the v) \<noteq> None
      | _ \<Rightarrow> True)"

lemma added_applies:
  assumes "ValidateCommand cmd s = Valid" and "isAddStageCommand cmd"
  shows "applies (StageAddedEvent f sid (GetOperation_cmd cmd) cl
    (case cmd of AddStageRequest f' op cl' deps loc caller \<Rightarrow> deps | _ \<Rightarrow> []) ts loc' caller') s"
proof -
  have "validateStages deps s" if "cmd = AddStageRequest f' op cl' deps loc caller" for f' op cl' deps loc caller
    using assms(1) that by (auto simp: ValidateCommand_def validate_by_type_def split: option.splits if_splits)
  then show ?thesis
    using assms(2) validated_add(3) [OF assms]
    by (cases cmd) (auto simp: applies_iff validateStages_def list_all_iff GetStage_None_iff)
qed

lemma returns_process_add:
  assumes wf: "wf_graph s" and inv: "flow_inv s" and good: "good strict s"
    and add: "isAddStageCommand cmd" and v: "ValidateCommand cmd s = Valid"
    and ca: "strict \<Longrightarrow> cmd_applies cmd s"
  shows "returns strict (process_cmd cmd s)"
proof -
  have fresh: "NextStageID s \<notin> stage_keys s"
    using NextStageID_fresh [of s] inv by (simp add: flow_inv_def)
  have ready: "ready s"
    using good by (simp add: good_def)
  note ap = added_applies [OF v add]
  define deps where "deps = (case cmd of AddStageRequest f' op cl' deps loc caller \<Rightarrow> deps | _ \<Rightarrow> [])"
  define mk where "mk = (\<lambda>f cl loc caller ts.
    StageAddedEvent f (NextStageID s) (GetOperation_cmd cmd) cl deps ts loc caller)"
  have emit: "returns strict (emit (mk f cl loc caller) s)" for f cl loc caller
    using ap fresh by (intro returns_emit wf good) (simp_all add: mk_def deps_def event_fresh_def)
  have after: "wf_graph t \<and> good strict t \<and> NextStageID s \<in> stage_keys t"
    if "emit (mk f cl loc caller) s = Done t" for f cl loc caller t
  proof (rule emit_Done [OF that wf ready])
    show "event_fresh (mk f cl loc caller ts) s" for ts
      using fresh by (simp add: mk_def event_fresh_def)
  next
    fix u
    assume u: "view u = flow_step (mk f cl loc caller (currentTimestamp s)) (view s)" "ready u"
      and t: "wf_graph t" "journals is_callback u t"
    have "NextStageID s \<in> stage_keys u"
      using stage_keys_of_view [OF u(1)] mutate_added_keys [OF fresh] ap
      by (simp add: mk_def deps_def)
    moreover have "good strict t"
      using keeps_emit_added [OF wf inv validated_add(1,2) [OF v add], of f "GetOperation_cmd cmd" cl deps loc caller]
        that journals_good good by (auto simp: mk_def)
    ultimately show ?thesis
      using t journals_work(2) [OF t(2) u(2)] by simp
  qed
  have tick: "good strict (tick t) = good strict t" for t
    by (simp add: good_def ready_def)
  show ?thesis
  proof (cases cmd)
    case (AddStageRequest f op cl deps' loc caller)
    then show ?thesis
      using emit [of f cl loc caller]
      by (auto simp: process_cmd_def cmd_AddStage_def mk_def deps_def Let_def intro!: returns_bind)
  next
    case (AddCompletedValueStageRequest f v loc caller)
    have "returns strict (emit (StageCompletedEvent f (NextStageID s) v) t)"
      if "emit (mk f None loc caller) s = Done t" for t
      using after [OF that] ca AddCompletedValueStageRequest
      by (intro returns_emit) (auto simp: event_fresh_def applies_iff cmd_applies_def)
    then show ?thesis
      using AddCompletedValueStageRequest emit [of f None loc caller]
      by (auto simp: process_cmd_def cmd_AddCompletedValueStage_def mk_def deps_def Let_def
          intro!: returns_bind)
  next
    case (AddDelayStageRequest f ms loc caller)
    then show ?thesis
      using emit [of f None loc caller] after [of f None loc caller]
      by (auto simp: process_cmd_def cmd_AddDelayStage_def mk_def deps_def Let_def tick
          intro!: returns_bind returns_actor_PersistReceive)
  next
    case (AddInvokeFunctionStageRequest f fn arg loc caller)
    then show ?thesis
      using emit [of f None loc caller] after [of f None loc caller]
      by (auto simp: process_cmd_def cmd_AddInvokeFunctionStage_def mk_def deps_def Let_def tick
          intro!: returns_bind returns_actor_PersistReceive)
  qed (use add in simp_all)
qed

lemma returns_process_other:
  assumes wf: "wf_graph s" and good: "good strict s"
    and cmd: "\<not> isAddStageCommand cmd" "\<not> is_CreateGraphRequest cmd"
    and v: "ValidateCommand cmd s = Valid" and ca: "strict \<Longrightarrow> cmd_applies cmd s"
  shows "returns strict (process_cmd cmd s)"
proof -
  have sid: "GetStage sid s \<noteq> None"
    if "cmd = AwaitStageResultRequest f sid t \<or> cmd = CompleteStageExternallyRequest f sid vv loc caller"
    for f sid t vv loc caller
    using that v by (auto simp: ValidateCommand_def validate_by_type_def validateStages_def
        split: if_splits validation.splits)
  show ?thesis
  proof (cases cmd)
    case (CompleteStageExternallyRequest f sid vv loc caller)
    moreover have "returns strict (emit (StageCompletedEvent f sid vv) s)"
      using CompleteStageExternallyRequest sid ca
      by (intro returns_emit wf good)
         (auto simp: event_fresh_def applies_iff cmd_applies_def GetStage_None_iff)
    ultimately show ?thesis
      using sid by (auto simp: process_cmd_def cmd_CompleteStageExternally_def Let_def intro!: returns_bind)
  next
    case (FaasInvocationResponse f sid fn r call)
    then show ?thesis
      using ca by (auto simp: process_cmd_def event_fresh_def applies_iff cmd_applies_def
          intro!: returns_emit wf good)
  next
    case (CompleteDelayStageRequest f sid r)
    have "returns strict (emit (StageCompletedEvent f sid r) s)"
      using CompleteDelayStageRequest ca
      by (intro returns_emit wf good) (auto simp: event_fresh_def applies_iff cmd_applies_def)
    then show ?thesis
      using CompleteDelayStageRequest by (simp add: process_cmd_def cmd_CompleteDelayStage_def)
  next
    case (CommitGraphRequest f)
    have "returns strict (emit (GraphCommittedEvent f) s)"
      by (intro returns_emit wf good) (auto simp: event_fresh_def applies_iff)
    then show ?thesis
      using CommitGraphRequest by (auto simp: process_cmd_def cmd_CommitGraph_def intro!: returns_bind)
  qed (use cmd sid in \<open>auto simp: process_cmd_def split: option.splits\<close>)
qed

theorem receiveCommand_returns:
  assumes "wf_graph s" and "flow_inv s" and "good strict s" and "strict \<Longrightarrow> cmd_applies cmd s"
  shows "returns strict (receiveCommand cmd s)"
proof -
  have hg: "hasGraph s"
    using assms(3) by (simp add: good_def ready_def)
  have p: "returns strict (process_cmd cmd s)"
    if "ValidateCommand cmd s = Valid" "\<not> is_CreateGraphRequest cmd"
    using that assms returns_process_add returns_process_other by blast
  have "\<not> strict" if "ValidateCommand cmd s = ValidationPanic q" for q
    using that assms(4)
    by (cases cmd) (auto simp: ValidateCommand_def validate_by_type_def validate_datum_def cmd_applies_def
        split: option.splits if_splits validation.splits)
  with p hg show ?thesis
    by (cases cmd) (auto simp: receiveCommand_def validateCmd_def split: validation.splits)
qed

end
