(* ===== verification/Listener_Settled.thy ===== *)
theory Listener_Settled
  imports Flow_Spec Listener_Contract
begin

text \<open>
  What holds of a graph between two commands: no stage is left that could be triggered
  (\<open>settled\<close>), and the graph has moved on when nothing is pending (\<open>advanced\<close>). The
  locale \<open>listener_settled\<close> extends the contract by the listener's part in this.
\<close>

definition could_trigger :: "stage_id \<Rightarrow> 'a CompletionGraph_scheme \<Rightarrow> bool" where
  "could_trigger k g \<longleftrightarrow>
     (case GetStage k g of
        None \<Rightarrow> False
      | Some st \<Rightarrow> \<not> IsResolved st \<and> \<not> triggered st \<and> fst (trigger_state st g))"

definition settled :: "'a CompletionGraph_scheme \<Rightarrow> bool" where
  "settled g \<longleftrightarrow> (\<forall>k. \<not> could_trigger k g)"

definition advanced :: "'a CompletionGraph_scheme \<Rightarrow> bool" where
  "advanced g \<longleftrightarrow>
     (state g = StateCommitted \<longrightarrow> getPendingCount MainExecPhase g \<noteq> 0) \<and>
     (state g = StateTerminating \<longrightarrow> getPendingCount TerminationExecPhase g \<noteq> 0)"

section \<open>Readiness\<close>

lemma trigger_state_cong:
  assumes "stTrigger (stage_strategy a) = stTrigger (stage_strategy b)"
    and "map (dep_result g) (dependencies a) = map (dep_result h) (dependencies b)"
  shows "trigger_state a g = trigger_state b h"
  using assms by (simp add: trigger_state_def)

lemma dep_result_upd_stage:
  assumes "\<And>st. result (f st) = result st"
  shows "dep_result (upd_stage k f g) d = dep_result g d"
  using assms by (auto simp: dep_result_def GetStage_upd_stage split: StageDependency.splits option.splits)

lemma dep_result_field_simps [simp]:
  "dep_result (next_order g) = dep_result g"
  "dep_result (g\<lparr>state := x\<rparr>) = dep_result g"
  "dep_result (g\<lparr>startTime := t\<rparr>) = dep_result g"
  "dep_result (g\<lparr>terminationChainHead := c\<rparr>) = dep_result g"
  by (auto simp: dep_result_def fun_eq_iff GetStage_def next_order_def split: StageDependency.splits)

lemma could_trigger_same:
  assumes "stages h = stages g" and "terminationRoot h = terminationRoot g"
  shows "could_trigger k h = could_trigger k g"
proof -
  have "dep_result h = dep_result g"
    using assms by (auto simp: dep_result_def GetStage_def fun_eq_iff split: StageDependency.splits)
  then have "trigger_state st h = trigger_state st g" for st
    by (simp add: trigger_state_def)
  then show ?thesis
    using assms(1) by (simp add: could_trigger_def GetStage_def split: option.splits)
qed

lemma settled_same:
  "stages h = stages g \<Longrightarrow> terminationRoot h = terminationRoot g \<Longrightarrow> settled h = settled g"
  by (simp add: settled_def could_trigger_same [of h g])

lemma could_trigger_upd:
  assumes "\<And>st. result (f st) = result st" and "\<And>st. dependencies (f st) = dependencies st"
    and "\<And>st. stage_strategy (f st) = stage_strategy st" and "\<And>st. triggered st \<Longrightarrow> triggered (f st)"
  shows "could_trigger j (upd_stage k f g) \<Longrightarrow> could_trigger j g"
    and "j \<noteq> k \<Longrightarrow> could_trigger j (upd_stage k f g) = could_trigger j g"
proof -
  have d: "dep_result (upd_stage k f g) = dep_result g"
    using dep_result_upd_stage [of f k g] assms(1) by auto
  show "could_trigger j (upd_stage k f g) \<Longrightarrow> could_trigger j g"
    using assms by (auto simp: could_trigger_def GetStage_upd_stage trigger_state_def d IsResolved_def
        split: option.splits if_splits)
  show "j \<noteq> k \<Longrightarrow> could_trigger j (upd_stage k f g) = could_trigger j g"
    by (simp add: could_trigger_def GetStage_upd_stage trigger_state_def d split: option.splits)
qed

lemma marked_not_ready:
  "GetStage k g = Some st \<Longrightarrow> \<not> could_trigger k (upd_stage k (\<lambda>st. st\<lparr>triggered := True\<rparr>) g)"
  by (simp add: could_trigger_def GetStage_upd_stage)

lemma getPendingCount_upd:
  assumes "\<And>st. IsResolved (f st) = IsResolved st" and "\<And>st. execPhase (f st) = execPhase st"
  shows "getPendingCount ph (upd_stage k f g) = getPendingCount ph g"
proof -
  have "length (filter (\<lambda>(k, s). execPhase s = ph \<and> \<not> IsResolved s) (AList.map_entry k f al)) =
      length (filter (\<lambda>(k, s). execPhase s = ph \<and> \<not> IsResolved s) al)"
    for al :: "(stage_id \<times> CompletionStage) list"
    by (induction al) (auto simp: assms)
  then show ?thesis
    by (simp add: getPendingCount_def upd_stage_def)
qed

lemma advanced_mark:
  "advanced (upd_stage k (\<lambda>st. st\<lparr>triggered := True\<rparr>) g) = advanced g"
  by (simp add: advanced_def getPendingCount_upd IsResolved_def)

lemma advanced_same: "stages h = stages g \<Longrightarrow> state h = state g \<Longrightarrow> advanced h = advanced g"
  by (simp add: advanced_def getPendingCount_def)

lemma could_trigger_key: "could_trigger k g \<Longrightarrow> k \<in> stage_keys g"
  by (auto simp: could_trigger_def GetStage_in_keys split: option.splits)

section \<open>Adding stages\<close>

lemma getPendingCount_put_new:
  assumes "ID st \<notin> stage_keys g" and "execPhase st \<noteq> ph"
  shows "getPendingCount ph (put_stage st g) = getPendingCount ph g"
  using assms by (simp add: getPendingCount_def put_stage_def stage_keys_def map_fst_update_new)

lemma advanced_mutate_hook:
  assumes "advanced g" and "canModifyGraph g" and "sid \<notin> stage_keys g"
  shows "advanced (mutate_hook sid cl g)"
proof -
  have c: "getPendingCount ph (h\<lparr>terminationChainHead := x\<rparr>) = getPendingCount ph h"
    for ph x and h :: "'a CompletionGraph_scheme"
    by (simp add: getPendingCount_def)
  show ?thesis
    using assms
    by (auto simp: advanced_def mutate_hook_def Let_def canModifyGraph_iff c getPendingCount_put_new
        getPendingCount_upd IsResolved_def split: option.splits)
qed

lemma advanced_mutate_add:
  assumes "advanced g" and "canModifyGraph g" and "sid \<notin> stage_keys g"
    and "length (stages g) < maxStages"
  shows "advanced (mutate_add sid op cl deps g)"
proof (cases "mutate_add sid op cl deps g = g")
  case True
  then show ?thesis using assms(1) by simp
next
  case False
  then obtain strat where eq: "mutate_add sid op cl deps g =
      put_stage (new_stage sid op strat cl (map StageDep deps) MainExecPhase)
        (fold (\<lambda>d. upd_stage d (add_child sid)) deps g)" (is "_ = put_stage ?n ?g")
    by (auto simp: mutate_add_def split: option.splits if_splits)
  have st: "stages (put_stage ?n ?g) = stages ?g @ [(sid, ?n)]"
    using assms(3) fold_add_child_simps(1) [of sid deps g]
    by (simp add: put_stage_def stage_keys_def map_fst_update_new del: fold_add_child_simps)
  then have "length (stages (put_stage ?n ?g)) < 2 ^ 32"
    using assms(4) by (simp add: maxStages_def)
  then have "getPendingCount MainExecPhase (put_stage ?n ?g) \<noteq> 0"
    by (auto simp: getPendingCount_zero st IsResolved_def)
  then show ?thesis
    using assms(2) eq by (auto simp: advanced_def canModifyGraph_iff)
qed

lemma dep_result_put_new:
  "ID st \<notin> stage_keys g \<Longrightarrow> result st = None \<Longrightarrow> dep_result (put_stage st g) = dep_result g"
  by (auto simp: dep_result_def fun_eq_iff GetStage_put_stage GetStage_None_iff [symmetric]
      split: StageDependency.splits option.splits)

lemma waitForAll_pending: "waitForAll [None] = (False, False, [])"
  by (simp add: waitForAll_def)

lemma settled_mutate_hook:
  assumes "settled g" and "root_ok g" and "canModifyGraph g" and "sid \<notin> stage_keys g" and "wf_graph g"
  shows "settled (mutate_hook sid cl g)"
proof -
  let ?strat = "the (getStrategyFromOperation Op_terminationHook)"
  let ?n = "new_stage sid Op_terminationHook ?strat cl [TerminationRootDep] TerminationExecPhase"
  have wait: "stTrigger ?strat = WaitForAll"
    by (simp add: getStrategyFromOperation_def)
  have root: "rawResult (terminationRoot g) = None"
    using assms(2,3) by (simp add: root_ok_def)
  have new: "dep_result h (StageDep sid) = None" if "stage_keys h = stage_keys g" for h :: "'a CompletionGraph_scheme"
    using GetStage_None_iff [of sid h] that assms(4) by (simp add: dep_result_def)
  have put: "settled (put_stage n h)"
    if "ID n = sid" "result n = None" "stage_strategy n = ?strat" "dependencies n = [TerminationRootDep]"
      "stage_keys h = stage_keys g" "terminationRoot h = terminationRoot g" "settled h"
    for n and h :: "'a CompletionGraph_scheme"
  proof -
    have d: "dep_result (put_stage n h) = dep_result h"
      using that assms(4) by (intro dep_result_put_new) simp_all
    then have t: "trigger_state st (put_stage n h) = trigger_state st h" for st
      by (simp add: trigger_state_def)
    have "trigger_state n h = (False, False, [])"
      using that(3,4,6) root by (simp add: trigger_state_def wait waitForAll_pending dep_result_def)
    then have "\<not> could_trigger k (put_stage n h)" for k
      using that(1,7) by (auto simp: could_trigger_def settled_def GetStage_put_stage t split: option.splits)
    then show ?thesis
      by (simp add: settled_def)
  qed
  show ?thesis
  proof (cases "terminationChainHead g")
    case None
    then show ?thesis
      using settled_same [of "g\<lparr>terminationChainHead := Some sid\<rparr>" g] assms(1)
      by (auto simp: mutate_hook_def Let_def intro!: put)
  next
    case (Some h)
    let ?u = "upd_stage h (\<lambda>st. st\<lparr>dependencies := [StageDep sid]\<rparr>) g"
    let ?h = "?u\<lparr>terminationChainHead := Some sid\<rparr>"
    obtain hs where hs: "GetStage h g = Some hs" "stage_strategy hs = ?strat"
      using assms(5) Some by (fastforce simp: wf_graph_iff wf_stage_def wf_static_def)
    have d: "dep_result (upd_stage x (\<lambda>st. st\<lparr>dependencies := ds\<rparr>) g) = dep_result g" for x ds
      by (rule ext, rule dep_result_upd_stage) simp
    have "\<not> could_trigger k ?u" for k
      using assms(1) hs wait new [of g]
      by (auto simp: could_trigger_def settled_def GetStage_upd_stage trigger_state_def d waitForAll_pending
          split: option.splits)
    then have "settled ?h"
      using settled_same [of ?h ?u] by (simp add: settled_def)
    then show ?thesis
      using Some by (auto simp: mutate_hook_def Let_def intro!: put)
  qed
qed

section \<open>The listener settles\<close>

locale listener_settled = listener_contract lis R C
  for lis :: "('a CompletionGraph_scheme) CompletionEventListener"
    and R :: "'a CompletionGraph_scheme \<Rightarrow> 'a CompletionGraph_scheme \<Rightarrow> bool"
    and C :: "'a CompletionGraph_scheme \<Rightarrow> 'a CompletionGraph_scheme \<Rightarrow> bool" +
  fixes live :: "'a CompletionGraph_scheme \<Rightarrow> bool"
  assumes R_live: "R g h \<Longrightarrow> live g \<Longrightarrow> live h"
    and live_more: "CompletionGraph.more g = CompletionGraph.more h \<Longrightarrow> live g \<Longrightarrow> live h"
    and R_keys: "R g h \<Longrightarrow> live g \<Longrightarrow> stage_keys h = stage_keys g"
    and execute_same: "live g \<Longrightarrow> lis (OnExecuteStage st rs) g = Done h \<Longrightarrow>
      stages h = stages g \<and> state h = state g \<and> terminationRoot h = terminationRoot g"
    and complete_settles: "wf_graph g \<Longrightarrow> live g \<Longrightarrow> ID st \<in> stage_keys g \<Longrightarrow>
      lis (OnCompleteStage st r) g = Done h \<Longrightarrow> settled h \<and> advanced h"
    and compose_settles: "wf_graph g \<Longrightarrow> live g \<Longrightarrow> ID st \<in> stage_keys g \<Longrightarrow> ID st' \<in> stage_keys g \<Longrightarrow>
      settled g \<Longrightarrow> advanced g \<Longrightarrow> lis (OnComposeStage st st') g = Done h \<Longrightarrow> settled h \<and> advanced h"
    and finished_settles: "wf_graph g \<Longrightarrow> live g \<Longrightarrow> state g = StateCommitted \<Longrightarrow>
      getPendingCount MainExecPhase g = 0 \<Longrightarrow>
      lis OnGraphExecutionFinished g = Done h \<Longrightarrow> settled h \<and> advanced h"
    and graph_complete_settles: "wf_graph g \<Longrightarrow> live g \<Longrightarrow> state g = StateTerminating \<Longrightarrow>
      getPendingCount TerminationExecPhase g = 0 \<Longrightarrow>
      settled g \<Longrightarrow> lis OnGraphComplete g = Done h \<Longrightarrow> settled h \<and> advanced h"
begin

lemma run_execution_settles:
  assumes "wf_graph g" and "live g" and "ID st \<in> stage_keys g" and "run_execution x lis st rs g = Done h"
  shows "settled h \<and> advanced h \<or>
    stages h = stages g \<and> state h = state g \<and> terminationRoot h = terminationRoot g"
  using assms execute_same [OF assms(2)] complete_settles [OF assms(1-3)]
  by (cases x)
     (auto simp: succeedWithEmpty_def invokeWithoutArgs_def invokeWithResult_def
        invokeWithResultOrError_def completeExternally_def propagateResult_def split: list.splits)

lemma try_trigger_settles:
  assumes "wf_graph g" and "live g" and "try_trigger lis k g = Done h"
  shows "settled h \<and> advanced h \<or>
    \<not> could_trigger k h \<and> (\<forall>j. j \<noteq> k \<longrightarrow> could_trigger j h = could_trigger j g) \<and> advanced h = advanced g"
proof (cases "could_trigger k g")
  case False
  then have "h = g"
    using assms(3)
    by (auto simp: try_trigger_def could_trigger_def requestTrigger_def split: option.splits if_splits prod.splits)
  with False show ?thesis by simp
next
  case True
  then obtain st status rs where st: "GetStage k g = Some st" "\<not> IsResolved st" "\<not> triggered st"
      "trigger_state st g = (True, status, rs)"
    by (cases "trigger_state (the (GetStage k g)) g") (auto simp: could_trigger_def split: option.splits)
  let ?g = "upd_stage k (\<lambda>st. st\<lparr>triggered := True\<rparr>) g"
  have "trigger status lis st rs ?g = Done h"
    using assms(3) st by (simp add: try_trigger_def requestTrigger_def)
  moreover have "ID st \<in> stage_keys ?g"
    using wf_graph_ID [OF assms(1) st(1)] GetStage_in_keys [OF st(1)] by simp
  ultimately have "settled h \<and> advanced h \<or>
      stages h = stages ?g \<and> state h = state ?g \<and> terminationRoot h = terminationRoot ?g"
    using run_execution_settles [OF wf_graph_mark [OF assms(1)]] live_more [of g ?g] assms(2)
    by (auto simp: trigger_def split: if_splits)
  then show ?thesis
  proof
    assume *: "stages h = stages ?g \<and> state h = state ?g \<and> terminationRoot h = terminationRoot ?g"
    then have c: "could_trigger j h = could_trigger j ?g" for j
      by (intro could_trigger_same) simp_all
    have "advanced h = advanced ?g"
      using * by (intro advanced_same) simp_all
    then show ?thesis
      using c marked_not_ready [OF st(1)] could_trigger_upd(2) [of "\<lambda>st. st\<lparr>triggered := True\<rparr>" _ k g]
      by (auto simp: advanced_mark)
  qed simp
qed

lemma fold_trigger_settles:
  assumes "wf_graph g" and "live g" and "fold_res (try_trigger lis) ks g = Done h"
    and "\<And>k. k \<in> D \<Longrightarrow> \<not> could_trigger k g"
  shows "wf_graph h \<and> live h \<and> stage_keys h = stage_keys g \<and>
    (\<forall>k \<in> D \<union> set ks. \<not> could_trigger k h) \<and> (advanced g \<longrightarrow> advanced h)"
  using assms
proof (induction ks arbitrary: g D)
  case (Cons k ks)
  then obtain i where i: "try_trigger lis k g = Done i" "fold_res (try_trigger lis) ks i = Done h"
    by (auto simp: bind_res_eq_Done)
  have wf: "wf_graph i" and "R g i"
    using keeps_DoneD [OF keeps_try_trigger [OF Cons.prems(1)] i(1)] by simp_all
  then have live: "live i" and keys: "stage_keys i = stage_keys g"
    using R_live R_keys Cons.prems(2) by blast+
  note step = try_trigger_settles [OF Cons.prems(1,2) i(1)]
  have "\<not> could_trigger j i" if "j \<in> insert k D" for j
    using step Cons.prems(4) [of j] that by (cases "j = k") (auto simp: settled_def)
  moreover have "advanced g \<longrightarrow> advanced i"
    using step by blast
  ultimately show ?case
    using Cons.IH [OF wf live i(2), of "insert k D"] keys by auto
qed simp

lemma triggerReadyStages_settles:
  assumes "wf_graph g" and "live g" and "triggerReadyStages lis g = Done h"
  shows "wf_graph h \<and> live h \<and> stage_keys h = stage_keys g \<and> settled h \<and> (advanced g \<longrightarrow> advanced h)"
proof -
  have live: "live (next_order g)"
    by (rule live_more [OF _ assms(2)]) simp
  have "wf_graph h \<and> live h \<and> stage_keys h = stage_keys (next_order g) \<and>
      (\<forall>k \<in> {} \<union> set (range_keys g). \<not> could_trigger k h) \<and> (advanced (next_order g) \<longrightarrow> advanced h)"
    by (rule fold_trigger_settles [OF _ live])
       (use assms in \<open>simp_all add: triggerReadyStages_def\<close>)
  moreover have "advanced (next_order g) = advanced g"
    by (rule advanced_same) simp_all
  ultimately show ?thesis
    using could_trigger_key [of _ h] by (auto simp: settled_def stage_keys_def simp del: set_map)
qed

lemma checkForExecutionFinished_settles:
  assumes "wf_graph g" and "live g" and "settled g" and "checkForExecutionFinished lis g = Done h"
  shows "settled h \<and> advanced h"
proof -
  let ?g = "next_order g"
  have g: "wf_graph ?g" "live ?g" "settled ?g"
    using assms(1-3) live_more [of g ?g] settled_same [of ?g g] by simp_all
  have p: "getPendingCount ph ?g = getPendingCount ph g" for ph
    by (simp add: getPendingCount_def)
  show ?thesis
    using assms(3,4) g p finished_settles [OF g(1,2)] graph_complete_settles [OF g(1,2)]
    by (cases "state g") (auto simp: checkForExecutionFinished_def advanced_def split: if_splits)
qed

lemma trigger_then_check_settles:
  assumes "wf_graph g" and "live g"
    and "bind_res (triggerReadyStages lis g) (checkForExecutionFinished lis) = Done h"
  shows "settled h \<and> advanced h"
  using assms(3) triggerReadyStages_settles [OF assms(1,2)] checkForExecutionFinished_settles
  by (auto simp: bind_res_eq_Done)

lemma tryCompleteComposedStage_settles:
  assumes "wf_graph g" and "live g" and "tryCompleteComposedStage lis outer inner g = Done h"
  shows "settled h \<and> advanced h \<or> h = g"
proof -
  have "ID st \<in> stage_keys g" if "GetStage i g = Some st" for i st
    using that assms(1) wf_graph_ID GetStage_in_keys by metis
  then have "settled h \<and> advanced h" if "GetStage i g = Some st" "lis (OnCompleteStage st r) g = Done h" for i st r
    using complete_settles [OF assms(1,2)] that by blast
  then show ?thesis
    using assms(3) by (auto simp: tryCompleteComposedStage_def split: option.splits if_splits)
qed

lemma handleStageCompleted_settles:
  assumes "wf_graph g" and "live g" and "handleStageCompleted lis sid r True g = Done h"
  shows "settled h \<and> advanced h"
proof -
  obtain v node where v: "r = Some v" "GetStage sid g = Some node"
    using assms(3) by (auto simp: handleStageCompleted_def split: option.splits)
  let ?h = "upd_stage sid (complete v) g"
  let ?c = "case composeReference node of None \<Rightarrow> Done ?h
    | Some outer \<Rightarrow> tryCompleteComposedStage lis outer sid ?h"
  have wf: "wf_graph ?h" and live: "live ?h"
    using assms(1,2) live_more [of g ?h] by (simp_all add: wf_graph_complete)
  obtain i where i: "?c = Done i"
      "bind_res (triggerReadyStages lis i) (checkForExecutionFinished lis) = Done h"
    using assms(3) v by (auto simp: handleStageCompleted_def bind_res_eq_Done)
  have "keeps C R ?h ?c"
    using wf by (auto simp: R_refl keeps_tryCompleteComposedStage split: option.splits)
  then have "wf_graph i \<and> live i"
    using i(1) R_live live by auto
  then show ?thesis
    using trigger_then_check_settles i(2) by blast
qed

lemma run_result_settles:
  assumes "wf_graph g" and "live g" and "settled g" and "advanced g" and "ID st \<in> stage_keys g"
    and "run_result x lis st r g = Done h"
  shows "settled h \<and> advanced h"
proof -
  have "ID st' \<in> stage_keys g" if "GetStage i g = Some st'" for i st'
    using that assms(1) wf_graph_ID GetStage_in_keys by metis
  then have "settled h \<and> advanced h" if "GetStage i g = Some st'" "lis (OnComposeStage st st') g = Done h" for i st'
    using compose_settles [OF assms(1,2,5)] assms(3,4) that by blast
  then show ?thesis
    using assms(3,4,6) complete_settles [OF assms(1,2,5)]
    by (cases x)
       (auto simp: invocationResult_def referencedStageResult_def parentStageResult_def
          noResultStrategy_def split: option.splits list.splits if_splits)
qed

lemma handleStageComposed_settles:
  assumes "wf_graph g" and "live g" and "settled g" and "advanced g"
    and "handleStageComposed lis outer inner g = Done h"
  shows "settled h \<and> advanced h"
proof -
  let ?x = "case GetStage outer g of None \<Rightarrow> None | Some _ \<Rightarrow> Some outer"
  let ?g = "upd_stage inner (\<lambda>st. st\<lparr>composeReference := ?x\<rparr>) g"
  have "?x = (if outer \<in> stage_keys g then Some outer else None)"
    by (auto simp: GetStage_None_iff dest: GetStage_in_keys split: option.splits)
  then have wf: "wf_graph ?g"
    using wf_graph_compose [OF assms(1), of inner outer] by simp
  have live: "live ?g"
    by (rule live_more [OF _ assms(2)]) simp
  have s: "settled ?g"
    unfolding settled_def
  proof
    fix k
    show "\<not> could_trigger k ?g"
      using assms(3) could_trigger_upd(1) [of "\<lambda>st. st\<lparr>composeReference := ?x\<rparr>" k inner g]
      by (auto simp: settled_def)
  qed
  have a: "advanced ?g"
    using assms(4) by (simp add: advanced_def getPendingCount_upd IsResolved_def)
  have "tryCompleteComposedStage lis outer inner ?g = Done h"
    using assms(5) by (simp add: handleStageComposed_def split: if_splits)
  then show ?thesis
    using tryCompleteComposedStage_settles [OF wf live] s a by blast
qed

text \<open>Handling an event in a settled graph leaves it settled.\<close>

lemma handleStageAdded_settles:
  assumes "wf_graph g" and "live g" and "op \<noteq> Op_terminationHook"
    and "advanced (mutate_add sid op cl deps g)"
    and "handleStageAdded lis sid op cl deps True g = Done h"
  shows "settled h \<and> advanced h"
proof -
  have eq: "handleStageAdded lis sid op cl deps True g = triggerReadyStages lis (mutate_add sid op cl deps g)"
    using assms(5)
    by (auto simp: handleStageAdded_def mutate_add_def GetStage_None_iff Let_def split: option.splits if_splits)
  have "live (mutate_add sid op cl deps g)"
    by (rule live_more [OF _ assms(2)]) (simp add: mutate_add_def split: option.splits)
  then show ?thesis
    using triggerReadyStages_settles [OF wf_graph_mutate_add [OF assms(1,3)]] assms(4,5) eq by metis
qed

theorem UpdateWithEvent_settles:
  assumes "wf_graph g" and "live g" and "event_fresh e g"
    and pre: "settled g" "advanced g"
    and added: "is_StageAddedEvent e \<Longrightarrow> EvtOp e \<noteq> Op_terminationHook \<Longrightarrow> advanced (mutate e (update_startTime e g))"
    and hook: "is_StageAddedEvent e \<Longrightarrow> EvtOp e = Op_terminationHook \<Longrightarrow>
      settled (mutate e (update_startTime e g)) \<and> advanced (mutate e (update_startTime e g))"
    and "UpdateWithEvent lis e True g = Done h"
  shows "settled h \<and> advanced h \<or> is_GraphCompletedEvent e"
proof -
  let ?g = "update_startTime e g"
  have g: "wf_graph ?g" "live ?g" "settled ?g" "advanced ?g"
    using assms(1,2) pre live_more [of g ?g] settled_same [of ?g g] advanced_same [of ?g g]
    by (auto simp: update_startTime_def split: prod.splits)
  show ?thesis
  proof (cases e)
    case (GraphCommittedEvent f ts)
    let ?h = "?g\<lparr>state := StateCommitted\<rparr>"
    have "settled ?h" "live ?h"
      using g settled_same [of ?h ?g] live_more [of ?g ?h] by simp_all
    then show ?thesis
      using GraphCommittedEvent g(1) assms(8) checkForExecutionFinished_settles [of ?h h]
      by (simp add: UpdateWithEvent_def handleCommitted_def)
  next
    case (GraphTerminatingEvent f fn status ts)
    let ?h = "mutate e ?g"
    have "live ?h"
      using GraphTerminatingEvent g(2) live_more [of ?g ?h] by (simp add: mutate_def)
    then show ?thesis
      using GraphTerminatingEvent g(1) assms(8) trigger_then_check_settles [of ?h h]
      by (simp add: UpdateWithEvent_def handleTerminating_def mutate_def Let_def)
  next
    case (StageAddedEvent f sid op cl deps ts loc caller)
    then show ?thesis
      using g assms(8) added hook handleStageAdded_settles [OF g(1,2), of op sid cl deps h]
      by (cases "op = Op_terminationHook")
         (simp_all add: UpdateWithEvent_def mutate_def handleAddTerminationHook_mutate)
  next
    case (StageCompletedEvent f sid r ts)
    then show ?thesis
      using assms(8) handleStageCompleted_settles [OF g(1,2)] by (simp add: UpdateWithEvent_def)
  next
    case (StageComposedEvent f sid inner ts)
    then show ?thesis
      using assms(8) handleStageComposed_settles [OF g] by (simp add: UpdateWithEvent_def)
  next
    case (FaasInvocationCompletedEvent f sid r ts call)
    then obtain st where st: "GetStage sid ?g = Some st"
        "run_result (stResultHandling (stage_strategy st)) lis st r ?g = Done h"
      using assms(8)
      by (auto simp: UpdateWithEvent_def handleInvokeComplete_def handleResult_def Let_def split: option.splits)
    then have "ID st \<in> stage_keys ?g"
      using wf_graph_ID [OF g(1)] GetStage_in_keys by metis
    then show ?thesis
      using run_result_settles [OF g _ st(2)] by blast
  qed (use g assms(8) in \<open>simp_all add: UpdateWithEvent_def Let_def\<close>)
qed

lemma UpdateWithEvent_completion_settles:
  assumes "wf_graph g" and "live g" and "UpdateWithEvent lis (StageCompletedEvent f sid r ts) True g = Done h"
  shows "settled h \<and> advanced h"
proof -
  let ?g = "update_startTime (StageCompletedEvent f sid r ts) g"
  have "wf_graph ?g" "live ?g"
    using assms(1,2) live_more [of g ?g] by (auto simp: update_startTime_def split: prod.splits)
  then show ?thesis
    using handleStageCompleted_settles assms(3) by (simp add: UpdateWithEvent_def)
qed

lemma UpdateWithEvent_terminating_settles:
  assumes "wf_graph g" and "live g" and "UpdateWithEvent lis (GraphTerminatingEvent f fn x ts) True g = Done h"
  shows "settled h \<and> advanced h"
proof -
  let ?g = "mutate (GraphTerminatingEvent f fn x ts) (update_startTime (GraphTerminatingEvent f fn x ts) g)"
  have "wf_graph ?g" "live ?g"
    using assms(1,2) live_more [of g ?g]
    by (auto simp: update_startTime_def mutate_def split: prod.splits)
  then show ?thesis
    using trigger_then_check_settles [of ?g h] assms(3)
    by (simp add: UpdateWithEvent_def handleTerminating_def mutate_def Let_def)
qed

end

end
