(* ===== verification/Actor_Settled.thy ===== *)
theory Actor_Settled
  imports Actor_Progress Listener_Settled
begin

text \<open>
  Between two commands the actor's graph is settled and has advanced: no stage that could
  run has been forgotten, and the flow has terminated if nothing is pending.
\<close>

definition live :: "graphActor \<Rightarrow> bool" where
  "live s \<longleftrightarrow> ready s \<and> \<not> recovering (mixin s)"

lemma journals_live: "journals P s t \<Longrightarrow> live s \<Longrightarrow> live t"
  by (auto simp: live_def journals_def)

lemma live_of_more: "CompletionGraph.more s = CompletionGraph.more t \<Longrightarrow> live s \<Longrightarrow> live t"
  using actor_of_more [of s t] by (simp add: live_def ready_def)

lemma persist_Done:
  assumes "persistAndUpdateGraph lis mk s = Done t" and "ready s"
  obtains m where
    "UpdateWithEvent lis (mk (currentTimestamp s)) (\<not> recovering (mixin s)) ((tick s)\<lparr>mixin := m\<rparr>) = Done t"
    and "recovering m = recovering (mixin s)" and "snapshotInterval m = snapshotInterval (mixin s)"
proof -
  have si: "snapshotInterval (mixin (tick s)) \<noteq> 0" and hg: "hasGraph s"
    using assms(2) by (simp_all add: ready_def)
  show thesis
    using assms(1) hg that
    by (cases rule: actor_PersistReceive_cases [OF si, of "mk (currentTimestamp s)"])
       (auto simp: persistAndUpdateGraph_def Let_def)
qed

lemma live_tick: "live s \<Longrightarrow> recovering m = recovering (mixin s) \<Longrightarrow>
   snapshotInterval m = snapshotInterval (mixin s) \<Longrightarrow> live ((tick s)\<lparr>mixin := m\<rparr>)"
  by (simp add: live_def ready_def)

lemma execute_Done:
  assumes "actor_OnExecuteStage st rs s = Done t"
  shows "stages t = stages s \<and> state t = state s \<and> terminationRoot t = terminationRoot s"
proof -
  obtain u where u: "actor_PersistReceive
      (FaasInvocationStartedEvent (GraphID s) (ID st) (currentTimestamp s) (FunctionID s)) (tick s) = Done u"
    and t: "\<exists>x. t = send x u"
    using assms by (auto simp: actor_OnExecuteStage_def bind_res_eq_Done)
  have "\<exists>m. u = (tick s)\<lparr>mixin := m\<rparr>"
    using res_all_Done [OF actor_PersistReceive_graph u] .
  then show ?thesis
    using t by (auto simp: send_def)
qed

lemma settled_tick: "settled ((tick s)\<lparr>mixin := m\<rparr>) = settled s"
  by (rule settled_same) simp_all

lemma advanced_tick: "advanced ((tick s)\<lparr>mixin := m\<rparr>) = advanced s"
  by (rule advanced_same) simp_all

lemma live_keys: "journals is_callback s t \<Longrightarrow> live s \<Longrightarrow> stage_keys t = stage_keys s"
  by (simp add: live_def journals_work(2))

lemma actor_listener_settled: "listener_settled (actorListener n) (journals is_callback) torn live"
proof (induction n)
  case 0
  show ?case
    by (intro listener_settled.intro listener_settled_axioms.intro actor_listener_contract)
       (simp_all add: live_keys journals_live, erule (1) live_of_more)
next
  case (Suc n)
  note lis = listener_settled.UpdateWithEvent_completion_settles [OF Suc]
    listener_settled.UpdateWithEvent_terminating_settles [OF Suc]
    listener_settled.UpdateWithEvent_settles [OF Suc]
  have ready: "ready g" "\<not> recovering (mixin g)" if "live g" for g
    using that by (simp_all add: live_def)
  show ?case
  proof (intro listener_settled.intro listener_settled_axioms.intro actor_listener_contract)
    fix g h :: graphActor and st :: CompletionStage and r
    assume g: "wf_graph g" "live g" and h: "actorListener (Suc n) (OnCompleteStage st r) g = Done h"
    show "settled h \<and> advanced h"
    proof (rule persist_Done [OF h [simplified actor_OnCompleteStage_def actorListener.simps] ready(1) [OF g(2)]])
      fix m
      assume *: "UpdateWithEvent (actorListener n) (StageCompletedEvent (GraphID g) (ID st) r (currentTimestamp g))
          (\<not> recovering (mixin g)) ((tick g)\<lparr>mixin := m\<rparr>) = Done h"
        "recovering m = recovering (mixin g)" "snapshotInterval m = snapshotInterval (mixin g)"
      show ?thesis
        using lis(1) [OF _ live_tick [OF g(2) *(2,3)]] *(1) g(1) ready(2) [OF g(2)] by simp
    qed
  next
    fix g h :: graphActor and st st' :: CompletionStage
    assume g: "wf_graph g" "live g" "settled g" "advanced g"
      and h: "actorListener (Suc n) (OnComposeStage st st') g = Done h"
    show "settled h \<and> advanced h"
    proof (rule persist_Done [OF h [simplified actor_OnComposeStage_def actorListener.simps] ready(1) [OF g(2)]])
      fix m
      let ?t = "(tick g)\<lparr>mixin := m\<rparr>"
      let ?e = "StageComposedEvent (GraphID g) (ID st) (ID st') (currentTimestamp g)"
      assume *: "UpdateWithEvent (actorListener n) ?e (\<not> recovering (mixin g)) ?t = Done h"
        "recovering m = recovering (mixin g)" "snapshotInterval m = snapshotInterval (mixin g)"
      show ?thesis
        using lis(3) [of ?t ?e h] * g live_tick [OF g(2) *(2,3)] ready(2) [OF g(2)]
        by (simp add: settled_tick advanced_tick event_fresh_def)
    qed
  next
    fix g h :: graphActor
    assume g: "wf_graph g" "live g" and h: "actorListener (Suc n) OnGraphExecutionFinished g = Done h"
    have "persistAndUpdateGraph (actorListener n)
        (GraphTerminatingEvent (GraphID g) (FunctionID g) Status_succeeded) g = Done h"
      using h ready(2) [OF g(2)] by (simp add: actor_OnGraphExecutionFinished_def)
    then show "settled h \<and> advanced h"
    proof (rule persist_Done [OF _ ready(1) [OF g(2)]])
      fix m
      assume *: "UpdateWithEvent (actorListener n)
          (GraphTerminatingEvent (GraphID g) (FunctionID g) Status_succeeded (currentTimestamp g))
          (\<not> recovering (mixin g)) ((tick g)\<lparr>mixin := m\<rparr>) = Done h"
        "recovering m = recovering (mixin g)" "snapshotInterval m = snapshotInterval (mixin g)"
      show ?thesis
        using lis(2) [OF _ live_tick [OF g(2) *(2,3)]] *(1) g(1) ready(2) [OF g(2)] by simp
    qed
  next
    fix g h :: graphActor
    assume g: "wf_graph g" "live g" "settled g" and h: "actorListener (Suc n) OnGraphComplete g = Done h"
    obtain u x where u: "persistAndUpdateGraph (actorListener n) (GraphCompletedEvent (GraphID g) (FunctionID g)) g = Done u"
      and hx: "h = send x u"
      using h ready(2) [OF g(2)] by (auto simp: actor_OnGraphComplete_def bind_res_eq_Done)
    have "stages u = stages g \<and> terminationRoot u = terminationRoot g \<and> state u = StateCompleted"
      by (rule persist_Done [OF u ready(1) [OF g(2)]])
         (auto simp: UpdateWithEvent_def handleCompleted_def update_startTime_def Let_def split: prod.splits if_splits)
    then have "stages h = stages g" "terminationRoot h = terminationRoot g" "state h = StateCompleted"
      by (simp_all add: hx send_def)
    then show "settled h \<and> advanced h"
      using g(3) settled_same [of h g] by (simp add: advanced_def)
  qed (simp_all add: live_keys journals_live execute_Done, erule (1) live_of_more)
qed

interpretation actor_settled: listener_settled "actorListener n" "journals is_callback" torn live for n
  by (rule actor_listener_settled)

section \<open>Commands\<close>

lemma update_startTime_simps [simp]:
  "stages (update_startTime e g) = stages g" "state (update_startTime e g) = state g"
  "terminationRoot (update_startTime e g) = terminationRoot g"
  "terminationChainHead (update_startTime e g) = terminationChainHead g"
  "stage_keys (update_startTime e g) = stage_keys g" "wf_graph (update_startTime e g) = wf_graph g"
  "canModifyGraph (update_startTime e g) = canModifyGraph g"
  by (auto simp: update_startTime_def canModifyGraph_def split: prod.splits)

lemma added_settles:
  assumes s: "wf_graph s" "settled s" "advanced s" "flow_inv s" and "legal e s" and "is_StageAddedEvent e"
    and t: "stages t = stages s" "state t = state s" "terminationRoot t = terminationRoot s"
      "terminationChainHead t = terminationChainHead s"
  shows "advanced (mutate e t)" and "EvtOp e = Op_terminationHook \<Longrightarrow> settled (mutate e t)"
proof -
  obtain f op cl deps ts loc caller where e: "e = StageAddedEvent f (NextStageID s) op cl deps ts loc caller"
    and mod: "canModifyGraph s" "length (stages s) < maxStages"
    using assms(5,6) by (cases e) (auto simp: legal_def)
  have fresh: "NextStageID s \<notin> stage_keys t"
    using NextStageID_fresh [of s] s(4) t by (simp add: flow_inv_def stage_keys_def)
  have g: "wf_graph t" "settled t" "advanced t" "canModifyGraph t" "root_ok t" "length (stages t) < maxStages"
    using s mod t graph_of_cong(1) [of t s] settled_same [of t s] advanced_same [of t s]
    by (simp_all add: flow_inv_def root_ok_def canModifyGraph_def)
  show "advanced (mutate e t)"
    using e g fresh by (simp add: mutate_def advanced_mutate_hook advanced_mutate_add)
  show "settled (mutate e t)" if "EvtOp e = Op_terminationHook"
    using that e g fresh by (simp add: mutate_def settled_mutate_hook)
qed

lemma emit_settles:
  assumes "emit mk s = Done t" and s: "wf_graph s" "live s" "settled s" "advanced s" "flow_inv s"
    and e: "\<And>ts. event_fresh (mk ts) s" "\<And>ts. legal (mk ts) s" "\<And>ts. \<not> is_GraphCompletedEvent (mk ts)"
  shows "settled t \<and> advanced t"
proof (rule persist_Done [OF assms(1) [unfolded emit_def]])
  show "ready s"
    using s(2) by (simp add: live_def)
next
  fix m
  let ?e = "mk (currentTimestamp s)" and ?t = "(tick s)\<lparr>mixin := m\<rparr>"
  assume *: "UpdateWithEvent (actorListener (call_depth s)) ?e (\<not> recovering (mixin s)) ?t = Done t"
    "recovering m = recovering (mixin s)" "snapshotInterval m = snapshotInterval (mixin s)"
  have "terminationChainHead (tick s) = terminationChainHead s"
    by (simp add: tick_def)
  then have a: "advanced (mutate ?e (update_startTime ?e ?t))"
      "EvtOp ?e = Op_terminationHook \<Longrightarrow> settled (mutate ?e (update_startTime ?e ?t))"
    if "is_StageAddedEvent ?e"
    using that added_settles [OF s(1,3,4,5) e(2) that, of "update_startTime ?e ?t"] by simp_all
  have "settled t \<and> advanced t \<or> is_GraphCompletedEvent ?e"
    by (rule actor_settled.UpdateWithEvent_settles [of ?t ?e "call_depth s"])
       (use s * a e(1) live_tick [OF s(2) *(2,3)] event_fresh_cong [of ?t s] in
          \<open>simp_all add: settled_tick advanced_tick live_def\<close>)
  then show ?thesis
    using e(3) by blast
qed

lemma settled_fields [simp]:
  "settled (send x s) = settled s" "advanced (send x s) = advanced s"
  "settled (tick s) = settled s" "advanced (tick s) = advanced s"
  "settled (next_order s) = settled s" "advanced (next_order s) = advanced s"
  "settled (s\<lparr>mixin := m\<rparr>) = settled s" "advanced (s\<lparr>mixin := m\<rparr>) = advanced s"
  "settled (scheduleDelay f k d s) = settled s" "advanced (scheduleDelay f k d s) = advanced s"
  by (rule settled_same advanced_same; simp add: send_def scheduleDelay_def Let_def)+

lemma persist_fields:
  "actor_PersistReceive e s = Done t \<Longrightarrow> settled t = settled s \<and> advanced t = advanced s"
  using res_all_Done [OF actor_PersistReceive_graph] by fastforce

lemma flow_inv_journal: "journals P s t \<Longrightarrow> ready s \<Longrightarrow> flow_inv s \<Longrightarrow> flow_inv t"
  using flow_run_inv [of "view s" _ "view t"] by (auto simp: journals_def)

lemma process_add_settles:
  assumes s: "wf_graph s" "live s" "settled s" "advanced s" "flow_inv s"
    and add: "isAddStageCommand cmd" and v: "ValidateCommand cmd s = Valid"
    and t: "process_cmd cmd s = Done t"
  shows "settled t \<and> advanced t"
proof -
  have ready: "ready s"
    using s(2) by (simp add: live_def)
  define mk where "mk = (\<lambda>f op cl deps loc caller ts.
    StageAddedEvent f (NextStageID s) op cl deps ts loc caller)"
  have fresh: "event_fresh (mk f op cl deps loc caller ts) s" and legal: "legal (mk f op cl deps loc caller ts) s"
    for f op cl deps loc caller ts
    using NextStageID_fresh [of s] s(5) validated_add(1,2) [OF v add]
    by (simp_all add: mk_def event_fresh_def legal_def flow_inv_def)
  have a: "settled u \<and> advanced u" if "emit (mk f op cl deps loc caller) s = Done u" for u f op cl deps loc caller
    by (rule emit_settles [OF that s fresh legal]) (simp add: mk_def)
  have c: "settled w \<and> advanced w"
    if "emit (mk f op cl deps loc caller) s = Done u" "emit (StageCompletedEvent f' k r) u = Done w"
    for u w f op cl deps loc caller f' k r
  proof (rule emit_settles [OF that(2)])
    have "wf_graph u" "journaled s u"
      using keeps_emit [of s "mk f op cl deps loc caller", OF s(1) fresh legal] that(1) by simp_all
    then show "wf_graph u" "live u" "flow_inv u"
      using journals_live s(2) flow_inv_journal ready s(5) by blast+
  qed (use a [OF that(1)] in \<open>simp_all add: event_fresh_def legal_def\<close>)
  show ?thesis
  proof (cases cmd)
    case (AddStageRequest f op cl deps loc caller)
    then show ?thesis
      using t a [of f op cl deps loc caller]
      by (auto simp: process_cmd_def cmd_AddStage_def mk_def Let_def bind_res_eq_Done)
  next
    case (AddCompletedValueStageRequest f r loc caller)
    then show ?thesis
      using t c [of f Op_completedValue None "[]" loc caller]
      by (auto simp: process_cmd_def cmd_AddCompletedValueStage_def mk_def Let_def bind_res_eq_Done)
  next
    case (AddDelayStageRequest f ms loc caller)
    then show ?thesis
      using t a [of f Op_delay None "[]" loc caller]
      by (auto simp: process_cmd_def cmd_AddDelayStage_def mk_def Let_def bind_res_eq_Done dest: persist_fields)
  next
    case (AddInvokeFunctionStageRequest f fn arg loc caller)
    then show ?thesis
      using t a [of f Op_invokeFunction None "[]" loc caller]
      by (auto simp: process_cmd_def cmd_AddInvokeFunctionStage_def mk_def Let_def bind_res_eq_Done
          dest: persist_fields)
  qed (use add in simp_all)
qed

lemma process_other_settles:
  assumes s: "wf_graph s" "live s" "settled s" "advanced s" "flow_inv s"
    and "\<not> isAddStageCommand cmd" and "\<not> is_CreateGraphRequest cmd"
    and t: "process_cmd cmd s = Done t"
  shows "settled t \<and> advanced t"
proof -
  have e: "settled u \<and> advanced u"
    if "emit mk s = Done u" "\<And>ts. \<not> is_StageAddedEvent (mk ts)" "\<And>ts. legal (mk ts) s"
      "\<And>ts. \<not> is_GraphCompletedEvent (mk ts)" for mk u
    by (rule emit_settles [OF that(1) s _ that(3,4)]) (rule not_added_fresh [OF that(2)])
  note comp = e [of "StageCompletedEvent f k r" for f k r, simplified legal_def, simplified]
  show ?thesis
  proof (cases cmd)
    case (CompleteStageExternallyRequest f k r loc caller)
    then show ?thesis
      using s(3,4) t comp
      by (auto simp: process_cmd_def cmd_CompleteStageExternally_def Let_def bind_res_eq_Done
          split: option.splits if_splits)
  next
    case (CommitGraphRequest f)
    then show ?thesis
      using s(3,4) t e [of "GraphCommittedEvent f"]
      by (auto simp: process_cmd_def cmd_CommitGraph_def bind_res_eq_Done legal_def IsCommitted_iff
          split: if_splits)
  next
    case (CompleteDelayStageRequest f k r)
    then show ?thesis
      using s(3,4) t comp by (auto simp: process_cmd_def cmd_CompleteDelayStage_def split: if_splits)
  next
    case (FaasInvocationResponse f k fn r call)
    then show ?thesis
      using t e [of "\<lambda>ts. FaasInvocationCompletedEvent f k r ts call"]
      by (simp add: process_cmd_def legal_def)
  qed (use assms in \<open>auto simp: process_cmd_def split: option.splits\<close>)
qed

theorem receiveCommand_settles:
  assumes "wf_graph s" and "live s" and "settled s" and "advanced s" and "flow_inv s"
    and "receiveCommand cmd s = Done t"
  shows "settled t \<and> advanced t"
proof -
  have hg: "hasGraph s"
    using assms(2) by (simp add: live_def ready_def)
  have "settled t \<and> advanced t"
    if "ValidateCommand cmd s = Valid" "\<not> is_CreateGraphRequest cmd" "process_cmd cmd s = Done t"
    using that assms(1-5) process_add_settles process_other_settles by blast
  then show ?thesis
    using assms(3,4,6) hg
    by (cases cmd) (auto simp: receiveCommand_def validateCmd_def split: validation.splits if_splits)
qed

end
