(* ===== verification/Actor_Runs.thy ===== *)
theory Actor_Runs
  imports Actor_Settled
begin

text \<open>
  The life of a graph actor: it starts without a graph and receives messages. \<open>reachable\<close>
  is the set of states it may be in between two messages, until it panics or is stopped, and
  \<open>actor_inv\<close> holds in all of them; a snapshot interval of 0 is allowed, but then it never has a graph, since
  the first event makes it panic. When a message makes the actor panic it is stopped or restarted from its
  journal; what holds at that moment is stated of the state in which it panicked, and what a replay makes of a
  journal in the theory \<open>Actor_Replay\<close>.
\<close>

section \<open>The journal determines the graph\<close>

definition rebuild_step :: "Event \<Rightarrow> CompletionGraph option \<Rightarrow> CompletionGraph option" where
  "rebuild_step e g =
     (case e of
        GraphCreatedEvent f fn ts \<Rightarrow> Some (graph_New f fn 0 (\<lambda>_. []) ())
      | _ \<Rightarrow> map_option (flow_step e) g)"

definition rebuild :: "Event list \<Rightarrow> CompletionGraph option" where
  "rebuild es = fold rebuild_step es None"

lemma rebuild_run: "flow_run g es h \<Longrightarrow> fold rebuild_step es (Some g) = Some h"
proof (induction rule: flow_run.induct)
  case (run_snoc g es h e)
  then show ?case
    by (cases e) (simp_all add: rebuild_step_def legal_def)
qed simp

lemma journal_append:
  assumes "journals P s t" and "ready s"
  obtains es where "journal t = journal s @ es" and "flow_run (view s) es (view t)" and "list_all P es"
  using assms by (auto simp: journals_def journal_def intro: that)

definition indexed :: "graphActor \<Rightarrow> bool" where
  "indexed s \<longleftrightarrow>
     map fst (written (mixin s)) = map int [0..<length (written (mixin s))] \<and>
     eventIndex (mixin s) = int (length (written (mixin s)))"

definition consistent :: "graphActor \<Rightarrow> bool" where
  "consistent s \<longleftrightarrow>
     (\<exists>f fn ts es. journal s = GraphCreatedEvent f fn ts # es \<and>
        flow_run (graph_New f fn 0 (\<lambda>_. []) ()) es (view s)) \<and> indexed s"

lemma consistent_rebuild: "consistent s \<Longrightarrow> rebuild (journal s) = Some (view s)"
  using rebuild_run by (fastforce simp: consistent_def rebuild_def rebuild_step_def)

lemma map_upt_shift: "map (\<lambda>i. int n + int i) [0..<k] = map int [n..<n + k]"
  by (induction k) simp_all

lemma indexed_journals:
  assumes "indexed s" and "journals P s t" and "ready s"
  shows "indexed t"
proof -
  obtain es where es: "written (mixin t) =
      written (mixin s) @ zip (map (\<lambda>i. eventIndex (mixin s) + int i) [0..<length es]) es"
      "eventIndex (mixin t) = eventIndex (mixin s) + int (length es)"
    using assms(2,3) by (auto simp: journals_def)
  have "map int [0..<n + k] = map int [0..<n] @ map int [n..<n + k]" for n k
    by (simp flip: map_append add: upt_add_eq_append [of 0 n k, simplified])
  then show ?thesis
    using assms(1) es by (simp add: indexed_def map_upt_shift)
qed

lemma consistent_journals:
  assumes "consistent s" and "journals P s t" and "ready s"
  shows "consistent t"
proof (rule journal_append [OF assms(2,3)])
  fix es
  assume "journal t = journal s @ es" "flow_run (view s) es (view t)"
  then show ?thesis
    using assms(1) flow_run_append indexed_journals [OF _ assms(2,3)]
    by (fastforce simp: consistent_def)
qed

section \<open>The invariant of the actor\<close>

definition actor_inv :: "graphActor \<Rightarrow> bool" where
  "actor_inv s \<longleftrightarrow>
     \<not> recovering (mixin s) \<and>
     (if hasGraph s
      then snapshotInterval (mixin s) \<noteq> 0 \<and> wf_graph s \<and> flow_inv s \<and> consistent s \<and> settled s \<and> advanced s
      else written (mixin s) = [] \<and> eventIndex (mixin s) = 0)"

lemma flow_inv_send [simp]: "flow_inv (send x s) = flow_inv s"
  using flow_inv_view [of "send x s"] flow_inv_view [of s] by simp

lemma actor_inv_live: "actor_inv s \<Longrightarrow> hasGraph s \<Longrightarrow> live s"
  by (simp add: actor_inv_def live_def ready_def)

definition fresh_actor :: "graphActor \<Rightarrow> bool" where
  "fresh_actor s \<longleftrightarrow>
     \<not> hasGraph s \<and> written (mixin s) = [] \<and> eventIndex (mixin s) = 0 \<and> \<not> recovering (mixin s)"

lemma initGraph_simps [simp]:
  "mixin (initGraph f fn s) = mixin s" "hasGraph (initGraph f fn s)" "outbox (initGraph f fn s) = outbox s"
  "stages (initGraph f fn s) = []" "state (initGraph f fn s) = StateInitial"
  "terminationChainHead (initGraph f fn s) = None" "GraphID (initGraph f fn s) = f"
  "FunctionID (initGraph f fn s) = fn"
  by (cases s; simp add: initGraph_def graph_New_def tick_def)+

lemma view_initGraph: "view (initGraph f fn s) = graph_New f fn 0 (\<lambda>_. []) ()"
  by (simp add: initGraph_def view_def graph_New_def)

lemma initGraph_inv:
  "wf_graph (initGraph f fn s)" "flow_inv (initGraph f fn s)" "settled (initGraph f fn s)"
  "advanced (initGraph f fn s)"
proof -
  show "flow_inv (initGraph f fn s)"
    using flow_inv_view [of "initGraph f fn s"] flow_inv_new [of f fn 0 "\<lambda>_. []" "()"]
    by (simp add: view_initGraph)
qed (simp_all add: wf_graph_def settled_def could_trigger_def GetStage_def advanced_def)

lemma create_inv:
  assumes "actor_inv s" and "\<not> hasGraph s" and "cmd_CreateGraph f fn s = Done t"
  shows "actor_inv t \<and> hasGraph t"
proof -
  let ?e = "GraphCreatedEvent f fn (currentTimestamp s)"
  have w: "written (mixin s) = []" "eventIndex (mixin s) = 0" "\<not> recovering (mixin s)"
    using assms(1,2) by (simp_all add: actor_inv_def)
  obtain u where u: "actor_PersistReceive ?e (tick s) = Done u"
    and t: "t = send (Respond (CreateGraphResponse f)) (initGraph f fn u)"
    using assms(3) by (auto simp: cmd_CreateGraph_def bind_res_eq_Done)
  have si: "snapshotInterval (mixin (tick s)) \<noteq> 0"
    by (rule actor_PersistReceive_interval [OF u])
  have "written (mixin u) = [(0, ?e)] \<and> eventIndex (mixin u) = 1 \<and> \<not> recovering (mixin u) \<and>
      snapshotInterval (mixin u) \<noteq> 0"
    using u w si by (cases rule: actor_PersistReceive_cases [OF si, of ?e]) auto
  then show ?thesis
    by (simp add: t actor_inv_def initGraph_inv consistent_def indexed_def journal_def view_initGraph)
qed

lemma create_panic:
  assumes "actor_inv s" and "\<not> hasGraph s" and "cmd_CreateGraph f fn s = Panic p t"
  shows "\<not> hasGraph t \<and> (journal t = [] \<or> (\<exists>e. journal t = [e]))"
proof -
  let ?e = "GraphCreatedEvent f fn (currentTimestamp s)"
  have "written (mixin s) = []"
    using assms(1,2) by (simp add: actor_inv_def)
  then show ?thesis
    using assms(2,3)
    by (auto simp: cmd_CreateGraph_def actor_PersistReceive_def PersistReceive_def provider_PersistEvent_def journal_def Let_def
        split: option.splits store_fault.splits if_splits)
qed

lemma command_inv:
  assumes inv: "actor_inv s" and t: "receiveCommand cmd s = Done t"
  shows "actor_inv t"
proof (cases "hasGraph s")
  case True
  then have s: "wf_graph s" "flow_inv s" "consistent s" "settled s" "advanced s"
    and live: "live s" and ready: "ready s"
    using inv actor_inv_live [OF inv True] by (simp_all add: actor_inv_def live_def)
  have "wf_graph t" "journaled s t"
    using receiveCommand_journaled [OF s(1,2) True, of cmd] t by simp_all
  moreover have "settled t \<and> advanced t"
    by (rule receiveCommand_settles [OF s(1) live s(4,5,2) t])
  ultimately show ?thesis
    using journals_live [of _ s t] live consistent_journals [OF s(3) _ ready] flow_inv_journal [OF _ ready s(2)]
    by (auto simp: actor_inv_def live_def ready_def)
next
  case False
  have "actor_inv (send x s) = actor_inv s" for x
    using False by (simp add: actor_inv_def)
  then show ?thesis
    using False inv t create_inv [OF inv False]
    by (cases cmd) (auto simp: receiveCommand_def validateCmd_def process_cmd_def)
qed

lemma recover_inv:
  assumes inv: "actor_inv s" and "hasGraph s" and t: "Recover (actorListener n) s = Done t"
  shows "actor_inv t \<and> hasGraph t"
proof -
  have s: "wf_graph s" "flow_inv s" "consistent s" and live: "live s" and ready: "ready s"
    using inv assms(2) actor_inv_live [OF inv assms(2)] by (simp_all add: actor_inv_def live_def)
  have k: "wf_graph t" "journals is_callback s t"
    using actor.keeps_Recover [OF s(1), of n] t by simp_all
  obtain u where u: "fold_res (fail_lost_stage (actorListener n)) (range_keys s) (next_order s) = Done u"
    "bind_res (triggerReadyStages (actorListener n) u) (checkForExecutionFinished (actorListener n)) = Done t"
    using t by (auto simp: Recover_def bind_res_eq_Done)
  have "keeps torn (journals is_callback) (next_order s) (fold_res (fail_lost_stage (actorListener n)) (range_keys s) (next_order s))"
    by (rule actor.keeps_fold) (simp_all add: s actor.keeps_fail_lost_stage)
  then have "wf_graph u" "live u"
    using u(1) live journals_live [of is_callback "next_order s" u] by (simp_all add: live_def ready_def)
  then have "settled t \<and> advanced t"
    using actor_settled.trigger_then_check_settles u(2) by blast
  then show ?thesis
    using k journals_live [OF k(2) live] consistent_journals [OF s(3) k(2) ready] flow_inv_journal [OF k(2) ready s(2)]
    by (simp add: actor_inv_def live_def ready_def)
qed

lemma message_inv:
  assumes inv: "actor_inv s" and t: "Receive msg s = Done t"
  shows "actor_inv t"
proof -
  have send: "actor_inv (send x u) = actor_inv u" for x u
    by (simp add: actor_inv_def consistent_def indexed_def journal_def)
  have "\<not> recovering (mixin s)"
    using inv by (simp add: actor_inv_def)
  then show ?thesis
  proof (cases msg)
    case (MsgSystem m)
    have "receiveMessage m s = Done t"
      using MsgSystem \<open>\<not> recovering (mixin s)\<close> t by (simp add: Receive_def)
    then show ?thesis
      using inv recover_inv [OF inv, of "call_depth s"]
      by (cases m) (auto simp: receiveMessage_def send bind_res_eq_Done split: if_splits)
  qed (use t inv command_inv in \<open>auto simp: Receive_def\<close>)
qed

section \<open>Reachable states\<close>

inductive reachable :: "graphActor \<Rightarrow> bool" where
  reach_start: "fresh_actor s \<Longrightarrow> reachable s"
| reach_step: "reachable s \<Longrightarrow> Receive msg s = Done t \<Longrightarrow> reachable t"

lemma fresh_actor_inv: "fresh_actor s \<Longrightarrow> actor_inv s"
  by (simp add: fresh_actor_def actor_inv_def)

theorem reachable_inv: "reachable s \<Longrightarrow> actor_inv s"
  by (induction rule: reachable.induct) (auto intro: fresh_actor_inv message_inv)

text \<open>A store that does not fail does not start failing.\<close>

lemma command_reliable:
  assumes inv: "actor_inv s" and "reliable (mixin s)" and t: "receiveCommand cmd s = Done t"
  shows "reliable (mixin t)"
proof (cases "hasGraph s")
  case True
  then have "journaled s t" "ready s"
    using receiveCommand_journaled [of s cmd] inv t by (auto simp: actor_inv_def ready_def)
  then show ?thesis
    using assms(2) by (simp add: journals_def)
next
  case False
  have "reliable (mixin u)" if "actor_PersistReceive e (tick s) = Done u" for e u
    using that assms(2) by (cases rule: actor_PersistReceive_cases [OF actor_PersistReceive_interval [OF that], of e]) auto
  then show ?thesis
    using False t assms(2)
    by (cases cmd) (auto simp: receiveCommand_def validateCmd_def process_cmd_def cmd_CreateGraph_def bind_res_eq_Done)
qed

lemma message_reliable:
  assumes inv: "actor_inv s" and "reliable (mixin s)" and t: "Receive msg s = Done t"
  shows "reliable (mixin t)"
proof -
  have nr: "\<not> recovering (mixin s)"
    using inv by (simp add: actor_inv_def)
  have rec: "reliable (mixin u)" if "Recover (actorListener n) s = Done u" "hasGraph s" for n u
  proof -
    have "wf_graph s" "ready s"
      using inv that(2) by (auto simp: actor_inv_def ready_def)
    then show ?thesis
      using actor.keeps_Recover [of s n] that(1) assms(2) by (simp add: journals_def)
  qed
  show ?thesis
  proof (cases msg)
    case (MsgSystem m)
    have "receiveMessage m s = Done t"
      using MsgSystem nr t by (simp add: Receive_def)
    then show ?thesis
      using assms(2) rec by (cases m) (auto simp: receiveMessage_def bind_res_eq_Done split: if_splits)
  qed (use t nr assms(2) command_reliable [OF inv] in \<open>auto simp: Receive_def\<close>)
qed

lemma reliable_fold:
  assumes "actor_inv s" and "reliable (mixin s)" and "fold_res Receive ms s = Done t"
  shows "reliable (mixin t)"
  using assms
  by (induction ms arbitrary: s) (auto simp: bind_res_eq_Done dest: message_inv message_reliable)

end
