(* ===== verification/Actor_Demo.thy ===== *)
theory Actor_Demo
  imports Actor_Runs
begin

text \<open>
  Concrete runs of the graph actor, evaluated by rewriting. They show that the hypotheses of
  the actor's properties are met by real runs.
\<close>

fun is_done :: "'s res \<Rightarrow> bool" where
  "is_done (Done s) \<longleftrightarrow> True"
| "is_done (Panic p s) \<longleftrightarrow> False"
| "is_done NoFuel \<longleftrightarrow> False"

fun state_of :: "'s \<Rightarrow> 's res \<Rightarrow> 's" where
  "state_of d (Done s) = s"
| "state_of d (Panic p s) = s"
| "state_of d NoFuel = d"

lemma is_done_state: "is_done r \<Longrightarrow> r = Done (state_of d r)"
  by (cases r) simp_all

lemma is_doneE: "is_done r \<Longrightarrow> \<exists>s. r = Done s"
  by (cases r) simp_all

definition new_mixin :: "int \<Rightarrow> (nat \<Rightarrow> store_fault option) \<Rightarrow> Mixin" where
  "new_mixin interval faults =
     \<lparr>eventIndex = 0, snapshotInterval = interval, recovering = False, snapshotRequested = False,
      written = [], storeFault = faults\<rparr>"

definition new_actor :: "graphActor" where
  "new_actor =
     \<lparr>GraphID = '''', FunctionID = '''', stages = [], state = StateInitial,
      terminationRoot = \<lparr>RawID = '''', rawResult = None\<rparr>, terminationChainHead = None,
      startTime = 0, mapOrder = (\<lambda>_. []), hasGraph = False, mixin = new_mixin 100 (\<lambda>_. None),
      clock = (\<lambda>n. 1000000 * int n), outbox = []\<rparr>"

definition run :: "Message list \<Rightarrow> graphActor \<Rightarrow> graphActor" where
  "run ms s = state_of s (fold_res Receive ms s)"

lemma reachable_fold: "reachable s \<Longrightarrow> fold_res Receive ms s = Done t \<Longrightarrow> reachable t"
  by (induction ms arbitrary: s) (auto simp: bind_res_eq_Done intro: reach_step)

lemma reachable_run: "reachable s \<Longrightarrow> is_done (fold_res Receive ms s) \<Longrightarrow> reachable (run ms s)"
  using reachable_fold by (cases "fold_res Receive ms s") (auto simp: run_def)

lemma new_actor_fresh: "fresh_actor new_actor"
  by (simp add: fresh_actor_def new_actor_def new_mixin_def)

lemma reliable_run:
  "is_done (fold_res Receive ms new_actor) \<Longrightarrow> reliable (mixin (run ms new_actor))"
  using reliable_fold [OF fresh_actor_inv [OF new_actor_fresh]]
  by (cases "fold_res Receive ms new_actor")
     (auto simp: run_def reliable_def new_actor_def new_mixin_def)

section \<open>Runs\<close>

definition demo_closure :: "BlobDatum option" where
  "demo_closure = Some \<lparr>BlobId = ''blob'', ContentType = ''type'', Length = 1\<rparr>"

definition demo_result :: "CompletionResult option" where
  "demo_result = Some \<lparr>Successful = True, ResultDatum = Some NewEmptyDatum\<rparr>"

text \<open>A flow with a supplier, a stage that depends on it, and two termination hooks; then it is
  committed.\<close>

definition demo_build :: "Message list" where
  "demo_build = map MsgCommand
     [CreateGraphRequest ''flow'' ''app/fn'',
      AddStageRequest ''flow'' Op_supply demo_closure [] '''' '''',
      AddStageRequest ''flow'' Op_thenApply demo_closure [''0''] '''' '''',
      AddStageRequest ''flow'' Op_terminationHook demo_closure [] '''' '''',
      AddStageRequest ''flow'' Op_terminationHook demo_closure [] '''' '''']"

definition demo_commit :: "Message list" where
  "demo_commit = demo_build @ [MsgCommand (CommitGraphRequest ''flow'')]"

text \<open>The two stages respond, so the flow terminates and its first hook runs.\<close>

definition demo_finish :: "Message list" where
  "demo_finish = demo_commit @ map MsgCommand
     [FaasInvocationResponse ''flow'' ''0'' ''app/fn'' demo_result ''call'',
      FaasInvocationResponse ''flow'' ''1'' ''app/fn'' demo_result ''call'']"

definition built :: graphActor where "built = run demo_build new_actor"

definition committed :: graphActor where "committed = run demo_commit new_actor"

definition finishing :: graphActor where "finishing = run demo_finish new_actor"

lemma demo_reachable: "reachable built" "reachable committed" "reachable finishing"
  unfolding built_def committed_def finishing_def
  by (intro reachable_run reach_start new_actor_fresh, code_simp)+

lemma demo_reliable: "reliable (mixin built)" "reliable (mixin committed)"
  unfolding built_def committed_def by (rule reliable_run, code_simp)+

lemma demo_hasGraph: "hasGraph built" "hasGraph committed" "hasGraph finishing"
  by code_simp+

lemma demo_state: "state built = StateInitial" "state committed = StateCommitted" "state finishing = StateTerminating"
  by code_simp+

text \<open>The command the properties are shown at: the response of the first stage of the committed flow.\<close>

definition demo_response :: Command where
  "demo_response = FaasInvocationResponse ''flow'' ''0'' ''app/fn'' demo_result ''call''"

definition responded :: graphActor where
  "responded = state_of committed (receiveCommand demo_response committed)"

lemma demo_responded: "receiveCommand demo_response committed = Done responded"
  unfolding responded_def by (rule is_done_state) code_simp

lemma demo_stage: "\<exists>st. GetStage ''0'' committed = Some st" "\<exists>st. GetStage ''1'' committed = Some st"
proof -
  have "GetStage ''0'' committed \<noteq> None" and "GetStage ''1'' committed \<noteq> None"
    by code_simp+
  then show "\<exists>st. GetStage ''0'' committed = Some st" "\<exists>st. GetStage ''1'' committed = Some st"
    by auto
qed

lemma demo_applies: "cmd_applies demo_response committed"
proof -
  have "GetStage ''0'' committed \<noteq> None"
    and "stResultHandling (stage_strategy (the (GetStage ''0'' committed))) = InvocationResult"
    by code_simp+
  then show ?thesis
    by (auto simp: cmd_applies_def demo_response_def applies_iff demo_result_def)
qed

lemma demo_receive: "Receive (MsgCommand demo_response) committed = Done responded"
proof -
  have "\<not> recovering (mixin committed)"
    by code_simp
  then show ?thesis
    by (simp add: Receive_def demo_responded)
qed

end
