(* ===== verification/Actor_Properties.thy ===== *)
theory Actor_Properties
  imports Actor_Demo
begin

text \<open>
  The properties of the graph and its actor, stated of the states a graph actor can reach.
  They follow from the invariant of \<open>Actor_Runs\<close> and the contracts it rests on.
\<close>

section \<open>What reachable states have\<close>

lemma reachable_facts:
  assumes "reachable s" and "hasGraph s"
  shows "wf_graph s" and "flow_inv s" and "consistent s" and "settled s" and "advanced s" and "live s" and "ready s"
  using reachable_inv [OF assms(1)] assms(2) by (auto simp: actor_inv_def live_def ready_def)

lemma journal_run:
  assumes "reachable s" and "hasGraph s"
  shows "keeps torn journaled s (receiveCommand cmd s)"
  using reachable_facts [OF assms] by (intro receiveCommand_journaled assms(2))

section \<open>Progress of a flow\<close>

lemma collect_all: "list_all (\<lambda>d. d \<noteq> None) ds \<Longrightarrow> length (collect_results ds) = length ds"
  by (induction ds rule: collect_results.induct) auto

lemma triggerAny_loop_all: "list_all (\<lambda>d. d \<noteq> None) ds \<Longrightarrow> fst (triggerAny_loop ds False ff)"
  by (induction ds False ff rule: triggerAny_loop.induct) (auto split: option.splits)

lemma resolved_triggers:
  assumes "list_all (\<lambda>d. d \<noteq> None) ds" and "ts = TriggerAny \<Longrightarrow> ds \<noteq> []" and "ts \<noteq> TriggerNever"
  shows "fst (run_trigger ts ds)"
  using assms collect_all [OF assms(1)] triggerAny_loop_all [OF assms(1)]
  by (cases ts) (auto simp: waitForAll_def triggerAny_def Let_def split: option.splits)

lemma strategy_any_min:
  "getStrategyFromOperation op = Some s \<Longrightarrow> stTrigger s = TriggerAny \<Longrightarrow> MinDependencies s \<ge> 1"
  by (cases op) (auto simp: getStrategyFromOperation_def)

lemma strategy_hook: "getStrategyFromOperation Op_terminationHook = Some s \<Longrightarrow> stTrigger s = WaitForAll"
  by (auto simp: getStrategyFromOperation_def)

lemma stage_resolved_triggers:
  assumes "wf_graph g" and "GetStage k g = Some st" and "\<And>d. d \<in> set (dependencies st) \<Longrightarrow> dep_result g d \<noteq> None"
    and "stTrigger (stage_strategy st) \<noteq> TriggerNever"
  shows "fst (trigger_state st g)"
proof -
  have s: "wf_static k st"
    using wf_graph_stage [OF assms(1,2)] by (simp add: wf_stage_def)
  have "stTrigger (stage_strategy st) = TriggerAny \<Longrightarrow> dependencies st \<noteq> []"
    using s strategy_any_min [of "operation st" "stage_strategy st"]
    by (auto simp: wf_static_def deps_out_of_range_def split: if_splits)
  then show ?thesis
    unfolding trigger_state_def using assms(3,4)
    by (intro resolved_triggers) (auto simp: list_all_iff)
qed

lemma nth_stage:
  assumes "ids_ok g" and "i < length (stages g)"
  shows "GetStage (itoa i) g = Some (snd (stages g ! i))" and "fst (stages g ! i) = itoa i"
proof -
  have f: "fst (stages g ! i) = map itoa [0..<length (stages g)] ! i"
    using assms by (metis ids_ok_def nth_map)
  then show k: "fst (stages g ! i) = itoa i"
    using assms(2) by simp
  have "(itoa i, snd (stages g ! i)) \<in> set (stages g)"
    using assms(2) k by (metis nth_mem prod.collapse)
  then show "GetStage (itoa i) g = Some (snd (stages g ! i))"
    using ids_ok_distinct [OF assms(1)] by (simp add: GetStage_def)
qed

lemma pending_stage:
  assumes "wf_graph g" and "flow_inv g" and "getPendingCount ph g \<noteq> 0"
  shows "\<exists>i < length (stages g). execPhase (snd (stages g ! i)) = ph \<and> \<not> IsResolved (snd (stages g ! i))"
proof -
  have "length (stages g) < 2 ^ 32"
    using assms(2) by (simp add: flow_inv_def maxStages_def)
  then obtain k st where "(k, st) \<in> set (stages g)" "execPhase st = ph" "\<not> IsResolved st"
    using assms(3) by (auto simp: getPendingCount_zero)
  then show ?thesis
    by (metis in_set_conv_nth snd_conv)
qed

lemma main_phase: "wf_graph g \<Longrightarrow> GetStage k g = Some st \<Longrightarrow>
   (execPhase st = MainExecPhase) = (operation st \<noteq> Op_terminationHook)"
  by (auto dest!: wf_graph_stage simp: wf_stage_def wf_static_def)

lemma older_dep:
  assumes "deps_older g" and "i < length (stages g)" and "operation (snd (stages g ! i)) \<noteq> Op_terminationHook"
    and "d \<in> set (dependencies (snd (stages g ! i)))"
  shows "\<exists>j < i. d = StageDep (itoa j)"
proof -
  have "shape g ! i = shape_of (stages g ! i)"
    using assms(2) by (simp add: shape_def)
  then show ?thesis
    using assms by (auto simp: deps_older_def shape_of_def split: prod.splits)
qed

text \<open>The first unresolved main stage is running, waits for the outside, or depends on a hook.\<close>

lemma committed_waits:
  assumes wf: "wf_graph g" and inv: "flow_inv g" and "settled g" and "getPendingCount MainExecPhase g \<noteq> 0"
  shows "\<exists>k st. GetStage k g = Some st \<and> execPhase st = MainExecPhase \<and> \<not> IsResolved st \<and>
    ((triggered st \<or> stTrigger (stage_strategy st) = TriggerNever) \<and> (\<forall>d \<in> set (dependencies st). dep_result g d \<noteq> None) \<or>
     (\<exists>d h. StageDep d \<in> set (dependencies st) \<and> GetStage d g = Some h \<and> operation h = Op_terminationHook))"
proof -
  have ids: "ids_ok g" and old: "deps_older g"
    using inv by (simp_all add: flow_inv_def)
  let ?P = "\<lambda>i. i < length (stages g) \<and> execPhase (snd (stages g ! i)) = MainExecPhase \<and>
    \<not> IsResolved (snd (stages g ! i))"
  define i where "i = (LEAST i. ?P i)"
  have "\<exists>i. ?P i"
    using pending_stage [OF wf inv assms(4)] by blast
  then have i: "?P i"
    unfolding i_def by (rule LeastI_ex)
  have least: "\<not> ?P j" if "j < i" for j
    using not_less_Least [of j ?P] that i_def by blast
  let ?st = "snd (stages g ! i)"
  have st: "GetStage (itoa i) g = Some ?st"
    using nth_stage(1) [OF ids] i by blast
  have op: "operation ?st \<noteq> Op_terminationHook"
    using main_phase [OF wf st] i by simp
  have "(triggered ?st \<or> stTrigger (stage_strategy ?st) = TriggerNever) \<and> (\<forall>d \<in> set (dependencies ?st). dep_result g d \<noteq> None)"
    if nohook: "\<And>d h. StageDep d \<in> set (dependencies ?st) \<Longrightarrow> GetStage d g = Some h \<Longrightarrow>
      operation h \<noteq> Op_terminationHook"
  proof -
    have deps: "dep_result g d \<noteq> None" if d: "d \<in> set (dependencies ?st)" for d
    proof -
      obtain j where j: "j < i" "d = StageDep (itoa j)"
        using older_dep [OF old _ op d] i by blast
      have js: "GetStage (itoa j) g = Some (snd (stages g ! j))"
        using nth_stage(1) [OF ids, of j] i j(1) by simp
      then have "execPhase (snd (stages g ! j)) = MainExecPhase"
        using nohook [of "itoa j"] d j(2) main_phase [OF wf js] by simp
      then have "IsResolved (snd (stages g ! j))"
        using least [OF j(1)] i j(1) by simp
      then show ?thesis
        using js j(2) by (simp add: dep_result_def IsResolved_def)
    qed
    have "\<not> could_trigger (itoa i) g"
      using assms(3) by (simp add: settled_def)
    then have "triggered ?st \<or> stTrigger (stage_strategy ?st) = TriggerNever"
      using st i stage_resolved_triggers [OF wf st deps] by (auto simp: could_trigger_def)
    with deps show ?thesis
      by blast
  qed
  then show ?thesis
    using st i by blast
qed

text \<open>When the flow terminates, the last added hook without a result is running.\<close>

lemma chained_last_unresolved:
  assumes "chained hs" and "\<exists>h \<in> set hs. \<not> P (fst h)"
  shows "\<exists>k op ds. (k, op, ds) \<in> set hs \<and> \<not> P k \<and> (ds = [TerminationRootDep] \<or> (\<exists>k'. ds = [StageDep k'] \<and> P k'))"
  using assms
proof (induction hs rule: chained.induct)
  case (3 k op ds k' op' ds' hs)
  show ?case
  proof (cases "\<exists>h \<in> set ((k', op', ds') # hs). \<not> P (fst h)")
    case True
    then obtain k2 op2 ds2 where "(k2, op2, ds2) \<in> set ((k', op', ds') # hs)" "\<not> P k2"
        "ds2 = [TerminationRootDep] \<or> (\<exists>k'. ds2 = [StageDep k'] \<and> P k')"
      using "3.IH" "3.prems"(1) by auto
    then show ?thesis
      by (intro exI [of _ k2] exI [of _ op2] exI [of _ ds2]) auto
  next
    case False
    then have "P k'" "\<not> P k" "ds = [StageDep k']"
      using 3 by auto
    then show ?thesis
      by (intro exI [of _ k] exI [of _ op] exI [of _ ds]) auto
  qed
qed auto

lemma terminating_waits:
  assumes wf: "wf_graph g" and inv: "flow_inv g" and "settled g" and "state g = StateTerminating"
    and "getPendingCount TerminationExecPhase g \<noteq> 0"
  shows "\<exists>k st. GetStage k g = Some st \<and> operation st = Op_terminationHook \<and> \<not> IsResolved st \<and> triggered st \<and>
    (\<forall>d \<in> set (dependencies st). dep_result g d \<noteq> None)"
proof -
  let ?P = "\<lambda>k. dep_result g (StageDep k) \<noteq> None"
  have ids: "ids_ok g" and chain: "chained (hooks g)" and root: "rawResult (terminationRoot g) \<noteq> None"
    using inv assms(4) by (simp_all add: flow_inv_def hook_chain_def root_ok_def canModifyGraph_iff)
  have hook: "\<exists>st. GetStage k g = Some st \<and> operation st = op \<and> dependencies st = ds \<and> op = Op_terminationHook"
    if "(k, op, ds) \<in> set (hooks g)" for k op ds
    using that ids_ok_distinct [OF ids] by (auto simp: hooks_def shape_def shape_of_def GetStage_def)
  obtain i where i: "i < length (stages g)" "execPhase (snd (stages g ! i)) = TerminationExecPhase"
      "\<not> IsResolved (snd (stages g ! i))"
    using pending_stage [OF wf inv assms(5)] by blast
  note ist = nth_stage [OF ids i(1)]
  have "operation (snd (stages g ! i)) = Op_terminationHook"
    using main_phase [OF wf ist(1)] i(2) by auto
  then have "shape_of (stages g ! i) \<in> set (hooks g)"
    using i(1) by (auto simp: hooks_def shape_def shape_of_def split: prod.splits)
  moreover have "\<not> ?P (fst (shape_of (stages g ! i)))"
    using ist i(3) by (cases "stages g ! i") (simp add: shape_of_def dep_result_def IsResolved_def)
  ultimately obtain k op ds where k: "(k, op, ds) \<in> set (hooks g)" "\<not> ?P k"
      "ds = [TerminationRootDep] \<or> (\<exists>k'. ds = [StageDep k'] \<and> ?P k')"
    using chained_last_unresolved [OF chain, of ?P] by blast
  obtain st where st: "GetStage k g = Some st" "operation st = Op_terminationHook" "dependencies st = ds"
    using hook [OF k(1)] by blast
  have deps: "dep_result g d \<noteq> None" if "d \<in> set (dependencies st)" for d
    using that k(3) st(3) root by (auto simp: dep_result_def)
  have "stTrigger (stage_strategy st) = WaitForAll"
    using wf_graph_stage [OF wf st(1)] st(2) by (auto simp: wf_stage_def wf_static_def intro: strategy_hook)
  with deps have "fst (trigger_state st g)"
    by (intro stage_resolved_triggers [OF wf st(1)]) auto
  moreover have "\<not> IsResolved st"
    using k(2) st(1) by (simp add: dep_result_def IsResolved_def)
  moreover have "\<not> could_trigger k g"
    using assms(3) by (simp add: settled_def)
  ultimately show ?thesis
    using st deps by (auto simp: could_trigger_def)
qed

section \<open>The journal\<close>

lemma command_fuel:
  assumes "reachable s"
  shows "receiveCommand cmd s \<noteq> NoFuel"
proof (cases "hasGraph s")
  case True
  then have "returns False (receiveCommand cmd s)"
    using reachable_facts [OF assms True] by (intro receiveCommand_returns) (simp_all add: good_def)
  then show ?thesis
    by (rule returns_NoFuelD)
next
  case False
  then show ?thesis
    using bind_res_NoFuel [OF actor_PersistReceive_returns]
    by (cases cmd) (simp_all add: receiveCommand_def validateCmd_def process_cmd_def cmd_CreateGraph_def)
qed

lemma message_fuel:
  assumes "reachable s"
  shows "Receive msg s \<noteq> NoFuel"
proof -
  have "Recover (actorListener (call_depth s)) s \<noteq> NoFuel" if "hasGraph s"
  proof -
    have "work s \<le> 2 * length (stages s) + 9"
      using work_bound [of s] by simp
    then have "returns False (Recover (actorListener (Suc (2 * length (stages s) + 9))) s)"
      using reachable_facts [OF assms that] by (intro actor_progress.returns_Recover) (simp_all add: good_def)
    moreover have "Suc (2 * length (stages s) + 9) = call_depth s"
      by (simp add: call_depth_def)
    ultimately have "returns False (Recover (actorListener (call_depth s)) s)"
      by metis
    then show ?thesis
      by (rule returns_NoFuelD)
  qed
  then show ?thesis
    using command_fuel [OF assms] reachable_inv [OF assms]
    by (cases msg; cases "Recover (actorListener (call_depth s)) s")
       (auto simp: Receive_def receiveMessage_def actor_inv_def split: SysMessage.splits)
qed

definition graph_view :: "graphActor \<Rightarrow> CompletionGraph option" where
  "graph_view s = (if hasGraph s then Some (view s) else None)"

lemma inv_rebuild: "actor_inv s \<Longrightarrow> rebuild (journal s) = graph_view s"
  using consistent_rebuild by (auto simp: actor_inv_def graph_view_def journal_def rebuild_def)

lemma message_journals:
  assumes "reachable s" and "hasGraph s"
  shows "keeps torn journaled s (Receive msg s)"
proof -
  note f = reachable_facts [OF assms]
  have nr: "\<not> recovering (mixin s)"
    using reachable_inv [OF assms(1)] by (simp add: actor_inv_def)
  have rec: "keeps torn journaled s (Recover (actorListener n) s)" for n
    using actor.keeps_Recover [OF f(1)] by (rule keeps_mono) simp
  show ?thesis
    using nr f(1) assms(2) rec journal_run [OF assms]
    by (cases msg) (auto simp: Receive_def receiveMessage_def journals_refl intro!: keeps_bind_journal split: SysMessage.splits)
qed

lemma torn_journal:
  assumes "torn s t"
  shows "view t = view s" and "hasGraph t = hasGraph s"
    and "\<exists>late. journal t = journal s @ late \<and> length late \<le> 1"
  using assms by (auto simp: torn_def journal_def)

lemma message_panic:
  assumes "reachable s" and "Receive msg s = Panic p t"
  shows "\<exists>es late. journal t = es @ late \<and> length late \<le> 1 \<and> rebuild es = graph_view t"
proof (cases "hasGraph s")
  case True
  note f = reachable_facts [OF assms(1) True]
  obtain u where u: "journaled s u" "torn u t"
    using message_journals [OF assms(1) True, of msg] assms(2) by auto
  have "hasGraph u" "consistent u"
    using u(1) consistent_journals [OF f(3) u(1) f(7)] f(7) by (auto simp: journals_def ready_def)
  then have "rebuild (journal u) = graph_view t"
    using consistent_rebuild torn_journal(1,2) [OF u(2)] by (simp add: graph_view_def)
  then show ?thesis
    using torn_journal(3) [OF u(2)] by auto
next
  case False
  have inv: "actor_inv s"
    by (rule reachable_inv [OF assms(1)])
  obtain f fn where "cmd_CreateGraph f fn s = Panic p t"
    using assms(2) False inv
    by (cases msg)
       (auto simp: Receive_def receiveMessage_def actor_inv_def receiveCommand_def validateCmd_def process_cmd_def
        split: Command.splits SysMessage.splits)
  then have "\<not> hasGraph t" "length (journal t) \<le> 1"
    using create_panic [OF inv False, of f fn p t] by auto
  then show ?thesis
    by (intro exI [of _ "[]"] exI [of _ "journal t"]) (simp add: rebuild_def graph_view_def)
qed

text \<open>C1: The graph is what its journal says. In every state a graph actor reaches, and after every message that it handles to the
  end there, the graph's view is the fold of the events it has stored (without a graph there is no event). If a panic cuts a message
  off in the middle, whatever panics, the graph's view is the fold of the stored events or of all but the last one: no event is applied
  that was not stored before, and at most one that is stored is not applied, the one in whose \<^verbatim>\<open>PersistEvent\<close> or \<^verbatim>\<open>PersistReceive\<close>
  the panic came after the event was stored.\<close>

theorem journal_determines_graph:
  assumes "reachable s"
  shows "rebuild (journal s) = graph_view s \<and>
    (case Receive msg s of
       Done t \<Rightarrow> rebuild (journal t) = graph_view t
     | Panic p t \<Rightarrow> \<exists>es late. journal t = es @ late \<and> length late \<le> 1 \<and> rebuild es = graph_view t
     | NoFuel \<Rightarrow> False)"
  using inv_rebuild [OF reachable_inv [OF assms]] inv_rebuild [OF message_inv [OF reachable_inv [OF assms]]]
    message_panic [OF assms] message_fuel [OF assms]
  by (auto split: res.splits)

text \<open>A store whose third event is published to a subscriber that panics.\<close>

definition publish_fault :: "nat \<Rightarrow> store_fault option" where
  "publish_fault n = (if n = 2 then Some (PublishPanics BadTypeAssertion) else None)"

definition faulty_start :: graphActor where
  "faulty_start = new_actor\<lparr>mixin := new_mixin 100 publish_fault\<rparr>"

definition faulty_build :: "Message list" where
  "faulty_build = map MsgCommand [CreateGraphRequest ''flow'' ''app/fn'', AddStageRequest ''flow'' Op_externalCompletion None [] '''' '''']"

definition faulty :: graphActor where
  "faulty = run faulty_build faulty_start"

lemma faulty_reachable: "reachable faulty"
  unfolding faulty_def
proof (intro reachable_run reach_start)
  show "fresh_actor faulty_start"
    by (simp add: fresh_actor_def faulty_start_def new_actor_def new_mixin_def)
  show "is_done (fold_res Receive faulty_build faulty_start)"
    by code_simp
qed

theorem journal_determines_graph_witness:
  "rebuild (journal faulty) = graph_view faulty \<and>
   (\<exists>p t es late. Receive (MsgCommand (CommitGraphRequest ''flow'')) faulty = Panic p t \<and> length (journal t) = 3 \<and>
      journal t = es @ late \<and> length late \<le> 1 \<and> rebuild es = graph_view t)"
proof -
  have "case Receive (MsgCommand (CommitGraphRequest ''flow'')) faulty of Panic p t \<Rightarrow> length (journal t) = 3 | _ \<Rightarrow> False"
    by code_simp
  then show ?thesis
    using journal_determines_graph [OF faulty_reachable, of "MsgCommand (CommitGraphRequest ''flow'')"]
    by (auto split: res.splits)
qed

text \<open>C2: A command only ever appends to the journal; the appended events are a legal run of the
  specification from the graph's view before the command to its view after it, numbered
  consecutively from the actor's event index.\<close>

theorem command_refines_spec:
  assumes "reachable s" and "hasGraph s" and "receiveCommand cmd s = Done t"
  shows "\<exists>es. flow_run (view s) es (view t) \<and>
    written (mixin t) = written (mixin s) @
      zip (map (\<lambda>i. int (length (journal s)) + int i) [0..<length es]) es"
proof -
  note f = reachable_facts [OF assms(1,2)]
  have "journaled s t"
    using journal_run [OF assms(1,2), of cmd] assms(3) by simp
  moreover have "eventIndex (mixin s) = int (length (journal s))"
    using f(3) by (simp add: consistent_def indexed_def journal_def)
  ultimately show ?thesis
    using f(7) by (auto simp: journals_def)
qed

theorem command_refines_spec_witness:
  "\<exists>es. flow_run (view committed) es (view responded) \<and>
    written (mixin responded) = written (mixin committed) @
      zip (map (\<lambda>i. int (length (journal committed)) + int i) [0..<length es]) es"
  by (rule command_refines_spec [OF demo_reachable(2) demo_hasGraph(2) demo_responded])

text \<open>C5: Every command is processed to the end of its call chain: the mutual calls of the graph
  and the actor never exceed the depth \<open>call_depth\<close> of twice the number of stages plus ten,
  so the program's recursion is bounded.\<close>

theorem command_terminates:
  assumes "reachable s"
  shows "receiveCommand cmd s \<noteq> NoFuel"
  by (rule command_fuel [OF assms])

theorem command_terminates_witness: "receiveCommand demo_response committed \<noteq> NoFuel"
  by (rule command_terminates [OF demo_reachable(2)])

text \<open>C8: With a store that does not fail, no command makes the actor panic: a command that passes
  validation and, if it reports a result, reports one for a stage that is waiting for it
  (\<open>cmd_applies\<close>) is processed to its normal end. In particular the handlers' panics on
  duplicate stages, missing dependencies and wrong numbers of inputs are unreachable.\<close>

theorem command_does_not_panic:
  assumes "reachable s" and "hasGraph s" and "reliable (mixin s)" and "cmd_applies cmd s"
  shows "\<exists>t. receiveCommand cmd s = Done t"
proof -
  have "returns True (receiveCommand cmd s)"
    using reachable_facts [OF assms(1,2)] assms(3,4)
    by (intro receiveCommand_returns) (simp_all add: good_def)
  then show ?thesis
    by (rule returns_strictD)
qed

theorem command_does_not_panic_witness: "\<exists>t. receiveCommand demo_response committed = Done t"
  by (rule command_does_not_panic [OF demo_reachable(2) demo_hasGraph(2) demo_reliable(2) demo_applies])

section \<open>The life of a flow\<close>

text \<open>C12: The life cycle is linear. The journal of a flow holds its committed, terminating and
  completed events in this order, each at most once, and they are exactly those that lead to
  the state the flow is in.\<close>

theorem lifecycle_once:
  assumes "reachable s" and "hasGraph s"
  shows "map (state_rank \<circ> lifecycle_target) (lifecycle_events (journal s)) = [1..<Suc (state_rank (state s))]"
proof -
  obtain f fn ts es where "journal s = GraphCreatedEvent f fn ts # es"
      "flow_run (graph_New f fn 0 (\<lambda>_. []) ()) es (view s)"
    using reachable_facts(3) [OF assms] by (auto simp: consistent_def)
  then show ?thesis
    using flow_run_lifecycle [of _ es "view s"] by (simp add: lifecycle_events_def graph_New_def)
qed

theorem lifecycle_once_witness:
  "map (state_rank \<circ> lifecycle_target) (lifecycle_events (journal finishing)) = [1..<Suc 2]"
  using lifecycle_once [OF demo_reachable(3) demo_hasGraph(3)] by (simp add: demo_state del: upt_Suc)



text \<open>C15: The identifiers of a flow's stages are the decimal numerals from 0 on, in the order in which
  the stages were added, and there are never more than \<open>maxStages\<close> of them; the next
  identifier is therefore always new.\<close>

theorem stage_ids:
  assumes "reachable s" and "hasGraph s"
  shows "map fst (stages s) = map itoa [0..<length (stages s)] \<and> length (stages s) \<le> maxStages \<and>
    GetStage (NextStageID s) s = None"
  using reachable_facts(2) [OF assms] NextStageID_fresh [of s]
  by (simp add: flow_inv_def ids_ok_def GetStage_None_iff)

theorem stage_ids_witness:
  "map fst (stages committed) = map itoa [0..<4] \<and> GetStage (NextStageID committed) committed = None"
proof -
  have "length (stages committed) = 4"
    by code_simp
  then show ?thesis
    using stage_ids [OF demo_reachable(2) demo_hasGraph(2)] by simp
qed

text \<open>C11: No stage is forgotten. Between two messages there is no stage without a result that has not
  been triggered although its dependencies allow it.\<close>

theorem no_stage_forgotten:
  assumes "reachable s" and "hasGraph s" and "GetStage k s = Some st" and "\<not> IsResolved st" and "\<not> triggered st"
  shows "fst (trigger_state st s) = False"
  using reachable_facts(4) [OF assms(1,2), unfolded settled_def, rule_format, of k] assms(3-5)
  by (simp add: could_trigger_def)

theorem no_stage_forgotten_witness:
  "fst (trigger_state (the (GetStage ''1'' committed)) committed) = False"
proof (rule no_stage_forgotten [OF demo_reachable(2) demo_hasGraph(2)])
  show "GetStage ''1'' committed = Some (the (GetStage ''1'' committed))"
    by (metis demo_stage option.sel)
  show "\<not> IsResolved (the (GetStage ''1'' committed))" and "\<not> triggered (the (GetStage ''1'' committed))"
    by code_simp+
qed

text \<open>A committed flow rests only if it has something to wait for: a main stage without a result
  that is running, or that is completed from outside (a delay, an external completion, a
  value), or that was made to depend on a termination hook. (The last is a hole: nothing
  stops a client from adding such a stage, and the flow never ends then.)\<close>

theorem committed_flow_progresses:
  assumes "reachable s" and "hasGraph s" and "state s = StateCommitted"
  shows "\<exists>k st. GetStage k s = Some st \<and> execPhase st = MainExecPhase \<and> \<not> IsResolved st \<and>
    (triggered st \<or> stTrigger (stage_strategy st) = TriggerNever \<or>
     (\<exists>d h. StageDep d \<in> set (dependencies st) \<and> GetStage d s = Some h \<and> operation h = Op_terminationHook))"
  using reachable_facts [OF assms(1,2)] assms(3) committed_waits [of s] by (auto simp: advanced_def)

theorem committed_flow_progresses_witness:
  "\<exists>k st. GetStage k committed = Some st \<and> execPhase st = MainExecPhase \<and> \<not> IsResolved st \<and>
    (triggered st \<or> stTrigger (stage_strategy st) = TriggerNever \<or>
     (\<exists>d h. StageDep d \<in> set (dependencies st) \<and> GetStage d committed = Some h \<and> operation h = Op_terminationHook))"
  by (rule committed_flow_progresses [OF demo_reachable(2) demo_hasGraph(2) demo_state(2)])

text \<open>A terminating flow always has a termination hook that is running; it is completed as soon as
  no hook is left.\<close>

theorem terminating_flow_progresses:
  assumes "reachable s" and "hasGraph s" and "state s = StateTerminating"
  shows "\<exists>k st. GetStage k s = Some st \<and> operation st = Op_terminationHook \<and> \<not> IsResolved st \<and> triggered st"
  using reachable_facts [OF assms(1,2)] assms(3) terminating_waits [of s] by (auto simp: advanced_def)

theorem terminating_flow_progresses_witness:
  "\<exists>k st. GetStage k finishing = Some st \<and> operation st = Op_terminationHook \<and> \<not> IsResolved st \<and> triggered st"
  by (rule terminating_flow_progresses [OF demo_reachable(3) demo_hasGraph(3) demo_state(3)])

text \<open>C16: Termination hooks form a chain: each hook waits for the hook that was added after it, the
  last for the termination root, so they run in the reverse of the order in which they were
  added; the chain's head is the last one.\<close>

theorem hooks_run_in_reverse:
  assumes "reachable s" and "hasGraph s"
  shows "chained (hooks s) \<and>
    terminationChainHead s = (if hooks s = [] then None else Some (fst (last (hooks s))))"
  using reachable_facts(2) [OF assms] by (simp add: flow_inv_def hook_chain_def)

theorem hooks_run_in_reverse_witness:
  "chained (hooks committed) \<and> length (hooks committed) = 2 \<and> terminationChainHead committed = Some ''3''"
proof -
  have "length (hooks committed) = 2" and "fst (last (hooks committed)) = ''3''" and "hooks committed \<noteq> []"
    by code_simp+
  then show ?thesis
    using hooks_run_in_reverse [OF demo_reachable(2) demo_hasGraph(2)] by simp
qed

text \<open>C14: Every stage of a reachable graph is well formed: it is stored under its own identifier with the
  strategy of its operation, in the phase of its operation, with a permitted number of
  dependencies; its links lead to stages of the graph; and its future has been told its
  result exactly once if it has one, and nothing otherwise.\<close>

theorem stages_well_formed:
  assumes "reachable s" and "hasGraph s" and "GetStage k s = Some st"
  shows "wf_static k st \<and> wf_links (stage_keys s) st \<and>
    whenComplete st = (case result st of None \<Rightarrow> [] | Some r \<Rightarrow> [r])"
  using wf_graph_stage [OF reachable_facts(1) [OF assms(1,2)] assms(3)]
  by (simp add: wf_stage_def wf_result_def split: option.splits)

theorem stages_well_formed_witness:
  "wf_static ''0'' (the (GetStage ''0'' committed)) \<and> whenComplete (the (GetStage ''0'' committed)) = []"
proof -
  have "GetStage ''0'' committed = Some (the (GetStage ''0'' committed))"
    by (metis demo_stage option.sel)
  note wf = stages_well_formed [OF demo_reachable(2) demo_hasGraph(2) this]
  have "result (the (GetStage ''0'' committed)) = None"
    by code_simp
  then show ?thesis
    using wf by simp
qed

end
