(* ===== verification/Actor_Commands.thy ===== *)
theory Actor_Commands
  imports Actor_Properties
begin

text \<open>
  What the commands of a graph actor do: adding stages, completing them from outside,
  committing a flow; and the replay of a journal.
\<close>

section \<open>After an event\<close>

lemma journals_evolves:
  assumes "journals P s t" and "ready s" and "flow_inv s"
  shows "graph_evolves s t"
proof -
  obtain es where "flow_run (view s) es (view t)"
    using journal_append [OF assms(1,2)] by blast
  then show ?thesis
    using flow_run_evolves [of "view s" es "view t"] assms(3) by simp
qed

lemma evolves_stage:
  assumes "graph_evolves g h" and "GetStage k g = Some a"
  obtains b where "GetStage k h = Some b" and "stage_evolves a b"
  using assms unfolding graph_evolves_def by blast

lemma GetStage_of_view:
  assumes "view u = flow_step e (view s)" and "GetStage k (mutate e s) = Some a"
  shows "\<exists>b. GetStage k u = Some b \<and> untrigger b = untrigger a"
proof -
  have "view u = view (mutate e s)"
    using assms(1) by (simp add: flow_step_def view_mutate)
  then have "GetStage k (view u) = Some (untrigger a)"
    using assms(2) by (simp add: GetStage_view)
  then show ?thesis
    by (simp add: GetStage_view)
qed

lemma emit_evolves:
  assumes "emit mk s = Done t" and "wf_graph s" and "ready s" and "flow_inv s"
    and "\<And>ts. event_fresh (mk ts) s" and "\<And>ts. legal (mk ts) s"
    and "GetStage k (mutate (mk (currentTimestamp s)) s) = Some a"
  shows "\<exists>b. GetStage k t = Some b \<and> stage_evolves a b"
proof (rule emit_Done [OF assms(1-3,5)])
  fix u
  assume u: "view u = flow_step (mk (currentTimestamp s)) (view s)" "ready u" "journals is_callback u t"
  obtain b where b: "GetStage k u = Some b" "untrigger b = untrigger a"
    using GetStage_of_view [OF u(1) assms(7)] by blast
  have "graph_evolves u t"
    by (rule journals_evolves [OF u(3,2) flow_inv_of_view [OF u(1) assms(4,6)]])
  then obtain c where "GetStage k t = Some c" "stage_evolves b c"
    using evolves_stage b(1) by blast
  then show ?thesis
    using b(2) by (metis stage_evolves_untrigger(1))
qed

lemma mutate_added_stage:
  assumes "sid \<notin> stage_keys g" and "applies (StageAddedEvent f sid op cl deps ts loc caller) g"
  shows "\<exists>a. GetStage sid (mutate (StageAddedEvent f sid op cl deps ts loc caller) g) = Some a \<and>
    ID a = sid \<and> operation a = op \<and> closure a = cl \<and>
    (op \<noteq> Op_terminationHook \<longrightarrow> dependencies a = map StageDep deps)"
  using assms
  by (auto simp: mutate_def mutate_hook_def mutate_add_def applies_iff Let_def GetStage_put_stage
      split: option.splits)

section \<open>Commands\<close>

text \<open>C17: Adding a stage. When the actor has processed a valid request to add a stage, the flow has a
  stage under the next identifier with the requested operation, closure and (unless it is a
  termination hook) dependencies, and the response names it.\<close>

theorem add_stage_adds:
  assumes "reachable s" and "hasGraph s"
    and "ValidateCommand (AddStageRequest f op cl deps loc caller) s = Valid"
    and "receiveCommand (AddStageRequest f op cl deps loc caller) s = Done t"
  shows "last (outbox t) = Respond (AddStageResponse f (NextStageID s)) \<and>
    (\<exists>st. GetStage (NextStageID s) t = Some st \<and> operation st = op \<and> closure st = cl \<and>
      (op \<noteq> Op_terminationHook \<longrightarrow> dependencies st = map StageDep deps))"
proof -
  let ?cmd = "AddStageRequest f op cl deps loc caller"
  let ?mk = "\<lambda>ts. StageAddedEvent f (NextStageID s) op cl deps ts loc caller"
  note r = reachable_facts [OF assms(1,2)]
  obtain u where u: "emit ?mk s = Done u" and t: "t = send (Respond (AddStageResponse f (NextStageID s))) u"
    using assms(2-4)
    by (auto simp: receiveCommand_def validateCmd_def process_cmd_def cmd_AddStage_def Let_def bind_res_eq_Done)
  have fresh: "NextStageID s \<notin> stage_keys s"
    using NextStageID_fresh [of s] r(2) by (simp add: flow_inv_def)
  have legal: "legal (?mk ts) s" for ts
    using validated_add(1,2) [OF assms(3)] by (simp add: legal_def)
  have "applies (?mk ts) s" for ts
    using added_applies [OF assms(3)] by simp
  from mutate_added_stage [OF fresh this] obtain a
    where a: "GetStage (NextStageID s) (mutate (?mk (currentTimestamp s)) s) = Some a"
      "operation a = op" "closure a = cl" "op \<noteq> Op_terminationHook \<longrightarrow> dependencies a = map StageDep deps"
    by blast
  have "\<exists>b. GetStage (NextStageID s) u = Some b \<and> stage_evolves a b"
    by (rule emit_evolves [OF u r(1,7,2) _ legal a(1)]) (simp add: event_fresh_def fresh)
  then show ?thesis
    using a by (auto simp: t stage_evolves_def)
qed

definition demo_add :: Command where
  "demo_add = AddStageRequest ''flow'' Op_thenAccept demo_closure [''1''] '''' ''''"

theorem add_stage_adds_witness:
  "\<exists>t. receiveCommand demo_add committed = Done t \<and>
    last (outbox t) = Respond (AddStageResponse ''flow'' (NextStageID committed)) \<and>
    (\<exists>st. GetStage (NextStageID committed) t = Some st \<and> operation st = Op_thenAccept)"
proof -
  have v: "ValidateCommand demo_add committed = Valid" and d: "is_done (receiveCommand demo_add committed)"
    by code_simp+
  obtain t where t: "receiveCommand demo_add committed = Done t"
    using is_doneE [OF d] by (rule exE)
  from add_stage_adds [OF demo_reachable(2) demo_hasGraph(2) v [unfolded demo_add_def] t [unfolded demo_add_def]]
  show ?thesis
    using t by (auto simp: demo_add_def)
qed

text \<open>A flow that is terminating or completed takes no new stages: the request is answered with an
  error and changes neither the graph nor the journal.\<close>

theorem no_stage_after_termination:
  assumes "hasGraph s" and "\<not> canModifyGraph s" and "isAddStageCommand cmd"
  shows "receiveCommand cmd s = Done (send (Respond (ErrorResponse (NewGraphCompletedError (CmdFlowId cmd)))) s)"
proof -
  have "ValidateCommand cmd s = Invalid (NewGraphCompletedError (CmdFlowId cmd))"
    using assms(2,3) by (simp add: ValidateCommand_def validate_add_def)
  then show ?thesis
    using assms(1,3) by (cases cmd) (simp_all add: receiveCommand_def validateCmd_def)
qed

theorem no_stage_after_termination_witness:
  "receiveCommand demo_add finishing =
     Done (send (Respond (ErrorResponse (NewGraphCompletedError ''flow''))) finishing)"
  using no_stage_after_termination [OF demo_hasGraph(3), of demo_add]
  by (simp add: demo_add_def canModifyGraph_iff demo_state)

text \<open>C18: Completing a stage from outside. The response says whether the stage was completed by this
  request; it was if it had no result before, and then it has the given result; otherwise
  nothing changes.\<close>

theorem complete_externally:
  assumes "reachable s" and "hasGraph s" and "GetStage sid s = Some a"
    and "ValidateCommand (CompleteStageExternallyRequest f sid (Some v) loc caller) s = Valid"
    and "receiveCommand (CompleteStageExternallyRequest f sid (Some v) loc caller) s = Done t"
  shows "last (outbox t) = Respond (CompleteStageExternallyResponse f sid (\<not> IsResolved a)) \<and>
    (if IsResolved a
     then t = send (Respond (CompleteStageExternallyResponse f sid False)) s
     else \<exists>b. GetStage sid t = Some b \<and> result b = Some v)"
proof -
  note r = reachable_facts [OF assms(1,2)]
  have p: "cmd_CompleteStageExternally f sid (Some v) s = Done t"
    using assms(2,4,5) by (simp add: receiveCommand_def validateCmd_def process_cmd_def)
  show ?thesis
  proof (cases "IsResolved a")
    case True
    then show ?thesis
      using p assms(3) by (auto simp: cmd_CompleteStageExternally_def)
  next
    case False
    then obtain u where u: "emit (StageCompletedEvent f sid (Some v)) s = Done u"
      and t: "t = send (Respond (CompleteStageExternallyResponse f sid True)) u"
      using p assms(3) by (auto simp: cmd_CompleteStageExternally_def bind_res_eq_Done Let_def)
    have "GetStage sid (mutate (StageCompletedEvent f sid (Some v) (currentTimestamp s)) s) = Some (complete v a)"
      using assms(3) by (simp add: mutate_def GetStage_upd_stage)
    then have "\<exists>b. GetStage sid u = Some b \<and> stage_evolves (complete v a) b"
      by (intro emit_evolves [OF u r(1,7,2)]) (simp_all add: event_fresh_def legal_def)
    then show ?thesis
      using False t by (auto simp: stage_evolves_def IsResolved_def)
  qed
qed

definition demo_value :: CompletionResult where
  "demo_value = \<lparr>Successful = True, ResultDatum = Some NewEmptyDatum\<rparr>"

definition demo_complete :: Command where
  "demo_complete = CompleteStageExternallyRequest ''flow'' ''1'' (Some demo_value) '''' ''''"

theorem complete_externally_witness:
  "\<exists>t b. receiveCommand demo_complete committed = Done t \<and> GetStage ''1'' t = Some b \<and> result b = Some demo_value"
proof -
  have v: "ValidateCommand demo_complete committed = Valid" and d: "is_done (receiveCommand demo_complete committed)"
    and n: "\<not> IsResolved (the (GetStage ''1'' committed))"
    by code_simp+
  obtain t where t: "receiveCommand demo_complete committed = Done t"
    using is_doneE [OF d] by (rule exE)
  have "GetStage ''1'' committed = Some (the (GetStage ''1'' committed))"
    by (metis demo_stage(2) option.sel)
  from complete_externally [OF demo_reachable(2) demo_hasGraph(2) this
      v [unfolded demo_complete_def] t [unfolded demo_complete_def]]
  show ?thesis
    using t n by (auto simp: demo_complete_def)
qed



end
