(* ===== verification/Service_Prelude.thy ===== *)
theory Service_Prelude
  imports Flow_Prelude
begin

text \<open>
  Vocabulary of the services around the graph actor: outcomes of calls that return a value
  and an error (\<open>outcome\<close>), Go's remainder, and the operations of Go's \<^verbatim>\<open>strings\<close> package that
  the services use.
\<close>

section \<open>Calls that return a value and an error\<close>

text \<open>Go's \<^verbatim>\<open>(value, nil)\<close>, \<^verbatim>\<open>(_, err)\<close>, and a panic.\<close>

datatype ('e, 'a) outcome = Returned 'a | Failed 'e | Panicked panic_reason

fun bind_outcome :: "('e, 'a) outcome \<Rightarrow> ('a \<Rightarrow> ('e, 'b) outcome) \<Rightarrow> ('e, 'b) outcome" where
  "bind_outcome (Returned a) f = f a"
| "bind_outcome (Failed e) f = Failed e"
| "bind_outcome (Panicked p) f = Panicked p"

lemma bind_outcome_eq_Returned:
  "bind_outcome r f = Returned b \<longleftrightarrow> (\<exists>a. r = Returned a \<and> f a = Returned b)"
  by (cases r) auto

lemma bind_outcome_eq_Panicked:
  "bind_outcome r f = Panicked p \<longleftrightarrow> r = Panicked p \<or> (\<exists>a. r = Returned a \<and> f a = Panicked p)"
  by (cases r) auto

section \<open>Remainder\<close>

text \<open>Go's \<^verbatim>\<open>%\<close>, which has the sign of the dividend.\<close>

definition go_rem :: "int \<Rightarrow> int \<Rightarrow> int" where
  "go_rem a b = a - quot a b * b"

lemma go_rem_nonneg: "0 \<le> a \<Longrightarrow> 0 < b \<Longrightarrow> go_rem a b = a mod b"
  by (simp add: go_rem_def quot_nonneg minus_div_mult_eq_mod)

section \<open>Strings\<close>

definition ToLower :: "string \<Rightarrow> string" where
  "ToLower s = map (\<lambda>c. let n = of_char c :: nat in if 65 \<le> n \<and> n \<le> 90 then char_of (n + 32) else c) s"

definition ToUpper :: "string \<Rightarrow> string" where
  "ToUpper s = map (\<lambda>c. let n = of_char c :: nat in if 97 \<le> n \<and> n \<le> 122 then char_of (n - 32) else c) s"

definition has_prefix :: "string \<Rightarrow> string \<Rightarrow> bool" where
  "has_prefix s p \<longleftrightarrow> take (length p) s = p"

text \<open>\<^verbatim>\<open>strconv.Atoi\<close>, and \<^verbatim>\<open>strconv.ParseInt\<close> with base 10 and 64 bits: decimal digits after an optional sign, within 64 bits.\<close>

definition is_digits :: "string \<Rightarrow> bool" where
  "is_digits s \<longleftrightarrow> s \<noteq> '''' \<and> list_all (\<lambda>c. c \<in> set ''0123456789'') s"

definition strconv_Atoi :: "string \<Rightarrow> int option" where
  "strconv_Atoi s =
     (let neg = (take 1 s = ''-''); ds = (if take 1 s = ''-'' \<or> take 1 s = ''+'' then drop 1 s else s);
          v = (if neg then - int (digits_value ds) else int (digits_value ds))
      in if is_digits ds \<and> - (2 ^ 63) \<le> v \<and> v < 2 ^ 63 then Some v else None)"

text \<open>\<^verbatim>\<open>strings.Split\<close> with a separator that is not empty: \<open>cur\<close> is the part being read.\<close>

function split_from :: "string \<Rightarrow> string \<Rightarrow> string \<Rightarrow> string list" where
  "split_from sep cur s =
     (if s = [] then [cur]
      else if sep \<noteq> [] \<and> has_prefix s sep then cur # split_from sep [] (drop (length sep) s)
      else split_from sep (cur @ [hd s]) (tl s))"
  by pat_completeness auto

termination
  by (relation "measure (\<lambda>(sep, cur, s). length s)") (auto simp: neq_Nil_conv)

declare split_from.simps [simp del]

definition strings_Split :: "string \<Rightarrow> string \<Rightarrow> string list" where
  "strings_Split s sep = split_from sep [] s"

definition strings_Contains :: "string \<Rightarrow> string \<Rightarrow> bool" where
  "strings_Contains s p \<longleftrightarrow> list_ex (\<lambda>i. has_prefix (drop i s) p) [0..<Suc (length s)]"

lemma has_prefix_append [simp]: "has_prefix (p @ s) p"
  by (simp add: has_prefix_def)

lemma split_from_none:
  assumes "\<And>i. i < length s \<Longrightarrow> \<not> has_prefix (drop i s) sep"
  shows "split_from sep cur s = [cur @ s]"
  using assms
proof (induction s arbitrary: cur)
  case Nil
  show ?case
    by (simp add: split_from.simps)
next
  case (Cons c s)
  have "\<not> has_prefix (drop i s) sep" if "i < length s" for i
    using Cons.prems [of "Suc i"] that by simp
  moreover have "\<not> has_prefix (c # s) sep"
    using Cons.prems [of 0] by simp
  ultimately show ?case
    using Cons.IH by (simp add: split_from.simps [of sep cur "c # s"])
qed

lemma split_prefix:
  assumes "sep \<noteq> []"
  shows "strings_Split (sep @ s) sep = [] # split_from sep [] s"
  using assms by (simp add: strings_Split_def split_from.simps [of sep "[]" "sep @ s"])

lemma strings_Contains_char: "strings_Contains s [c] \<longleftrightarrow> c \<in> set s"
proof -
  have "has_prefix (drop i s) [c] \<longleftrightarrow> i < length s \<and> s ! i = c" for i
    by (cases "i < length s") (auto simp: has_prefix_def Cons_nth_drop_Suc [symmetric])
  then show ?thesis
    by (auto simp: strings_Contains_def list_ex_iff in_set_conv_nth)
qed

end
