(* ===== verification/Sharding.thy ===== *)
theory Sharding
  imports Service_Prelude
begin

text \<open>
  The shard of a flow, \<^verbatim>\<open>src/sharding/sharding.go\<close>, and what it and the cluster proxy use of
  the vendored package \<^verbatim>\<open>github.com/google/uuid\<close>: parsing, printing and generating UUIDs.
\<close>

unbundle bit_operations_syntax

section \<open>UUIDs\<close>

text \<open>The sixteen bytes of a UUID.\<close>

type_synonym UUID = "8 word list"

datatype uuid_error = InvalidUUIDLength nat | InvalidURNPrefix string | InvalidUUIDFormat | RandomError

definition xvalues :: "char \<Rightarrow> 8 word" where
  "xvalues c = (let n = of_char c :: nat in
     if 48 \<le> n \<and> n \<le> 57 then word_of_nat (n - 48)
     else if 65 \<le> n \<and> n \<le> 70 then word_of_nat (n - 55)
     else if 97 \<le> n \<and> n \<le> 102 then word_of_nat (n - 87)
     else 255)"

definition xtob :: "char \<Rightarrow> char \<Rightarrow> 8 word option" where
  "xtob x1 x2 = (let b1 = xvalues x1; b2 = xvalues x2 in
     if b1 \<noteq> 255 \<and> b2 \<noteq> 255 then Some (push_bit 4 b1 OR b2) else None)"

fun parse_bytes :: "string \<Rightarrow> nat list \<Rightarrow> UUID option" where
  "parse_bytes s [] = Some []"
| "parse_bytes s (x # xs) =
     (case xtob (s ! x) (s ! (x + 1)) of
        None \<Rightarrow> None
      | Some v \<Rightarrow> map_option (Cons v) (parse_bytes s xs))"

definition byte_positions :: "nat list" where
  "byte_positions = [0, 2, 4, 6, 9, 11, 14, 16, 19, 21, 24, 26, 28, 30, 32, 34]"

definition parse_dashed :: "string \<Rightarrow> uuid_error + UUID" where
  "parse_dashed s =
     (if s ! 8 \<noteq> CHR ''-'' \<or> s ! 13 \<noteq> CHR ''-'' \<or> s ! 18 \<noteq> CHR ''-'' \<or> s ! 23 \<noteq> CHR ''-''
      then Inl InvalidUUIDFormat
      else case parse_bytes s byte_positions of None \<Rightarrow> Inl InvalidUUIDFormat | Some u \<Rightarrow> Inr u)"

definition uuid_Parse :: "string \<Rightarrow> uuid_error + UUID" where
  "uuid_Parse s =
     (if length s \<noteq> 36
      then (if length s \<noteq> 36 + 9 then Inl (InvalidUUIDLength (length s))
            else if ToLower (take 9 s) \<noteq> ''urn:uuid:'' then Inl (InvalidURNPrefix (take 9 s))
            else parse_dashed (drop 9 s))
      else parse_dashed s)"

text \<open>\<^verbatim>\<open>hex.Encode\<close> and \<^verbatim>\<open>UUID.String\<close>.\<close>

definition hex_digit :: "nat \<Rightarrow> char" where
  "hex_digit n = (if n < 10 then char_of (48 + n) else char_of (87 + n))"

definition hex_byte :: "8 word \<Rightarrow> string" where
  "hex_byte b = [hex_digit (unat (drop_bit 4 b)), hex_digit (unat (b AND 15))]"

definition hex_Encode :: "UUID \<Rightarrow> string" where
  "hex_Encode bs = concat (map hex_byte bs)"

definition uuid_String :: "UUID \<Rightarrow> string" where
  "uuid_String u =
     hex_Encode (take 4 u) @ ''-'' @ hex_Encode (take 2 (drop 4 u)) @ ''-'' @
     hex_Encode (take 2 (drop 6 u)) @ ''-'' @ hex_Encode (take 2 (drop 8 u)) @ ''-'' @
     hex_Encode (drop 10 u)"

text \<open>\<open>bytes\<close> are the sixteen bytes read from the random source, \<open>None\<close> if the read fails.\<close>

definition uuid_NewRandom :: "UUID option \<Rightarrow> uuid_error + UUID" where
  "uuid_NewRandom bytes =
     (case bytes of
        None \<Rightarrow> Inl RandomError
      | Some u \<Rightarrow> Inr (u[6 := (u ! 6 AND 15) OR 64, 8 := (u ! 8 AND 63) OR 128]))"

section \<open>Shards\<close>

record fixedSizeShardExtractor =
  shardCount :: int

definition NewFixedSizeExtractor :: "int \<Rightarrow> fixedSizeShardExtractor" where
  "NewFixedSizeExtractor n = \<lparr>shardCount = n\<rparr>"

definition BigEndian_Uint64 :: "8 word list \<Rightarrow> 64 word" where
  "BigEndian_Uint64 bs = foldl (\<lambda>w b. push_bit 8 w OR ucast b) 0 bs"

definition ShardID :: "fixedSizeShardExtractor \<Rightarrow> string \<Rightarrow> (uuid_error, int) outcome" where
  "ShardID m flowID =
     (case uuid_Parse flowID of
        Inl err \<Rightarrow> Failed err
      | Inr u \<Rightarrow>
          (let lowBits = BigEndian_Uint64 (take 8 u);
               hiBits = BigEndian_Uint64 (drop 8 u);
               hilo = lowBits XOR hiBits
           in if (word_of_int (shardCount m) :: 64 word) = 0 then Panicked DivideByZero
              else Returned (int64 (uint (hilo mod word_of_int (shardCount m))))))"

definition ShardCount :: "fixedSizeShardExtractor \<Rightarrow> int" where
  "ShardCount m = shardCount m"

section \<open>Round trip of UUIDs\<close>

lemma xvalues_hex_digit:
  assumes "n < 16"
  shows "xvalues (hex_digit n) = word_of_nat n" and "(word_of_nat n :: 8 word) \<noteq> 255"
proof -
  from assms have "n \<in> {0, 1, 2, 3, 4, 5, 6, 7, 8, 9, 10, 11, 12, 13, 14, 15}"
    by simp presburger
  then show "xvalues (hex_digit n) = word_of_nat n" and "(word_of_nat n :: 8 word) \<noteq> 255"
    by (auto simp: xvalues_def hex_digit_def)
qed

lemma nibbles: "push_bit 4 (drop_bit 4 b) OR (b AND 15) = (b :: 8 word)"
proof -
  have 15: "(15 :: 8 word) = mask 4"
    by (simp add: mask_eq_exp_minus_1)
  show ?thesis
    unfolding 15 by (rule bit_word_eqI) (auto simp: bit_simps)
qed

lemma nibble_bounds:
  fixes b :: "8 word"
  shows "unat (drop_bit 4 b) < 16" and "unat (b AND 15) < 16"
proof -
  have "unat b < 2 ^ LENGTH(8)"
    by (rule unsigned_less)
  then show "unat (drop_bit 4 b) < 16"
    by (simp add: drop_bit_eq_div unat_div)
  show "unat (b AND 15) < 16"
    using word_and_le1 [of b 15] by (simp add: word_le_nat_alt)
qed

lemma xtob_hex [simp]: "xtob (hex_digit (unat (drop_bit 4 b))) (hex_digit (unat (b AND 15))) = Some b"
  using xvalues_hex_digit [OF nibble_bounds(1)] xvalues_hex_digit [OF nibble_bounds(2)]
  by (simp add: xtob_def nibbles)

lemma length_16E:
  assumes "length u = 16"
  obtains a b c d e f g h i j k l m n p q where "u = [a, b, c, d, e, f, g, h, i, j, k, l, m, n, p, q]"
proof -
  have "u = map ((!) u) [0..<16]"
    using assms by (metis map_nth)
  then show ?thesis
    using that by (simp add: upt_rec)
qed

lemma uuid_String_parse:
  assumes "length u = 16"
  shows "uuid_Parse (uuid_String u) = Inr u" and "length (uuid_String u) = 36"
proof -
  obtain a b c d e f g h i j k l m n p q where u: "u = [a, b, c, d, e, f, g, h, i, j, k, l, m, n, p, q]"
    by (rule length_16E [OF assms])
  show "length (uuid_String u) = 36"
    unfolding u by (simp add: uuid_String_def hex_Encode_def hex_byte_def)
  show "uuid_Parse (uuid_String u) = Inr u"
    unfolding u by (simp add: uuid_Parse_def uuid_String_def hex_Encode_def hex_byte_def parse_dashed_def byte_positions_def)
qed

section \<open>The contract of a shard extractor\<close>

locale shard_extractor =
  fixes shard_id :: "string \<Rightarrow> (uuid_error, int) outcome" and shard_count :: int
  assumes shard_in_range: "shard_id f = Returned s \<Longrightarrow> 0 \<le> s \<and> s < shard_count"
    and shard_no_panic: "shard_id f \<noteq> Panicked p"
begin

lemma shard_cases: "(\<exists>s. shard_id f = Returned s \<and> 0 \<le> s \<and> s < shard_count) \<or> (\<exists>e. shard_id f = Failed e)"
  using shard_in_range shard_no_panic by (cases "shard_id f") auto

text \<open>The node that owns a shard when shards are dealt out to the nodes in turn.\<close>

lemma owner_in_range:
  assumes "0 < nodes" and "shard_id f = Returned s"
  shows "go_rem s nodes = s mod nodes" and "0 \<le> s mod nodes" and "s mod nodes < nodes"
  using assms shard_in_range [OF assms(2)] by (simp_all add: go_rem_nonneg)

end

lemma uint_count:
  assumes "0 < n" and "n < 2 ^ 63"
  shows "uint (word_of_int n :: 64 word) = n"
  using assms by (simp add: unsigned_of_int take_bit_int_eq_self)

lemma fixed_shard:
  assumes n: "0 < n" "n < 2 ^ 63"
  shows "0 \<le> int64 (uint (w mod word_of_int n :: 64 word)) \<and> int64 (uint (w mod word_of_int n :: 64 word)) < n"
    and "(word_of_int n :: 64 word) \<noteq> 0"
proof -
  have eq: "uint (w mod word_of_int n :: 64 word) = uint w mod n"
    using uint_count [OF n] by (simp add: uint_mod)
  have "0 \<le> uint w mod n" and "uint w mod n < n"
    using n by simp_all
  moreover from this have "int64 (uint w mod n) = uint w mod n"
    using n by (intro int64_id) linarith+
  ultimately show "0 \<le> int64 (uint (w mod word_of_int n :: 64 word)) \<and> int64 (uint (w mod word_of_int n :: 64 word)) < n"
    unfolding eq by simp
  show "(word_of_int n :: 64 word) \<noteq> 0"
    using uint_count [OF n] n by auto
qed

lemma fixed_size_extractor:
  assumes "0 < n" and "n < 2 ^ 63"
  shows "shard_extractor (ShardID (NewFixedSizeExtractor n)) (ShardCount (NewFixedSizeExtractor n))"
  by unfold_locales
     (use fixed_shard [OF assms] in \<open>auto simp: ShardID_def NewFixedSizeExtractor_def ShardCount_def Let_def split: sum.splits\<close>)

text \<open>For every positive value of Go's \<^verbatim>\<open>int\<close>.\<close>

interpretation fixed: shard_extractor "ShardID (NewFixedSizeExtractor (min (int (Suc k)) (2 ^ 63 - 1)))"
    "ShardCount (NewFixedSizeExtractor (min (int (Suc k)) (2 ^ 63 - 1)))" for k
  by (rule fixed_size_extractor) simp_all

lemma ShardID_String:
  assumes "length u = 16" and "0 < n" and "n < 2 ^ 63"
  shows "\<exists>s. ShardID (NewFixedSizeExtractor n) (uuid_String u) = Returned s \<and> 0 \<le> s \<and> s < n"
  using fixed_shard [OF assms(2,3)] uuid_String_parse(1) [OF assms(1)]
  by (auto simp: ShardID_def NewFixedSizeExtractor_def Let_def)

end
