(* ===== verification/Flow_Api.thy ===== *)
theory Flow_Api
  imports Sharding Graph_Actor
begin

text \<open>
  The node-local flow service of \<^verbatim>\<open>src/actor/api.go\<close>: it finds the supervisor of a flow's
  shard, asks it, waits for the answer and hands it to the client. Supervisors and the
  executor are named by their actor identifiers. Asking an actor (\<^verbatim>\<open>RequestFuture\<close> and
  \<^verbatim>\<open>Result\<close> of the actor library) is an argument \<open>ask\<close>, given the identifier, the
  message and the timeout in nanoseconds.
\<close>

type_synonym PID = string

datatype service_error =
    BadFlowID uuid_error
  | ServiceError error
  | StreamOverflow
  | SendFailed

datatype future_result = FutureValue Response | FutureTimeout | FutureError error

type_synonym ask = "PID \<Rightarrow> Command \<Rightarrow> int \<Rightarrow> future_result"

record actorManager =
  shardSupervisors :: "(int \<times> PID) list"
  executorPID :: PID
  shardExtractor :: fixedSizeShardExtractor

definition supervisorName :: "int \<Rightarrow> string" where
  "supervisorName shardID = ''supervisor'' @ ''-'' @ itoa_int shardID"

section \<open>Construction\<close>

text \<open>\<^verbatim>\<open>actor.SpawnNamed\<close> refuses a name that is registered already; \<open>names\<close> are the registered
  ones.\<close>

definition SpawnNamed :: "PID \<Rightarrow> PID list \<Rightarrow> PID list option" where
  "SpawnNamed name names = (if name \<in> set names then None else Some (name # names))"

fun spawn_supervisors :: "int list \<Rightarrow> PID list \<Rightarrow> (int \<times> PID) list \<Rightarrow> ((int \<times> PID) list \<times> PID list) option" where
  "spawn_supervisors [] names sups = Some (sups, names)"
| "spawn_supervisors (shard # shards) names sups =
     (case SpawnNamed (supervisorName shard) names of
        None \<Rightarrow> None
      | Some names' \<Rightarrow>
          spawn_supervisors shards names' (AList.update shard (supervisorName shard) sups))"

text \<open>The URL package is given by \<open>parse\<close>: the path of a URL, if it is well formed. The manager, the
  registered names, and whether the default path \<^verbatim>\<open>r\<close> was added.\<close>

definition NewGraphManager ::
  "(string \<Rightarrow> string option) \<Rightarrow> string \<Rightarrow> fixedSizeShardExtractor \<Rightarrow> int list \<Rightarrow> PID list \<Rightarrow>
   (service_error, actorManager \<times> PID list \<times> bool) outcome" where
  "NewGraphManager parse fnURL extractor shards names =
     (case parse fnURL of
        None \<Rightarrow> Failed (ServiceError (PlainError ''Invalid functions server URL''))
      | Some path \<Rightarrow>
          (case SpawnNamed ''executor'' names of
             None \<Rightarrow> Panicked (PanicMessage ''Failed to spawn executor actor'')
           | Some names' \<Rightarrow>
               (case spawn_supervisors shards names' [] of
                  None \<Rightarrow> Panicked (PanicMessage ''Failed to spawn actor'')
                | Some (sups, names'') \<Rightarrow>
                    Returned (\<lparr>shardSupervisors = sups, executorPID = ''executor'',
                               shardExtractor = extractor\<rparr>, names'', path = ''''))))"

section \<open>Requests\<close>

text \<open>\<open>None\<close> is a request without a flow identifier.\<close>

definition lookupSupervisor :: "actorManager \<Rightarrow> Command option \<Rightarrow> (service_error, PID) outcome" where
  "lookupSupervisor m req =
     (case req of
        None \<Rightarrow> Failed (ServiceError (StatusError Code_Unimplemented ''Ignoring request of unknown type''))
      | Some msg \<Rightarrow>
          (case ShardID (shardExtractor m) (CmdFlowId msg) of
             Failed err \<Rightarrow> Failed (ServiceError (NewGraphNotFoundError (CmdFlowId msg)))
           | Panicked p \<Rightarrow> Panicked p
           | Returned shardID \<Rightarrow>
               (case map_of (shardSupervisors m) shardID of
                  None \<Rightarrow> Failed (ServiceError (NewGraphNotFoundError (CmdFlowId msg)))
                | Some pid \<Rightarrow> Returned pid)))"

definition defaultRequestTimeout :: int where
  "defaultRequestTimeout = 5 * 10 ^ 9"

text \<open>\<open>deadline\<close> is the deadline of the context, if it has one, and \<open>now\<close> the clock, both in
  nanoseconds.\<close>

definition forwardRequest ::
  "ask \<Rightarrow> int option \<Rightarrow> int \<Rightarrow> Command \<Rightarrow> actorManager \<Rightarrow> (service_error, Response) outcome" where
  "forwardRequest ask deadline now req m =
     (let requestTimeout = (case deadline of None \<Rightarrow> defaultRequestTimeout | Some d \<Rightarrow> d - now) in
      bind_outcome (lookupSupervisor m (Some req))
        (\<lambda>supervisor.
           case ask supervisor req requestTimeout of
             FutureTimeout \<Rightarrow> Failed (ServiceError (StatusError Code_DeadlineExceeded ''future: timeout''))
           | FutureError err \<Rightarrow> Failed (ServiceError err)
           | FutureValue (ErrorResponse err) \<Rightarrow> Failed (ServiceError err)
           | FutureValue r \<Rightarrow> Returned r))"

text \<open>The type assertion on the answer.\<close>

definition assert_type ::
  "(Response \<Rightarrow> bool) \<Rightarrow> (service_error, Response) outcome \<Rightarrow> (service_error, Response) outcome" where
  "assert_type ok r = bind_outcome r (\<lambda>r. if ok r then Returned r else Panicked BadTypeAssertion)"

definition api_CreateGraph where
  "api_CreateGraph ask deadline now f fn m =
     assert_type is_CreateGraphResponse (forwardRequest ask deadline now (CreateGraphRequest f fn) m)"

definition api_GetGraphState where
  "api_GetGraphState ask deadline now f m =
     assert_type is_GetGraphStateResponse (forwardRequest ask deadline now (GetGraphStateRequest f) m)"

definition api_AddInvokeFunction where
  "api_AddInvokeFunction ask deadline now f fn arg loc caller m =
     assert_type is_AddStageResponse
       (forwardRequest ask deadline now (AddInvokeFunctionStageRequest f fn arg loc caller) m)"

definition api_AddDelay where
  "api_AddDelay ask deadline now f ms loc caller m =
     assert_type is_AddStageResponse (forwardRequest ask deadline now (AddDelayStageRequest f ms loc caller) m)"

definition api_AddStage where
  "api_AddStage ask deadline now f op cl deps loc caller m =
     assert_type is_AddStageResponse
       (forwardRequest ask deadline now (AddStageRequest f op cl deps loc caller) m)"

definition api_AddValueStage where
  "api_AddValueStage ask deadline now f v loc caller m =
     assert_type is_AddStageResponse
       (forwardRequest ask deadline now (AddCompletedValueStageRequest f v loc caller) m)"

text \<open>The deadline \<^verbatim>\<open>AwaitStageResult\<close> waits under: the milliseconds are a 32-bit integer, so the
  conversions to \<^verbatim>\<open>float64\<close> and back are exact.\<close>

definition await_deadline :: "int \<Rightarrow> int option \<Rightarrow> int \<Rightarrow> int option" where
  "await_deadline timeoutMs deadline now =
     (if timeoutMs > 0
      then (let awaitTimeout = min (timeoutMs * 10 ^ 6) (3600 * 10 ^ 9);
                awaitTimeout = (case deadline of None \<Rightarrow> awaitTimeout | Some d \<Rightarrow> min (d - now) awaitTimeout)
            in Some (case deadline of None \<Rightarrow> now + awaitTimeout | Some d \<Rightarrow> min d (now + awaitTimeout)))
      else deadline)"

definition api_AwaitStageResult where
  "api_AwaitStageResult ask deadline now now' f sid timeoutMs m =
     assert_type is_AwaitStageResultResponse
       (forwardRequest ask (await_deadline timeoutMs deadline now) now' (AwaitStageResultRequest f sid timeoutMs) m)"

text \<open>\<^verbatim>\<open>CompleteStageExternally\<close> does not look at the error first; the assertion on a missing
  answer panics.\<close>

definition api_CompleteStageExternally ::
  "ask \<Rightarrow> int option \<Rightarrow> int \<Rightarrow> flow_id \<Rightarrow> stage_id \<Rightarrow> CompletionResult option \<Rightarrow> string \<Rightarrow> string \<Rightarrow>
   actorManager \<Rightarrow> (service_error, Response) outcome" where
  "api_CompleteStageExternally ask deadline now f sid v loc caller m =
     (case forwardRequest ask deadline now (CompleteStageExternallyRequest f sid v loc caller) m of
        Returned r \<Rightarrow> if is_CompleteStageExternallyResponse r then Returned r else Panicked BadTypeAssertion
      | Failed err \<Rightarrow> Panicked BadTypeAssertion
      | Panicked p \<Rightarrow> Panicked p)"

definition api_Commit where
  "api_Commit ask deadline now f m =
     assert_type is_GraphRequestProcessedResponse (forwardRequest ask deadline now (CommitGraphRequest f) m)"

definition graphActorPath :: "actorManager \<Rightarrow> flow_id \<Rightarrow> (service_error, string) outcome" where
  "graphActorPath m flowID =
     (case ShardID (shardExtractor m) flowID of
        Failed err \<Rightarrow> Failed (BadFlowID err)
      | Panicked p \<Rightarrow> Panicked p
      | Returned shardID \<Rightarrow> Returned (supervisorName shardID @ ''/'' @ flowID))"

end
