(* ===== verification/Actor_Replies.thy ===== *)
theory Actor_Replies
  imports Actor_Demo Flow_Api
begin

text \<open>
  What clients are told. A second use of the contract of \<open>Listener_Contract\<close>: nothing the graph
  sets off sends a response, so each request is answered by its own handler, once, with a
  message of the type that the service of \<^verbatim>\<open>src/actor/api.go\<close> asserts.
\<close>

fun reply_of :: "Effect \<Rightarrow> Response option" where
  "reply_of (Respond r) = Some r"
| "reply_of _ = None"

definition replies :: "graphActor \<Rightarrow> Response list" where
  "replies s = List.map_filter reply_of (outbox s)"

text \<open>What the graph may send while it works: to the executor it sends its own stages only, with the
  function the flow was created with.\<close>

fun background :: "function_id \<Rightarrow> Effect \<Rightarrow> bool" where
  "background fn (InvokeStageRequest fn' f sid args cl) = (fn' = fn)"
| "background fn (InvokeFunctionRequest f sid fn' arg) = False"
| "background fn (Respond r) = False"
| "background fn _ = True"

definition quiet :: "graphActor \<Rightarrow> graphActor \<Rightarrow> bool" where
  "quiet s t \<longleftrightarrow> FunctionID t = FunctionID s \<and> (\<exists>xs. outbox t = outbox s @ xs \<and> list_all (background (FunctionID s)) xs)"

lemma quiet_same: "FunctionID t = FunctionID s \<Longrightarrow> outbox t = outbox s \<Longrightarrow> quiet s t"
  by (simp add: quiet_def)

lemma quiet_refl [simp]: "quiet s s"
  by (simp add: quiet_same)

lemma quiet_trans: "quiet s t \<Longrightarrow> quiet t u \<Longrightarrow> quiet s u"
  by (auto simp: quiet_def)

lemma quiet_send: "quiet s t \<Longrightarrow> background (FunctionID s) x \<Longrightarrow> quiet s (send x t)"
  by (auto simp: quiet_def send_def)

lemma quiet_cong:
  "FunctionID s' = FunctionID s \<Longrightarrow> outbox s' = outbox s \<Longrightarrow> quiet s' = quiet s"
  by (simp add: quiet_def fun_eq_iff)

lemma map_filter_append: "List.map_filter f (xs @ ys) = List.map_filter f xs @ List.map_filter f ys"
  by (simp add: List.map_filter_def)

lemma background_reply: "background fn x \<Longrightarrow> reply_of x = None"
  by (cases x) auto

lemma quiet_replies: "quiet s t \<Longrightarrow> replies t = replies s"
proof -
  have "List.map_filter reply_of xs = []" if "list_all (background fn) xs" for fn xs
    using that by (induction xs) (auto simp: List.map_filter_simps background_reply)
  then show "quiet s t \<Longrightarrow> replies t = replies s"
    by (auto simp: quiet_def replies_def map_filter_append)
qed

lemma replies_send [simp]:
  "replies (send x s) = replies s @ (case reply_of x of None \<Rightarrow> [] | Some r \<Rightarrow> [r])"
  by (simp add: replies_def map_filter_append List.map_filter_simps split: option.splits)

lemma replies_simps [simp]:
  "replies (tick s) = replies s" "replies (s\<lparr>mixin := m\<rparr>) = replies s" "replies (mutate e s) = replies s"
  "replies (update_startTime e s) = replies s" "replies (next_order s) = replies s"
  "replies (upd_stage k f s) = replies s" "replies (initGraph f' fn s) = replies s"
  "replies (scheduleDelay f' k t s) = replies s"
  by (simp_all add: replies_def scheduleDelay_def Let_def send_def map_filter_append List.map_filter_simps)

lemma quiet_simps [simp]:
  "quiet s (next_order s)" "quiet s (upd_stage k f s)" "quiet (tick s) = quiet s" "quiet s (tick s)"
  by (simp_all add: quiet_def next_order_def upd_stage_def tick_def fun_eq_iff)

lemma keeps_quiet_tick [simp]: "keeps (=) quiet (tick s) r = keeps (=) quiet s r"
  by (cases r) simp_all

lemma FunctionID_mutate [simp]: "FunctionID (mutate e s) = FunctionID s" "FunctionID (update_startTime e s) = FunctionID s"
  by (auto simp: mutate_def mutate_add_def mutate_hook_def update_startTime_def upd_stage_def Let_def
      split: Event.splits prod.splits option.splits)

lemma quiet_PersistReceive:
  assumes "wf_graph s"
  shows "keeps (=) quiet s (actor_PersistReceive e s)"
  using actor_PersistReceive_graph [of s e] assms
  by (cases "actor_PersistReceive e s") (auto intro: quiet_same)

lemma quiet_bind:
  assumes "keeps (=) quiet s r" and "\<And>t. wf_graph t \<Longrightarrow> FunctionID t = FunctionID s \<Longrightarrow> keeps (=) quiet t (f t)"
  shows "keeps (=) quiet s (bind_res r f)"
proof (cases r)
  case (Done t)
  then have "quiet s t" and "keeps (=) quiet t (f t)"
    using assms by (auto simp: quiet_def)
  then show ?thesis
    using Done by (cases "f t") (auto intro: quiet_trans)
qed (use assms in simp_all)

lemma quiet_persistAndUpdateGraph:
  assumes lis: "listener_contract lis quiet (=)" and wf: "wf_graph s" and e: "\<And>ts. event_fresh (mk ts) s"
  shows "keeps (=) quiet s (persistAndUpdateGraph lis mk s)"
proof -
  let ?e = "mk (currentTimestamp s)"
  have *: "keeps (=) quiet s (UpdateWithEvent lis ?e b t)"
    if "wf_graph t" "stage_keys t = stage_keys s" "FunctionID t = FunctionID s" "outbox t = outbox s" for t b
  proof -
    have "quiet (mutate ?e (update_startTime ?e t)) = quiet s"
      using that(3,4) by (intro quiet_cong) simp_all
    then show ?thesis
      using listener_contract.keeps_UpdateWithEvent [OF lis that(1), of ?e b] e event_fresh_cong [OF that(2)]
      by (cases "UpdateWithEvent lis ?e b t") auto
  qed
  show ?thesis
    using actor_PersistReceive_graph [of "tick s" ?e] wf
    by (cases "actor_PersistReceive ?e (tick s)")
       (auto simp: persistAndUpdateGraph_def Let_def intro!: * quiet_same)
qed

lemma quiet_listener_contract: "listener_contract (actorListener n) quiet (=)"
proof (induction n)
  case 0
  show ?case
    by unfold_locales (auto intro: quiet_trans)
next
  case (Suc n)
  have upd: "keeps (=) quiet g (persistAndUpdateGraph (actorListener n) mk g)"
    if "wf_graph g" "\<And>ts. \<not> is_StageAddedEvent (mk ts)" for g mk
    using that by (intro quiet_persistAndUpdateGraph [OF Suc] not_added_fresh)
  show ?case
  proof unfold_locales
    fix g :: graphActor and st rs
    assume "wf_graph g"
    then show "keeps (=) quiet g (actorListener (Suc n) (OnExecuteStage st rs) g)"
      using quiet_PersistReceive [of "tick g"]
      by (auto simp: actor_OnExecuteStage_def intro!: quiet_bind quiet_send)
  next
    fix g :: graphActor
    assume "wf_graph g"
    then show "keeps (=) quiet g (actorListener (Suc n) OnGraphComplete g)"
      by (auto simp: actor_OnGraphComplete_def intro!: quiet_bind upd quiet_send)
  qed (auto simp: actor_OnCompleteStage_def actor_OnComposeStage_def
      actor_OnGraphExecutionFinished_def intro: upd quiet_trans)
qed

interpretation replies: listener_contract "actorListener n" quiet "(=)" for n
  by (rule quiet_listener_contract)

lemma quiet_emit:
  assumes "wf_graph s" and "\<And>ts. event_fresh (mk ts) s"
  shows "keeps (=) quiet s (emit mk s)"
  unfolding emit_def by (rule quiet_persistAndUpdateGraph [OF quiet_listener_contract]) (simp_all add: assms)

lemma quiet_emit_added:
  assumes "wf_graph s" and "flow_inv s"
  shows "keeps (=) quiet s (emit (\<lambda>ts. StageAddedEvent f (NextStageID s) op cl deps ts loc caller) s)"
  using assms NextStageID_fresh [of s] by (intro quiet_emit) (simp_all add: event_fresh_def flow_inv_def)

lemma quiet_emit_other: "wf_graph s \<Longrightarrow> (\<And>ts. \<not> is_StageAddedEvent (mk ts)) \<Longrightarrow> keeps (=) quiet s (emit mk s)"
  by (intro quiet_emit not_added_fresh)

lemma quiet_persist:
  assumes "wf_graph s"
  shows "keeps (=) quiet s (actor_PersistReceive e (tick s))" "keeps (=) quiet s (actor_PersistReceive e (tick (tick s)))"
  using quiet_PersistReceive [of "tick s" e] quiet_PersistReceive [of "tick (tick s)" e] assms by simp_all

lemmas quiet_rules = quiet_emit_added quiet_persist

section \<open>Replies to commands\<close>

text \<open>The requests of clients, and the type of the answer the service expects.\<close>

fun expected :: "Command \<Rightarrow> Response \<Rightarrow> bool" where
  "expected (CreateGraphRequest f fn) r = is_CreateGraphResponse r"
| "expected (GetGraphStateRequest f) r = is_GetGraphStateResponse r"
| "expected (AddStageRequest f op cl deps loc caller) r = is_AddStageResponse r"
| "expected (AddCompletedValueStageRequest f v loc caller) r = is_AddStageResponse r"
| "expected (AddDelayStageRequest f ms loc caller) r = is_AddStageResponse r"
| "expected (AddInvokeFunctionStageRequest f fn arg loc caller) r = is_AddStageResponse r"
| "expected (CompleteStageExternallyRequest f sid v loc caller) r = is_CompleteStageExternallyResponse r"
| "expected (CommitGraphRequest f) r = is_GraphRequestProcessedResponse r"
| "expected _ r = False"

fun is_request :: "Command \<Rightarrow> bool" where
  "is_request (AwaitStageResultRequest f sid t) = False"
| "is_request (CompleteDelayStageRequest f sid r) = False"
| "is_request (FaasInvocationResponse f sid fn r call) = False"
| "is_request (DeactivateGraphRequest f) = False"
| "is_request (OtherCommand f) = False"
| "is_request _ = True"

text \<open>An answer that refuses a request, for a reason that lies in the request: the codes of the errors
  with which commands fail their validation.\<close>

fun refusal :: "Response \<Rightarrow> bool" where
  "refusal (ErrorResponse (StatusError c m)) \<longleftrightarrow>
     c \<in> {Code_NotFound, Code_AlreadyExists, Code_FailedPrecondition, Code_InvalidArgument, Code_Unimplemented, Code_ResourceExhausted}"
| "refusal _ \<longleftrightarrow> False"

lemma refusal_error [simp]: "refusal r \<Longrightarrow> is_ErrorResponse r"
  by (cases r) simp_all

lemmas request_errors = NewGraphAlreadyExistsError_def NewGraphNotFoundError_def NewGraphCompletedError_def
  NewInvalidDelayError_def NewStageNotFoundError_def NewInvalidStageDependenciesError_def NewInvalidDatumError_def
  NewNeedsClosureError_def NewShouldNotHaveClosureError_def NewInvalidOperationError_def NewTooManyStagesError_def
  NewTooManyTerminationHooksError_def

lemma invalid_refusal: "ValidateCommand cmd s = Invalid err \<Longrightarrow> refusal (ErrorResponse err)"
  by (cases cmd)
     (auto simp: ValidateCommand_def validate_add_def validate_by_type_def validate_datum_def request_errors Let_def
      split: if_splits option.splits)

definition answers :: "Command \<Rightarrow> graphActor \<Rightarrow> graphActor \<Rightarrow> bool" where
  "answers cmd s t \<longleftrightarrow> (\<exists>r. replies t = replies s @ [r] \<and> (expected cmd r \<or> refusal r))"

definition answering :: "Command \<Rightarrow> graphActor \<Rightarrow> graphActor res \<Rightarrow> bool" where
  "answering cmd s r \<longleftrightarrow> res_done (answers cmd s) r"

lemma answering_bind:
  assumes "keeps (=) quiet s r" and "\<And>u. wf_graph u \<Longrightarrow> answering cmd u (f u)"
  shows "answering cmd s (bind_res r f)"
proof (cases r)
  case (Done u)
  then have "wf_graph u" and "answers cmd u = answers cmd s"
    using assms(1) by (auto simp: answers_def fun_eq_iff dest: quiet_replies)
  then show ?thesis
    using assms(2) [of u] Done by (simp add: answering_def)
qed (simp_all add: answering_def)

lemma answering_send:
  "replies u = replies s \<Longrightarrow> expected cmd r \<or> refusal r \<Longrightarrow>
   answering cmd s (Done (send (Respond r) u))"
  by (auto simp: answering_def answers_def)

lemmas cmd_defs = process_cmd_def cmd_AddStage_def cmd_AddCompletedValueStage_def cmd_AddDelayStage_def
  cmd_AddInvokeFunctionStage_def cmd_CompleteStageExternally_def cmd_CommitGraph_def Let_def

lemma process_answers:
  assumes "wf_graph s" and "flow_inv s" and "is_request cmd" and "\<not> is_CreateGraphRequest cmd"
  shows "answering cmd s (process_cmd cmd s)"
proof -
  have [simp]: "keeps (=) quiet s (Done s)" "answering c s (Panic p u)" for p u c
    using assms(1) by (simp_all add: answering_def)
  show ?thesis
    using assms
    by (cases cmd)
       (auto simp: cmd_defs createExternalState_def intro!: answering_bind quiet_rules answering_send intro: quiet_emit_other split: option.splits)
qed

lemma command_answers:
  assumes inv: "actor_inv s" and req: "is_request cmd"
  shows "answering cmd s (receiveCommand cmd s)"
proof (cases "hasGraph s")
  case True
  then have "wf_graph s" "flow_inv s"
    using inv by (auto simp: actor_inv_def)
  then have "\<not> is_CreateGraphRequest cmd \<Longrightarrow> answering cmd s (process_cmd cmd s)"
    using process_answers req by blast
  then show ?thesis
    using True by (cases cmd)
      (auto simp: receiveCommand_def validateCmd_def answering_send request_errors answering_def [of _ _ "Panic p u" for p u]
        dest!: invalid_refusal split: validation.splits)
next
  case False
  show ?thesis
    using False
    by (cases cmd)
       (auto simp: receiveCommand_def validateCmd_def process_cmd_def cmd_CreateGraph_def answering_send request_errors
        actor_PersistReceive_def answering_def [of _ _ "Panic p u" for p u] answering_def [of _ _ NoFuel]
        split: res.splits)
qed

section \<open>Properties\<close>

text \<open>Every request of a client is answered exactly once, and by the actor that handles it: when
  the graph actor has processed a request to create a flow, to add a stage, to complete one,
  to commit or to report the flow's state, it has sent exactly one response, which refuses the request or has
  the type the service expects of this request, however many stages the request set off.\<close>

theorem request_answered_once:
  assumes "reachable s" and "is_request cmd" and "receiveCommand cmd s = Done t"
  shows "\<exists>r. replies t = replies s @ [r] \<and> (expected cmd r \<or> refusal r)"
  using command_answers [OF reachable_inv [OF assms(1)] assms(2)] assms(3)
  by (simp add: answering_def answers_def)

theorem request_answered_once_witness:
  "\<exists>t r. receiveCommand (CommitGraphRequest ''flow'') built = Done t \<and> replies t = replies built @ [r] \<and>
     (is_GraphRequestProcessedResponse r \<or> refusal r)"
proof -
  have "is_done (receiveCommand (CommitGraphRequest ''flow'') built)"
    by code_simp
  then obtain t where "receiveCommand (CommitGraphRequest ''flow'') built = Done t"
    using is_doneE by blast
  with request_answered_once [OF demo_reachable(1) _ this] show ?thesis
    by auto
qed

end
