(* ===== verification/Listener_Launch.thy ===== *)
theory Listener_Launch
  imports Listener_Settled
begin

text \<open>
  No invocation is forgotten: a stage that has been triggered and has no result yet has been
  handed to someone who will answer. \<open>ask k g\<close> says that somebody was asked for the result of
  stage \<open>k\<close>; \<open>waiting\<close> is the set of triggered stages that wait for nobody, or for an answer
  that they would not take as their result. An operation of the
  graph marks a stage before it calls the listener for it, so the contract is that no
  operation leaves more such stages than it found.
\<close>

definition waiting ::
  "(stage_id \<Rightarrow> 'a CompletionGraph_scheme \<Rightarrow> bool) \<Rightarrow> 'a CompletionGraph_scheme \<Rightarrow> stage_id set" where
  "waiting ask g =
     {k. \<exists>st. GetStage k g = Some st \<and> \<not> IsResolved st \<and> triggered st \<and>
       operation st \<noteq> Op_invokeFunction \<and> \<not> (ask k g \<and> stResultHandling (stage_strategy st) \<noteq> NoResultStrategy)}"

lemma waiting_upd_subset:
  assumes "\<And>k. ask k (upd_stage i f g) = ask k g"
    and "\<And>st. result st = None \<Longrightarrow> result (f st) = None \<Longrightarrow> triggered (f st) \<Longrightarrow> triggered st"
    and "\<And>st. result (f st) = None \<Longrightarrow> result st = None" and "\<And>st. operation (f st) = operation st"
    and "\<And>st. stage_strategy (f st) = stage_strategy st"
  shows "waiting ask (upd_stage i f g) \<subseteq> waiting ask g"
  using assms by (auto simp: waiting_def GetStage_upd_stage IsResolved_def split: if_splits)

text \<open>Only operations that never trigger, and function invocations, are completed from outside.\<close>

lemma external_strategy:
  assumes "getStrategyFromOperation op = Some strat" and "stTrigger strat \<noteq> TriggerNever"
    and "SuccessStrategy strat = CompleteExternally \<or> FailureStrategy strat = CompleteExternally"
  shows "op = Op_invokeFunction"
  using assms by (cases op) (auto simp: getStrategyFromOperation_def)

text \<open>Operations that invoke a closure take the answer as a result.\<close>

lemma invoke_strategy:
  assumes "getStrategyFromOperation op = Some strat"
    and "x = SuccessStrategy strat \<or> x = FailureStrategy strat"
    and "x \<in> {InvokeWithoutArgs, InvokeWithResult, InvokeWithResultOrError}"
  shows "stResultHandling strat \<noteq> NoResultStrategy"
  using assms by (cases op) (auto simp: getStrategyFromOperation_def)

locale listener_launch = listener_settled lis R C live
  for lis :: "('a CompletionGraph_scheme) CompletionEventListener"
    and R :: "'a CompletionGraph_scheme \<Rightarrow> 'a CompletionGraph_scheme \<Rightarrow> bool"
    and C :: "'a CompletionGraph_scheme \<Rightarrow> 'a CompletionGraph_scheme \<Rightarrow> bool"
    and live :: "'a CompletionGraph_scheme \<Rightarrow> bool" +
  fixes ask :: "stage_id \<Rightarrow> 'a CompletionGraph_scheme \<Rightarrow> bool"
  assumes ask_more: "CompletionGraph.more g = CompletionGraph.more h \<Longrightarrow> ask k g = ask k h"
    and execute_launches: "wf_graph g \<Longrightarrow> live g \<Longrightarrow> GetStage (ID st) g = Some st' \<Longrightarrow>
      stResultHandling (stage_strategy st') \<noteq> NoResultStrategy \<Longrightarrow>
      lis (OnExecuteStage st rs) g = Done h \<Longrightarrow> waiting ask h \<subseteq> waiting ask g - {ID st}"
    and complete_launches: "wf_graph g \<Longrightarrow> live g \<Longrightarrow> ID st \<in> stage_keys g \<Longrightarrow>
      lis (OnCompleteStage st r) g = Done h \<Longrightarrow> waiting ask h \<subseteq> waiting ask g - {ID st}"
    and compose_launches: "wf_graph g \<Longrightarrow> live g \<Longrightarrow> ID st \<in> stage_keys g \<Longrightarrow> ID st' \<in> stage_keys g \<Longrightarrow>
      lis (OnComposeStage st st') g = Done h \<Longrightarrow> waiting ask h \<subseteq> waiting ask g"
    and finished_launches: "wf_graph g \<Longrightarrow> live g \<Longrightarrow> state g = StateCommitted \<Longrightarrow>
      getPendingCount MainExecPhase g = 0 \<Longrightarrow>
      lis OnGraphExecutionFinished g = Done h \<Longrightarrow> waiting ask h \<subseteq> waiting ask g"
    and graph_complete_launches: "wf_graph g \<Longrightarrow> live g \<Longrightarrow> state g = StateTerminating \<Longrightarrow>
      getPendingCount TerminationExecPhase g = 0 \<Longrightarrow>
      lis OnGraphComplete g = Done h \<Longrightarrow> waiting ask h \<subseteq> waiting ask g"
begin

lemma waiting_same: "stages h = stages g \<Longrightarrow> CompletionGraph.more h = CompletionGraph.more g \<Longrightarrow> waiting ask h = waiting ask g"
  using ask_more [of h g] by (simp add: waiting_def GetStage_def)

lemma waiting_order [simp]: "waiting ask (next_order g) = waiting ask g"
  by (rule waiting_same) simp_all

lemma live_keeps: "keeps C R g r \<Longrightarrow> live g \<Longrightarrow> r = Done h \<Longrightarrow> wf_graph h \<and> live h"
  using R_live by auto

lemma run_execution_launches:
  assumes "wf_graph g" and "live g" and "ID st \<in> stage_keys g" and "run_execution x lis st rs g = Done h"
    and "x \<noteq> CompleteExternally"
    and "GetStage (ID st) g = Some st'"
    and "x \<in> {InvokeWithoutArgs, InvokeWithResult, InvokeWithResultOrError} \<Longrightarrow>
      stResultHandling (stage_strategy st') \<noteq> NoResultStrategy"
  shows "waiting ask h \<subseteq> waiting ask g - {ID st}"
  using assms(4,5,7) execute_launches [OF assms(1,2,6)] complete_launches [OF assms(1-3)]
  by (cases x)
     (auto simp: succeedWithEmpty_def invokeWithoutArgs_def invokeWithResult_def
        invokeWithResultOrError_def propagateResult_def split: list.splits)

lemma try_trigger_launches:
  assumes "wf_graph g" and "live g" and "try_trigger lis k g = Done h"
  shows "waiting ask h \<subseteq> waiting ask g"
proof (cases "could_trigger k g")
  case False
  then have "h = g"
    using assms(3)
    by (auto simp: try_trigger_def could_trigger_def requestTrigger_def split: option.splits if_splits prod.splits)
  then show ?thesis by simp
next
  case True
  then obtain st status rs where st: "GetStage k g = Some st" "\<not> IsResolved st" "\<not> triggered st"
      "trigger_state st g = (True, status, rs)"
    by (cases "trigger_state (the (GetStage k g)) g") (auto simp: could_trigger_def split: option.splits)
  let ?g = "upd_stage k (\<lambda>st. st\<lparr>triggered := True\<rparr>) g"
  let ?x = "if status then SuccessStrategy (stage_strategy st) else FailureStrategy (stage_strategy st)"
  have run: "run_execution ?x lis st rs ?g = Done h"
    using assms(3) st by (cases status) (simp_all add: try_trigger_def requestTrigger_def trigger_def)
  have id: "ID st = k" and strat: "getStrategyFromOperation (operation st) = Some (stage_strategy st)"
    using wf_graph_stage [OF assms(1) st(1)] by (simp_all add: wf_stage_def wf_static_def)
  have g: "wf_graph ?g" "live ?g" "ID st \<in> stage_keys ?g"
    using wf_graph_mark [OF assms(1)] live_more [of g ?g] assms(2) GetStage_in_keys [OF st(1)] id by simp_all
  have other: "waiting ask ?g \<subseteq> insert k (waiting ask g)"
    using ask_more [of ?g g] by (auto simp: waiting_def GetStage_upd_stage split: if_splits)
  show ?thesis
  proof (cases "?x = CompleteExternally")
    case True
    have "stTrigger (stage_strategy st) \<noteq> TriggerNever"
      using st(4) by (auto simp: trigger_state_def triggerNever_def)
    then have "operation st = Op_invokeFunction"
      using external_strategy [OF strat] True by (auto split: if_splits)
    then have "k \<notin> waiting ask ?g"
      by (simp add: waiting_def GetStage_upd_stage st(1))
    moreover have "h = ?g"
      using run True by (simp add: completeExternally_def)
    ultimately show ?thesis
      using other by auto
  next
    case False
    have "GetStage (ID st) ?g = Some (st\<lparr>triggered := True\<rparr>)"
      using st(1) id by (simp add: GetStage_upd_stage)
    moreover have "stResultHandling (stage_strategy (st\<lparr>triggered := True\<rparr>)) \<noteq> NoResultStrategy"
      if "?x \<in> {InvokeWithoutArgs, InvokeWithResult, InvokeWithResultOrError}"
      using invoke_strategy [OF strat _ that] by (simp split: if_splits)
    ultimately show ?thesis
      using run_execution_launches [OF g run False] other id by auto
  qed
qed

lemma fold_launches:
  assumes "wf_graph g" and "live g" and "fold_res f ks g = Done h"
    and "\<And>k g h. wf_graph g \<Longrightarrow> live g \<Longrightarrow> f k g = Done h \<Longrightarrow> waiting ask h \<subseteq> waiting ask g"
    and "\<And>k g. wf_graph g \<Longrightarrow> keeps C R g (f k g)"
  shows "waiting ask h \<subseteq> waiting ask g"
  using assms(1-3)
proof (induction ks arbitrary: g)
  case (Cons k ks)
  then obtain i where i: "f k g = Done i" "fold_res f ks i = Done h"
    by (auto simp: bind_res_eq_Done)
  have "wf_graph i \<and> live i"
    using live_keeps [OF assms(5) [OF Cons.prems(1)] Cons.prems(2) i(1)] .
  then show ?case
    using Cons.IH i(2) assms(4) [OF Cons.prems(1,2) i(1)] by blast
qed simp

lemma triggerReadyStages_launches:
  assumes "wf_graph g" and "live g" and "triggerReadyStages lis g = Done h"
  shows "waiting ask h \<subseteq> waiting ask g"
proof -
  have "live (next_order g)"
    by (rule live_more [OF _ assms(2)]) simp
  then show ?thesis
    using fold_launches [of "next_order g" "try_trigger lis"] assms(1,3) try_trigger_launches keeps_try_trigger
    by (simp add: triggerReadyStages_def)
qed

lemma checkForExecutionFinished_launches:
  assumes "wf_graph g" and "live g" and "checkForExecutionFinished lis g = Done h"
  shows "waiting ask h \<subseteq> waiting ask g"
proof -
  let ?g = "next_order g"
  have g: "wf_graph ?g" "live ?g"
    using assms(1,2) live_more [of g ?g] by simp_all
  have "getPendingCount ph ?g = getPendingCount ph g" for ph
    by (simp add: getPendingCount_def)
  then show ?thesis
    using assms(3) finished_launches [OF g] graph_complete_launches [OF g]
    by (cases "state g") (auto simp: checkForExecutionFinished_def split: if_splits)
qed

lemma trigger_then_check_launches:
  assumes "wf_graph g" and "live g"
    and "bind_res (if b then triggerReadyStages lis g else Done g) (checkForExecutionFinished lis) = Done h"
  shows "waiting ask h \<subseteq> waiting ask g"
proof -
  obtain i where i: "(if b then triggerReadyStages lis g else Done g) = Done i" "checkForExecutionFinished lis i = Done h"
    using assms(3) by (auto simp: bind_res_eq_Done)
  have "wf_graph i \<and> live i"
    using live_keeps [OF keeps_triggerReadyStages [OF assms(1)] assms(2)] i(1) assms(1,2) by (auto split: if_splits)
  then show ?thesis
    using checkForExecutionFinished_launches i triggerReadyStages_launches [OF assms(1,2)] by (fastforce split: if_splits)
qed

lemma tryCompleteComposedStage_launches:
  assumes "wf_graph g" and "live g" and "tryCompleteComposedStage lis outer inner g = Done h"
  shows "waiting ask h \<subseteq> waiting ask g"
proof -
  have "ID st \<in> stage_keys g" if "GetStage i g = Some st" for i st
    using that assms(1) wf_graph_ID GetStage_in_keys by metis
  then have "waiting ask h \<subseteq> waiting ask g"
    if "GetStage i g = Some st" "lis (OnCompleteStage st r) g = Done h" for i st r
    using complete_launches [OF assms(1,2)] that by blast
  then show ?thesis
    using assms(3) by (auto simp: tryCompleteComposedStage_def split: option.splits if_splits)
qed

lemma handleStageCompleted_launches:
  assumes "wf_graph g" and "live g" and "handleStageCompleted lis sid r b g = Done h"
  shows "waiting ask h \<subseteq> waiting ask g - {sid}"
proof -
  obtain v node where v: "r = Some v" "GetStage sid g = Some node"
    using assms(3) by (auto simp: handleStageCompleted_def split: option.splits)
  let ?h = "upd_stage sid (complete v) g"
  let ?c = "case composeReference node of None \<Rightarrow> Done ?h
    | Some outer \<Rightarrow> tryCompleteComposedStage lis outer sid ?h"
  have wf: "wf_graph ?h" and live: "live ?h"
    using assms(1,2) live_more [of g ?h] by (simp_all add: wf_graph_complete)
  obtain i where i: "?c = Done i"
      "bind_res (if b then triggerReadyStages lis i else Done i) (checkForExecutionFinished lis) = Done h"
    using assms(3) v by (auto simp: handleStageCompleted_def bind_res_assoc bind_res_eq_Done)
  have "keeps C R ?h ?c"
    using wf by (auto simp: R_refl keeps_tryCompleteComposedStage split: option.splits)
  then have i': "wf_graph i" "live i"
    using live_keeps [OF _ live i(1)] by simp_all
  have "waiting ask ?h \<subseteq> waiting ask g - {sid}"
    using ask_more [of ?h g] v(2)
    by (auto simp: waiting_def GetStage_upd_stage split: if_splits)
  moreover have "waiting ask i \<subseteq> waiting ask ?h"
    using i(1) tryCompleteComposedStage_launches [OF wf live] by (auto split: option.splits)
  ultimately show ?thesis
    using trigger_then_check_launches [OF i' i(2)] by blast
qed

lemma run_result_launches:
  assumes "wf_graph g" and "live g" and "ID st \<in> stage_keys g" and "run_result x lis st r g = Done h"
  shows "waiting ask h \<subseteq> waiting ask g"
proof -
  have "ID st' \<in> stage_keys g" if "GetStage i g = Some st'" for i st'
    using that assms(1) wf_graph_ID GetStage_in_keys by metis
  then have compose: "waiting ask h \<subseteq> waiting ask g" if "GetStage i g = Some st'" "lis (OnComposeStage st st') g = Done h" for i st'
    using compose_launches [OF assms(1-3)] that by blast
  have "(\<exists>v. lis (OnCompleteStage st v) g = Done h) \<or> (\<exists>i st'. GetStage i g = Some st' \<and> lis (OnComposeStage st st') g = Done h) \<or> h = g"
    using assms(4)
    by (cases x)
       (auto simp: invocationResult_def referencedStageResult_def parentStageResult_def
          noResultStrategy_def split: option.splits list.splits if_splits)
  then show ?thesis
    using complete_launches [OF assms(1-3)] compose by blast
qed

lemma handleStageComposed_launches:
  assumes "wf_graph g" and "live g" and "handleStageComposed lis outer inner g = Done h"
  shows "waiting ask h \<subseteq> waiting ask g"
proof -
  let ?x = "case GetStage outer g of None \<Rightarrow> None | Some _ \<Rightarrow> Some outer"
  let ?g = "upd_stage inner (\<lambda>st. st\<lparr>composeReference := ?x\<rparr>) g"
  have "?x = (if outer \<in> stage_keys g then Some outer else None)"
    by (auto simp: GetStage_None_iff dest: GetStage_in_keys split: option.splits)
  then have wf: "wf_graph ?g"
    using wf_graph_compose [OF assms(1), of inner outer] by simp
  have live: "live ?g"
    by (rule live_more [OF _ assms(2)]) simp
  have "waiting ask ?g \<subseteq> waiting ask g"
    by (rule waiting_upd_subset) (simp_all add: ask_more [of ?g g])
  moreover have "tryCompleteComposedStage lis outer inner ?g = Done h"
    using assms(3) by (simp add: handleStageComposed_def split: if_splits)
  ultimately show ?thesis
    using tryCompleteComposedStage_launches [OF wf live] by blast
qed

lemma Recover_launches:
  assumes "wf_graph g" and "live g" and "Recover lis g = Done h"
  shows "waiting ask h \<subseteq> waiting ask g"
proof -
  have lost: "waiting ask i \<subseteq> waiting ask u" if "wf_graph u" "live u" "fail_lost_stage lis k u = Done i" for k u i
  proof (cases "GetStage k u")
    case None
    then show ?thesis using that(3) by (simp add: fail_lost_stage_def)
  next
    case (Some st)
    let ?u = "upd_stage k (\<lambda>st. st\<lparr>triggered := True\<rparr>) u"
    have id: "ID st = k"
      by (rule wf_graph_ID [OF that(1) Some])
    have u: "wf_graph ?u" "live ?u" "ID st \<in> stage_keys ?u"
      using wf_graph_mark [OF that(1)] live_more [of u ?u] that(2) GetStage_in_keys [OF Some] id by simp_all
    have "waiting ask ?u \<subseteq> insert k (waiting ask u)"
      using ask_more [of ?u u] by (auto simp: waiting_def GetStage_upd_stage split: if_splits)
    then have "waiting ask i \<subseteq> waiting ask u" if "lis (OnCompleteStage st r) ?u = Done i" for r
      using complete_launches [OF u that] id by auto
    then show ?thesis
      using that(3) Some by (auto simp: fail_lost_stage_def requestTrigger_def split: prod.splits if_splits)
  qed
  obtain i where i: "fold_res (fail_lost_stage lis) (range_keys g) (next_order g) = Done i"
      "bind_res (if True then triggerReadyStages lis i else Done i) (checkForExecutionFinished lis) = Done h"
    using assms(3) by (auto simp: Recover_def bind_res_eq_Done)
  have o: "wf_graph (next_order g)" "live (next_order g)"
    using assms(1,2) live_more [of g "next_order g"] by simp_all
  have "wf_graph i \<and> live i"
    using live_keeps [OF keeps_fold [OF o(1) keeps_fail_lost_stage] o(2) i(1)] .
  moreover have "waiting ask i \<subseteq> waiting ask g"
    using fold_launches [OF o i(1) lost keeps_fail_lost_stage] by simp
  ultimately show ?thesis
    using trigger_then_check_launches [OF _ _ i(2)] by blast
qed

lemma waiting_put:
  assumes "\<not> triggered st"
  shows "waiting ask (put_stage st u) \<subseteq> waiting ask u"
proof -
  have "CompletionGraph.more (put_stage st u) = CompletionGraph.more u"
    by (simp add: put_stage_def)
  then show ?thesis
    using assms ask_more [of "put_stage st u" u] by (auto simp: waiting_def GetStage_put_stage split: if_splits)
qed

lemma waiting_mutate_add: "sid \<notin> stage_keys g \<Longrightarrow> waiting ask (mutate_add sid op cl deps g) \<subseteq> waiting ask g"
proof -
  have fold: "waiting ask (fold (\<lambda>d. upd_stage d (add_child sid)) ds u) \<subseteq> waiting ask u" for ds u
  proof (induction ds arbitrary: u)
    case (Cons d ds)
    have "waiting ask (upd_stage d (add_child sid) u) \<subseteq> waiting ask u"
      by (rule waiting_upd_subset) (simp_all add: ask_more [of "upd_stage d (add_child sid) u" u] add_child_def)
    then show ?case
      using Cons [of "upd_stage d (add_child sid) u"] by auto
  qed simp
  show ?thesis
    using order_trans [OF waiting_put fold] by (auto simp: mutate_add_def new_stage_def Let_def split: option.splits)
qed

lemma waiting_mutate_hook: "waiting ask (mutate_hook sid cl g) \<subseteq> waiting ask g"
proof -
  have upd: "waiting ask ((upd_stage i (\<lambda>h. h\<lparr>dependencies := ds\<rparr>) g)\<lparr>terminationChainHead := c\<rparr>) \<subseteq> waiting ask g" for i ds c
  proof -
    let ?u = "upd_stage i (\<lambda>h. h\<lparr>dependencies := ds\<rparr>) g"
    have "waiting ask ?u \<subseteq> waiting ask g"
      by (rule waiting_upd_subset) (simp_all add: ask_more [of ?u g])
    then show ?thesis
      using waiting_same [of "?u\<lparr>terminationChainHead := c\<rparr>" ?u] by simp
  qed
  have head: "waiting ask (g\<lparr>terminationChainHead := c\<rparr>) = waiting ask g" for c
    by (rule waiting_same) simp_all
  show ?thesis
  proof (cases "terminationChainHead g")
    case None
    then show ?thesis
      using order_trans [OF waiting_put eq_refl [OF head]] by (auto simp: mutate_hook_def Let_def new_stage_def)
  next
    case (Some i)
    then show ?thesis
      using order_trans [OF waiting_put upd] by (auto simp: mutate_hook_def Let_def new_stage_def)
  qed
qed

theorem UpdateWithEvent_launches:
  assumes "wf_graph g" and "live g" and "event_fresh e g" and "UpdateWithEvent lis e b g = Done h"
  shows "waiting ask h \<subseteq> waiting ask g - (case e of StageCompletedEvent f sid r ts \<Rightarrow> {sid} | _ \<Rightarrow> {})"
proof -
  let ?g = "update_startTime e g"
  have fields: "stages ?g = stages g" "CompletionGraph.more ?g = CompletionGraph.more g" "state ?g = state g"
    by (auto simp: update_startTime_def split: prod.splits)
  have g: "wf_graph ?g" "live ?g" "waiting ask ?g = waiting ask g"
    using assms(1,2) live_more [of g ?g] waiting_same [of ?g g] fields by (auto simp: update_startTime_def split: prod.splits)
  have up: "wf_graph u \<and> live u \<and> waiting ask u = waiting ask g"
    if "stages u = stages ?g" "CompletionGraph.more u = CompletionGraph.more ?g" "wf_graph u" for u
    using that live_more [of ?g u] waiting_same [of u ?g] g by simp
  show ?thesis
  proof (cases e)
    case (GraphCommittedEvent f ts)
    then show ?thesis
      using up [of "?g\<lparr>state := StateCommitted\<rparr>"] g(1) assms(4) checkForExecutionFinished_launches
      by (fastforce simp: UpdateWithEvent_def handleCommitted_def)
  next
    case (GraphTerminatingEvent f fn status ts)
    let ?u = "mutate e ?g"
    have u: "wf_graph ?u \<and> live ?u \<and> waiting ask ?u = waiting ask g"
      using GraphTerminatingEvent g(1) by (intro up) (simp_all add: mutate_def)
    have "bind_res (if b then triggerReadyStages lis ?u else Done ?u) (checkForExecutionFinished lis) = Done h"
      using GraphTerminatingEvent assms(4) by (cases b) (simp_all add: UpdateWithEvent_def handleTerminating_def mutate_def Let_def)
    then show ?thesis
      using GraphTerminatingEvent u trigger_then_check_launches by fastforce
  next
    case (GraphCompletedEvent f fn ts)
    then show ?thesis
      using up [of "?g\<lparr>state := StateCompleted\<rparr>"] g(1) assms(4) by (auto simp: UpdateWithEvent_def handleCompleted_def)
  next
    case (StageAddedEvent f sid op cl deps ts loc caller)
    show ?thesis
    proof (cases "op = Op_terminationHook")
      case True
      then show ?thesis
        using StageAddedEvent assms(4) waiting_mutate_hook [of sid cl ?g] g(3)
        by (simp add: UpdateWithEvent_def handleAddTerminationHook_mutate)
    next
      case False
      let ?m = "mutate_add sid op cl deps ?g"
      have m: "wf_graph ?m" "live ?m"
        using wf_graph_mutate_add [OF g(1) False] live_more [of ?g ?m] g(2)
        by (simp_all add: mutate_add_def split: option.splits)
      have "sid \<notin> stage_keys ?g"
        using assms(3) StageAddedEvent False fields(1) by (simp add: event_fresh_def stage_keys_def)
      then have "waiting ask ?m \<subseteq> waiting ask g"
        using waiting_mutate_add g(3) by blast
      moreover have "(if b then triggerReadyStages lis ?m else Done ?m) = Done h"
        using StageAddedEvent False assms(4)
        by (auto simp: UpdateWithEvent_def handleStageAdded_def mutate_add_def GetStage_None_iff Let_def split: option.splits if_splits)
      ultimately show ?thesis
        using StageAddedEvent triggerReadyStages_launches [OF m] by (auto split: if_splits)
    qed
  next
    case (StageCompletedEvent f sid r ts)
    then show ?thesis
      using assms(4) handleStageCompleted_launches [OF g(1,2)] g(3) by (auto simp: UpdateWithEvent_def)
  next
    case (StageComposedEvent f sid inner ts)
    then show ?thesis
      using assms(4) handleStageComposed_launches [OF g(1,2)] g(3) by (auto simp: UpdateWithEvent_def)
  next
    case (FaasInvocationCompletedEvent f sid r ts call)
    have "waiting ask h \<subseteq> waiting ask g"
    proof (cases b)
      case True
      then obtain st where st: "GetStage sid ?g = Some st"
          "run_result (stResultHandling (stage_strategy st)) lis st r ?g = Done h"
        using assms(4) FaasInvocationCompletedEvent
        by (auto simp: UpdateWithEvent_def handleInvokeComplete_def handleResult_def Let_def split: option.splits)
      then have "ID st \<in> stage_keys ?g"
        using wf_graph_ID [OF g(1)] GetStage_in_keys by metis
      then show ?thesis
        using run_result_launches [OF g(1,2) _ st(2)] g(3) by simp
    qed (use assms(4) FaasInvocationCompletedEvent g(3) in \<open>simp add: UpdateWithEvent_def Let_def\<close>)
    then show ?thesis
      using FaasInvocationCompletedEvent by simp
  qed (use g assms(4) in \<open>simp_all add: UpdateWithEvent_def Let_def\<close>)
qed

end

end
