(* ===== verification/Flow_Completion.thy ===== *)
theory Flow_Completion
  imports Actor_Commands Actor_Replies Listener_Launch
begin

text \<open>
  A committed flow runs to its end. The graph actor asks others for the results of its stages:
  the executor for closures and functions, itself for delays. When all that it asks for is
  answered, in whatever order and with whatever results, it asks finitely often and the flow is
  completed, unless one of its stages waits for something that nobody was asked for.
\<close>

section \<open>What the actor has asked for\<close>

fun asks :: "stage_id \<Rightarrow> Effect \<Rightarrow> bool" where
  "asks k (InvokeStageRequest fn f sid args cl) = (sid = k)"
| "asks k (InvokeFunctionRequest f sid fn arg) = (sid = k)"
| "asks k (TellSelf (CompleteDelayStageRequest f sid r)) = (sid = k)"
| "asks k (TellSelfAfter ms (CompleteDelayStageRequest f sid r)) = (sid = k)"
| "asks k _ = False"

definition asked :: "stage_id \<Rightarrow> graphActor \<Rightarrow> bool" where
  "asked k s \<longleftrightarrow> list_ex (asks k) (outbox s)"

lemma asked_outbox: "outbox t = outbox s @ xs \<Longrightarrow> asked k s \<Longrightarrow> asked k t"
  by (simp add: asked_def)

lemma asked_send [simp]: "asked k (send x s) \<longleftrightarrow> asked k s \<or> asks k x"
  by (auto simp: asked_def send_def)

lemma asked_of_more: "CompletionGraph.more s = CompletionGraph.more t \<Longrightarrow> asked k s = asked k t"
  using actor_of_more(4) [of s t] by (simp add: asked_def)

lemma waiting_send: "waiting asked (send x s) \<subseteq> waiting asked s"
  by (auto simp: waiting_def GetStage_def send_def asked_def)

lemma waiting_outbox:
  assumes "stages t = stages s" and "outbox t = outbox s"
  shows "waiting asked t = waiting asked s"
  using assms by (simp add: waiting_def GetStage_def asked_def)

lemma execute_asks:
  assumes "actor_OnExecuteStage st rs s = Done t"
  shows "stages t = stages s \<and> (\<exists>x. outbox t = outbox s @ [x] \<and> asks (ID st) x)"
proof -
  obtain u where u: "actor_PersistReceive
      (FaasInvocationStartedEvent (GraphID s) (ID st) (currentTimestamp s) (FunctionID s)) (tick s) = Done u"
    and t: "t = send (InvokeStageRequest (FunctionID u) (GraphID u) (ID st) rs (closure st)) u"
    using assms by (auto simp: actor_OnExecuteStage_def bind_res_eq_Done)
  have "\<exists>m. u = (tick s)\<lparr>mixin := m\<rparr>"
    using res_all_Done [OF actor_PersistReceive_graph u] .
  then show ?thesis
    using t by (auto simp: send_def tick_def)
qed

lemma actor_listener_launch: "listener_launch (actorListener n) (journals is_callback) torn live asked"
proof (induction n)
  case 0
  show ?case
    by (intro listener_launch.intro listener_launch_axioms.intro actor_listener_settled)
       (simp_all, erule asked_of_more)
next
  case (Suc n)
  have upd: "waiting asked h \<subseteq> waiting asked g - (case e of StageCompletedEvent f sid r ts \<Rightarrow> {sid} | _ \<Rightarrow> {})"
    if "wf_graph g" "live g" "persistAndUpdateGraph (actorListener n) mk g = Done h"
      "e = mk (currentTimestamp g)" "\<not> is_StageAddedEvent e" for g h mk e
  proof (rule persist_Done [OF that(3)])
    show "ready g"
      using that(2) by (simp add: live_def)
  next
    fix m
    let ?t = "(tick g)\<lparr>mixin := m\<rparr>"
    assume m: "UpdateWithEvent (actorListener n) (mk (currentTimestamp g)) (\<not> recovering (mixin g)) ?t = Done h"
      "recovering m = recovering (mixin g)" "snapshotInterval m = snapshotInterval (mixin g)"
    have "waiting asked ?t = waiting asked g"
      by (rule waiting_outbox) (simp_all add: tick_def)
    then show ?thesis
      using listener_launch.UpdateWithEvent_launches [OF Suc _ live_tick [OF that(2) m(2,3)] _ m(1)]
        that(1,4,5) not_added_fresh [of e ?t] by simp
  qed
  show ?case
  proof (intro listener_launch.intro listener_launch_axioms.intro actor_listener_settled)
    fix g h :: graphActor and st st' rs
    assume st': "GetStage (ID st) g = Some st'" "stResultHandling (stage_strategy st') \<noteq> NoResultStrategy"
      and "actorListener (Suc n) (OnExecuteStage st rs) g = Done h"
    then obtain x where x: "stages h = stages g" "outbox h = outbox g @ [x]" "asks (ID st) x"
      using execute_asks [of st rs g h] by auto
    then show "waiting asked h \<subseteq> waiting asked g - {ID st}"
      using st' by (auto simp: waiting_def GetStage_def asked_def)
  next
    fix g h :: graphActor and st r
    assume "wf_graph g" "live g" "actorListener (Suc n) (OnCompleteStage st r) g = Done h"
    then show "waiting asked h \<subseteq> waiting asked g - {ID st}"
      using upd [of g "StageCompletedEvent (GraphID g) (ID st) r" h] by (simp add: actor_OnCompleteStage_def)
  next
    fix g h :: graphActor and st st'
    assume "wf_graph g" "live g" "actorListener (Suc n) (OnComposeStage st st') g = Done h"
    then show "waiting asked h \<subseteq> waiting asked g"
      using upd [of g "StageComposedEvent (GraphID g) (ID st) (ID st')" h] by (simp add: actor_OnComposeStage_def)
  next
    fix g h :: graphActor
    assume "wf_graph g" "live g" "actorListener (Suc n) OnGraphExecutionFinished g = Done h"
    then show "waiting asked h \<subseteq> waiting asked g"
      using upd [of g "GraphTerminatingEvent (GraphID g) (FunctionID g) Status_succeeded" h]
      by (simp add: actor_OnGraphExecutionFinished_def live_def)
  next
    fix g h :: graphActor
    assume g: "wf_graph g" "live g" and h: "actorListener (Suc n) OnGraphComplete g = Done h"
    then obtain u x where u: "persistAndUpdateGraph (actorListener n) (GraphCompletedEvent (GraphID g) (FunctionID g)) g = Done u"
      and "h = send x u"
      by (auto simp: actor_OnGraphComplete_def live_def bind_res_eq_Done)
    then show "waiting asked h \<subseteq> waiting asked g"
      using upd [OF g u] waiting_send [of x u] by auto
  qed (erule asked_of_more)
qed

interpretation actor_launch: listener_launch "actorListener n" "journals is_callback" torn live asked for n
  by (rule actor_listener_launch)

section \<open>No stage is left waiting for nobody\<close>

lemma emit_launches:
  assumes "emit mk s = Done t" and "wf_graph s" and "live s" and "\<And>ts. event_fresh (mk ts) s"
  shows "waiting asked t \<subseteq> waiting asked s"
proof (rule persist_Done [OF assms(1) [unfolded emit_def]])
  show "ready s"
    using assms(3) by (simp add: live_def)
next
  fix m
  let ?t = "(tick s)\<lparr>mixin := m\<rparr>"
  assume m: "UpdateWithEvent (actorListener (call_depth s)) (mk (currentTimestamp s)) (\<not> recovering (mixin s)) ?t = Done t"
    "recovering m = recovering (mixin s)" "snapshotInterval m = snapshotInterval (mixin s)"
  have "waiting asked ?t = waiting asked s"
    by (rule waiting_outbox) (simp_all add: tick_def)
  then show ?thesis
    using actor_launch.UpdateWithEvent_launches [OF _ live_tick [OF assms(3) m(2,3)] _ m(1)]
      assms(2,4) event_fresh_cong [of ?t s] by auto
qed

lemma persist_launches:
  assumes "actor_PersistReceive e s = Done t"
  shows "waiting asked t = waiting asked s"
  using res_all_Done [OF actor_PersistReceive_graph assms] by (auto intro!: waiting_outbox)

lemma waiting_fields [simp]:
  "waiting asked (tick s) = waiting asked s" "waiting asked (next_order s) = waiting asked s"
  by (rule waiting_outbox; simp add: tick_def)+

lemma waiting_schedule: "waiting asked (scheduleDelay f k ms s) \<subseteq> waiting asked s"
  using waiting_send [of _ "tick s"] by (simp add: scheduleDelay_def Let_def)

lemma process_launches:
  assumes s: "wf_graph s" "live s" "flow_inv s" and v: "ValidateCommand cmd s = Valid"
    and "\<not> is_CreateGraphRequest cmd" and t: "process_cmd cmd s = Done t"
  shows "waiting asked t \<subseteq> waiting asked s"
proof -
  have fresh: "event_fresh (StageAddedEvent f (NextStageID s) op cl deps ts loc caller) s" for f op cl deps ts loc caller
    using NextStageID_fresh [of s] s(3) by (simp add: event_fresh_def flow_inv_def)
  have other: "waiting asked u \<subseteq> waiting asked s" if "emit mk s = Done u" "\<And>ts. \<not> is_StageAddedEvent (mk ts)" for mk u
    by (rule emit_launches [OF that(1) s(1,2)]) (rule not_added_fresh [OF that(2)])
  have add: "waiting asked u \<subseteq> waiting asked s"
    if "emit (\<lambda>ts. StageAddedEvent f (NextStageID s) op cl deps ts loc caller) s = Done u" for f op cl deps loc caller u
    by (rule emit_launches [OF that s(1,2) fresh])
  have val: "waiting asked w \<subseteq> waiting asked s"
    if u: "emit (\<lambda>ts. StageAddedEvent f (NextStageID s) op cl deps ts loc caller) s = Done u"
      and w: "emit (StageCompletedEvent f' k r) u = Done w" and "isAddStageCommand cmd" for f op cl deps loc caller u f' k r w
  proof -
    have "wf_graph u" "live u"
      using keeps_emit_added [OF s(1,3) validated_add(1,2) [OF v that(3)], of f op cl deps loc caller] u journals_live s(2)
      by (auto intro: journals_live)
    then show ?thesis
      using emit_launches [OF w] add [OF u] by (auto simp: event_fresh_def)
  qed
  note subs = subsetD [OF waiting_send] subsetD [OF waiting_schedule]
  show ?thesis
  proof (cases cmd)
    case (AddStageRequest f op cl deps loc caller)
    then show ?thesis
      using t by (auto simp: process_cmd_def cmd_AddStage_def Let_def bind_res_eq_Done dest!: add subs)
  next
    case (AddCompletedValueStageRequest f r loc caller)
    then obtain u w x where u: "emit (\<lambda>ts. StageAddedEvent f (NextStageID s) Op_completedValue None [] ts loc caller) s = Done u"
        "emit (StageCompletedEvent f (NextStageID s) r) u = Done w" and "t = send x w"
      using t by (auto simp: process_cmd_def cmd_AddCompletedValueStage_def Let_def bind_res_eq_Done)
    then show ?thesis
      using val [OF u] AddCompletedValueStageRequest waiting_send [of x w] by auto
  next
    case (AddDelayStageRequest f ms loc caller)
    then show ?thesis
      using t by (auto simp: process_cmd_def cmd_AddDelayStage_def Let_def bind_res_eq_Done dest!: add persist_launches subs)
  next
    case (AddInvokeFunctionStageRequest f fn arg loc caller)
    then show ?thesis
      using t by (auto simp: process_cmd_def cmd_AddInvokeFunctionStage_def Let_def bind_res_eq_Done dest!: add persist_launches subs)
  next
    case (CompleteStageExternallyRequest f k r loc caller)
    then show ?thesis
      using t other [of "StageCompletedEvent f k r"] by (auto simp: process_cmd_def cmd_CompleteStageExternally_def Let_def bind_res_eq_Done
          dest!: subs split: option.splits if_splits)
  next
    case (CommitGraphRequest f)
    then show ?thesis
      using t other [of "GraphCommittedEvent f"] by (auto simp: process_cmd_def cmd_CommitGraph_def bind_res_eq_Done dest!: subs split: if_splits)
  next
    case (CompleteDelayStageRequest f k r)
    then show ?thesis
      using t other [of "StageCompletedEvent f k r"] by (auto simp: process_cmd_def cmd_CompleteDelayStage_def split: if_splits)
  next
    case (FaasInvocationResponse f k fn r call)
    then show ?thesis
      using t other [of "\<lambda>ts. FaasInvocationCompletedEvent f k r ts call"] by (simp add: process_cmd_def)
  qed (use assms in \<open>auto simp: process_cmd_def dest!: subs split: option.splits\<close>)
qed

lemma command_launches:
  assumes inv: "actor_inv s" and w: "hasGraph s \<Longrightarrow> waiting asked s = {}" and t: "receiveCommand cmd s = Done t" and "hasGraph t"
  shows "waiting asked t = {}"
proof (cases "hasGraph s")
  case True
  then have s: "wf_graph s" "live s" "flow_inv s"
    using inv actor_inv_live [OF inv] by (simp_all add: actor_inv_def)
  have "waiting asked t \<subseteq> waiting asked s"
    if "ValidateCommand cmd s = Valid" "\<not> is_CreateGraphRequest cmd" "process_cmd cmd s = Done t"
    using process_launches [OF s that] .
  then show ?thesis
    using w True t waiting_send
    by (cases cmd) (fastforce simp: receiveCommand_def validateCmd_def split: validation.splits if_splits)+
next
  case False
  have "waiting asked (initGraph f fn u) = {}" for f fn u
    by (simp add: waiting_def GetStage_def)
  then show ?thesis
    using False t assms(4) waiting_send
    by (cases cmd) (fastforce simp: receiveCommand_def validateCmd_def process_cmd_def cmd_CreateGraph_def bind_res_eq_Done)+
qed

theorem reachable_launched:
  assumes "reachable s" and "hasGraph s"
  shows "waiting asked s = {}"
  using assms
proof (induction rule: reachable.induct)
  case (reach_step s msg t)
  note inv = reachable_inv [OF reach_step.hyps(1)]
  have nr: "\<not> recovering (mixin s)"
    using inv by (simp add: actor_inv_def)
  show ?case
  proof (cases msg)
    case (MsgSystem m)
    have rec: "waiting asked u = {}" if "Recover (actorListener n) s = Done u" "hasGraph s" for n u
      using actor_launch.Recover_launches [OF _ _ that(1)] that(2) inv actor_inv_live [OF inv] reach_step.IH
      by (auto simp: actor_inv_def)
    have "receiveMessage m s = Done t"
      using MsgSystem nr reach_step.hyps(2) by (simp add: Receive_def)
    then show ?thesis
      using reach_step.IH reach_step.prems rec waiting_send
      by (cases m) (fastforce simp: receiveMessage_def bind_res_eq_Done split: if_splits)+
  qed (use reach_step nr command_launches [OF inv] in \<open>auto simp: Receive_def\<close>)
qed (simp add: fresh_actor_def)

section \<open>Answers\<close>

text \<open>A stage whose closure returned a reference to another stage waits for that stage.\<close>

fun composes :: "stage_id \<Rightarrow> Event \<Rightarrow> bool" where
  "composes k (StageComposedEvent f sid inner ts) = (sid = k)"
| "composes k _ = False"

definition composing :: "stage_id \<Rightarrow> graphActor \<Rightarrow> bool" where
  "composing k s \<longleftrightarrow> list_ex (composes k) (journal s)"

text \<open>The stages for which somebody was asked, and an answer to one of them: the scheduler's message for
  a delay, the executor's response for everything else.\<close>

definition outstanding :: "stage_id \<Rightarrow> graphActor \<Rightarrow> bool" where
  "outstanding k s \<longleftrightarrow>
     (case GetStage k s of
        None \<Rightarrow> False
      | Some st \<Rightarrow> \<not> IsResolved st \<and> asked k s \<and> \<not> composing k s \<and>
          (operation st = Op_delay \<or> stResultHandling (stage_strategy st) \<noteq> NoResultStrategy))"

definition answer_to :: "stage_id \<Rightarrow> CompletionResult \<Rightarrow> string \<Rightarrow> graphActor \<Rightarrow> Command" where
  "answer_to k r call s =
     (if operation (the (GetStage k s)) = Op_delay then CompleteDelayStageRequest (GraphID s) k (Some r)
      else FaasInvocationResponse (GraphID s) k (FunctionID s) (Some r) call)"

inductive answer_step :: "graphActor \<Rightarrow> graphActor \<Rightarrow> bool" where
  answer: "outstanding k s \<Longrightarrow> receiveCommand (answer_to k r call s) s = Done t \<Longrightarrow> answer_step s t"

inductive_cases answer_stepE: "answer_step s t"

definition open_stages :: "graphActor \<Rightarrow> stage_id set" where
  "open_stages s = {k. \<exists>st. GetStage k s = Some st \<and> \<not> IsResolved st \<and> \<not> composing k s}"

lemma open_stages_card: "finite (open_stages s)" "card (open_stages s) \<le> length (stages s)"
proof -
  have "open_stages s \<subseteq> stage_keys s"
    by (auto simp: open_stages_def dest: GetStage_in_keys)
  then have sub: "open_stages s \<subseteq> set (map fst (stages s))"
    by (simp add: stage_keys_def)
  then show "finite (open_stages s)"
    by (rule finite_subset) simp
  show "card (open_stages s) \<le> length (stages s)"
    using card_mono [OF _ sub] card_length [of "map fst (stages s)"] by simp
qed

lemma composing_journals:
  assumes "journals P s t" and "ready s" and "composing k s"
  shows "composing k t"
  using journal_append [OF assms(1,2)] assms(3) by (metis composing_def list_ex_append)

lemma journal_written: "written (mixin u) = written (mixin s) @ [(i, e)] \<Longrightarrow> journal u = journal s @ [e]"
  by (simp add: journal_def)

text \<open>An operation of the listener on a stage closes it: it has a result, or it is composed.\<close>

lemma persist_closes:
  assumes "persistAndUpdateGraph (actorListener n) mk s = Done t" and s: "wf_graph s" "ready s" "flow_inv s"
    and e: "\<And>ts. mk ts = StageCompletedEvent f k (Some v) ts \<or> mk ts = StageComposedEvent f k inner ts \<and> legal (mk ts) s"
    and "k \<in> stage_keys s"
  shows "k \<notin> open_stages t"
proof (rule persist_journal [OF assms(1) s(1,2)])
  show "event_fresh (mk ts) s" for ts
    using e [of ts] by (auto simp: event_fresh_def)
next
  fix u
  let ?e = "mk (currentTimestamp s)"
  assume u: "view u = flow_step ?e (view s)" "ready u" "journals is_callback u t"
    "written (mixin u) = written (mixin s) @ [(eventIndex (mixin s), ?e)]"
  have legal: "legal (mk ts) s" for ts
    using e [of ts] by (auto simp: legal_def)
  have inv: "flow_inv u"
    by (rule flow_inv_of_view [OF u(1) s(3) legal])
  show ?thesis
  proof (cases "?e = StageCompletedEvent f k (Some v) (currentTimestamp s)")
    case True
    obtain st where "GetStage k s = Some st"
      using assms(6) by (metis GetStage_Some_iff)
    then have "GetStage k (mutate ?e s) = Some (complete v st)"
      by (simp add: True mutate_def GetStage_upd_stage)
    then obtain b where b: "GetStage k u = Some b" "untrigger b = untrigger (complete v st)"
      using GetStage_of_view [OF u(1)] by blast
    have "result b = result (complete v st)"
      using arg_cong [OF b(2), of result] by (simp add: untrigger_def)
    moreover obtain c where "GetStage k t = Some c" "stage_evolves b c"
      using evolves_stage [OF journals_evolves [OF u(3,2) inv] b(1)] by blast
    ultimately show ?thesis
      by (auto simp: open_stages_def stage_evolves_def IsResolved_def split: option.splits)
  next
    case False
    then have "composes k ?e"
      using e [of "currentTimestamp s"] by auto
    then have "composing k u"
      using journal_written [OF u(4)] by (simp add: composing_def)
    then show ?thesis
      using composing_journals [OF u(3,2)] by (simp add: open_stages_def)
  qed
qed

lemma run_result_cases:
  assumes "run_result x lis st (Some r) g = Done h" and "x \<noteq> NoResultStrategy"
  shows "(\<exists>v. lis (OnCompleteStage st (Some v)) g = Done h) \<or>
    (\<exists>i st'. GetStage i g = Some st' \<and> lis (OnComposeStage st st') g = Done h)"
  using assms
  by (cases x)
     (auto simp: invocationResult_def referencedStageResult_def parentStageResult_def
        split: option.splits list.splits if_splits)

lemma response_closes:
  assumes s: "wf_graph s" "live s" "flow_inv s" and st: "GetStage k s = Some st"
    and "stResultHandling (stage_strategy st) \<noteq> NoResultStrategy"
    and t: "emit (\<lambda>ts. FaasInvocationCompletedEvent f k (Some r) ts call) s = Done t"
  shows "k \<notin> open_stages t"
proof (rule persist_Done [OF t [unfolded emit_def]])
  show "ready s"
    using s(2) by (simp add: live_def)
next
  fix m
  let ?e = "FaasInvocationCompletedEvent f k (Some r) (currentTimestamp s) call"
  let ?t = "(tick s)\<lparr>mixin := m\<rparr>"
  let ?g = "update_startTime ?e ?t"
  assume m: "UpdateWithEvent (actorListener (call_depth s)) ?e (\<not> recovering (mixin s)) ?t = Done t"
    "recovering m = recovering (mixin s)" "snapshotInterval m = snapshotInterval (mixin s)"
  obtain n where n: "call_depth s = Suc n"
    by (auto simp: call_depth_def)
  have stages: "stages ?g = stages s"
    by simp
  then have g: "GetStage k ?g = Some st" "stage_keys ?g = stage_keys s"
    using st by (simp_all only: GetStage_def stage_keys_def)
  have view: "view ?g = view s"
    by simp
  have wf: "wf_graph ?g"
    using s(1) by simp
  have inv: "flow_inv ?g"
    using s(3) view by (metis flow_inv_view)
  have ready: "ready ?g"
    using live_tick [OF s(2) m(2,3)] by (simp add: live_def ready_def)
  have id: "ID st = k"
    by (rule wf_graph_ID [OF s(1) st])
  have "run_result (stResultHandling (stage_strategy st)) (actorListener (Suc n)) st (Some r) ?g = Done t"
    using m(1) s(2) g(1) n by (simp add: UpdateWithEvent_def handleInvokeComplete_def handleResult_def live_def Let_def)
  then consider v where "actorListener (Suc n) (OnCompleteStage st (Some v)) ?g = Done t"
    | i st' where "GetStage i ?g = Some st'" "actorListener (Suc n) (OnComposeStage st st') ?g = Done t"
    using run_result_cases assms(5) by blast
  then show ?thesis
  proof cases
    case 1
    then show ?thesis
      using wf ready inv GetStage_in_keys [OF g(1)] id
      by (intro persist_closes [of n "StageCompletedEvent (GraphID ?g) k (Some v)" ?g t "GraphID ?g" k v _])
         (simp_all add: actor_OnCompleteStage_def)
  next
    case 2
    have "ID st' \<in> stage_keys ?g"
      using wf_graph_ID [OF wf 2(1)] GetStage_in_keys [OF 2(1)] by simp
    then show ?thesis
      using 2(2) wf ready inv GetStage_in_keys [OF g(1)] id
      by (intro persist_closes [of n "StageComposedEvent (GraphID ?g) k (ID st')" ?g t "GraphID ?g" k _ "ID st'"])
         (simp_all add: actor_OnComposeStage_def legal_def)
  qed
qed

section \<open>A committed flow runs to its end\<close>

lemma outstanding_stage:
  assumes "outstanding k s"
  obtains st where "GetStage k s = Some st" and "\<not> IsResolved st" and "asked k s" and "\<not> composing k s"
    and "operation st = Op_delay \<or> stResultHandling (stage_strategy st) \<noteq> NoResultStrategy"
  using assms by (auto simp: outstanding_def split: option.splits)

lemma answer_emits:
  assumes "hasGraph s" and "GetStage k s = Some st" and "\<not> IsResolved st"
  shows "receiveCommand (answer_to k r call s) s =
    emit (if operation st = Op_delay then StageCompletedEvent (GraphID s) k (Some r)
          else (\<lambda>ts. FaasInvocationCompletedEvent (GraphID s) k (Some r) ts call)) s"
  using assms
  by (simp add: answer_to_def receiveCommand_def validateCmd_def ValidateCommand_def validate_by_type_def
      process_cmd_def cmd_CompleteDelayStage_def)

lemma answer_closes:
  assumes s: "reachable s" "hasGraph s" and "answer_step s t"
  shows "open_stages t \<subset> open_stages s \<and> stage_keys t = stage_keys s"
proof -
  note r = reachable_facts [OF s]
  from assms(3) obtain k v call where k: "outstanding k s" and t: "receiveCommand (answer_to k v call s) s = Done t"
    by (auto elim: answer_stepE)
  then obtain st where st: "GetStage k s = Some st" "\<not> IsResolved st" "\<not> composing k s"
      "operation st = Op_delay \<or> stResultHandling (stage_strategy st) \<noteq> NoResultStrategy"
    using outstanding_stage [OF k] by blast
  define mk where "mk = (if operation st = Op_delay then StageCompletedEvent (GraphID s) k (Some v)
    else (\<lambda>ts. FaasInvocationCompletedEvent (GraphID s) k (Some v) ts call))"
  have emit: "emit mk s = Done t"
    using answer_emits [OF s(2) st(1,2)] t by (simp add: mk_def)
  have fresh: "event_fresh (mk ts) s" and legal: "legal (mk ts) s" and keys: "stage_keys (mutate (mk ts) s) = stage_keys s" for ts
    by (simp_all add: mk_def event_fresh_def legal_def mutate_def)
  have closed: "k \<notin> open_stages t"
  proof (cases "operation st = Op_delay")
    case True
    then show ?thesis
      using emit GetStage_in_keys [OF st(1)]
      by (intro persist_closes [OF emit [unfolded emit_def] r(1,7,2), of "GraphID s" k v _]) (simp_all add: mk_def)
  next
    case False
    then show ?thesis
      using response_closes [OF r(1,6,2) st(1)] st(4) emit by (simp add: mk_def)
  qed
  have stage_keys: "stage_keys t = stage_keys s"
  proof (rule emit_Done [OF emit r(1,7) fresh])
    fix u
    assume "view u = flow_step (mk (currentTimestamp s)) (view s)" "ready u" "journals is_callback u t"
    then show ?thesis
      using stage_keys_of_view keys journals_work(2) by metis
  qed
  have j: "journaled s t"
    using keeps_emit [of s mk] r(1) fresh legal emit by simp
  have "open_stages t \<subseteq> open_stages s"
  proof
    fix i
    assume "i \<in> open_stages t"
    then obtain b where b: "GetStage i t = Some b" "\<not> IsResolved b" "\<not> composing i t"
      by (auto simp: open_stages_def)
    then obtain a where a: "GetStage i s = Some a"
      using stage_keys GetStage_Some_iff [of i s] GetStage_in_keys [of i t] by auto
    then have "\<not> IsResolved a"
      using evolves_stage [OF journals_evolves [OF j r(7,2)] a] b(1,2) by (force simp: stage_evolves_def IsResolved_def)
    then show "i \<in> open_stages s"
      using a b(3) composing_journals [OF j r(7)] by (auto simp: open_stages_def)
  qed
  moreover have "k \<in> open_stages s"
    using st by (simp add: open_stages_def)
  ultimately show ?thesis
    using closed stage_keys by blast
qed

lemma answer_keeps:
  assumes "reachable s" and "hasGraph s" and "reliable (mixin s)" and "IsCommitted s" and "answer_step s t"
  shows "reachable t \<and> hasGraph t \<and> reliable (mixin t) \<and> IsCommitted t"
proof -
  obtain c where c: "receiveCommand c s = Done t"
    using assms(5) by (auto elim: answer_stepE)
  have inv: "actor_inv s"
    by (rule reachable_inv [OF assms(1)])
  then have "Receive (MsgCommand c) s = Done t"
    using c by (simp add: Receive_def actor_inv_def)
  then have "reachable t"
    by (rule reach_step [OF assms(1)])
  moreover have j: "journaled s t"
    using journal_run [OF assms(1,2), of c] c by simp
  then have "hasGraph t"
    using reachable_facts(7) [OF assms(1,2)] by (simp add: journals_def ready_def)
  moreover have "state s \<le> state t"
    using journals_evolves [OF j] reachable_facts [OF assms(1,2)] by (simp add: graph_evolves_def)
  ultimately show ?thesis
    using command_reliable [OF inv assms(3) c] assms(4)
    by (cases "state s"; cases "state t") (simp_all add: IsCommitted_iff less_eq_State_def)
qed

text \<open>What can block a flow: a stage that only a client can complete, or that was added under one of
  the names of such stages so that nobody was asked for it; a stage that was composed with another one; and
  a stage that depends on a termination hook.\<close>

definition blocked :: "stage_id \<Rightarrow> graphActor \<Rightarrow> bool" where
  "blocked k s \<longleftrightarrow>
     (case GetStage k s of
        None \<Rightarrow> False
      | Some st \<Rightarrow> \<not> IsResolved st \<and>
          (composing k s \<or>
           operation st \<in> {Op_externalCompletion, Op_completedValue} \<or>
           operation st \<in> {Op_delay, Op_invokeFunction} \<and> \<not> asked k s \<or>
           (\<exists>d h. StageDep d \<in> set (dependencies st) \<and> GetStage d s = Some h \<and> operation h = Op_terminationHook)))"

lemma never_operations:
  "getStrategyFromOperation op = Some strat \<Longrightarrow> stTrigger strat = TriggerNever \<Longrightarrow>
   op = Op_externalCompletion \<or> op = Op_completedValue \<or> op = Op_delay"
  by (cases op) (auto simp: getStrategyFromOperation_def)

lemma parent_strategies:
  "getStrategyFromOperation op = Some strat \<Longrightarrow> stResultHandling strat = ParentStageResult \<Longrightarrow>
   op = Op_terminationHook \<or> MinDependencies strat = 1 \<and> MaxDependencies strat = 1"
  by (cases op) (auto simp: getStrategyFromOperation_def)

lemma invokeFunction_result:
  "getStrategyFromOperation Op_invokeFunction = Some strat \<Longrightarrow> stResultHandling strat = InvocationResult"
  by (auto simp: getStrategyFromOperation_def)

lemma parent_operations:
  assumes "wf_static k st" and "stResultHandling (stage_strategy st) = ParentStageResult"
  shows "length (dependencies st) = 1"
  using parent_strategies [of "operation st" "stage_strategy st"] assms
  by (cases "length (dependencies st)") (auto simp: wf_static_def deps_out_of_range_def split: if_splits)

lemma answer_returns:
  assumes s: "reachable s" "hasGraph s" "reliable (mixin s)" and "outstanding k s"
    and st: "GetStage k s = Some st" "\<forall>d \<in> set (dependencies st). dep_result s d \<noteq> None"
  shows "\<exists>t. answer_step s t"
proof -
  let ?c = "answer_to k NewEmptyResult '''' s"
  note r = reachable_facts [OF s(1,2)]
  have "wf_static k st"
    using wf_graph_stage [OF r(1) st(1)] by (simp add: wf_stage_def)
  then have "stResultHandling (stage_strategy st) = ParentStageResult \<longrightarrow> (\<exists>d. dependencies st = [d] \<and> dep_result s d \<noteq> None)"
    using parent_operations [of k st] st(2) by (auto simp: length_Suc_conv)
  then have "cmd_applies ?c s"
    using st(1) GetStage_in_keys [OF st(1)] by (auto simp: answer_to_def cmd_applies_def applies_iff)
  then have "returns True (receiveCommand ?c s)"
    using r s by (intro receiveCommand_returns) (simp_all add: good_def)
  then obtain t where "receiveCommand ?c s = Done t"
    using returns_strictD by blast
  then show ?thesis
    using answer_step.answer [OF assms(4)] by blast
qed

lemma committed_progress:
  assumes s: "reachable s" "hasGraph s" "reliable (mixin s)" and "IsCommitted s" and "state s \<noteq> StateCompleted"
  shows "(\<exists>k. blocked k s) \<or> (\<exists>t. answer_step s t)"
proof -
  note r = reachable_facts [OF s(1,2)]
  have launched: "asked k s \<and> stResultHandling (stage_strategy st) \<noteq> NoResultStrategy"
    if "GetStage k s = Some st" "\<not> IsResolved st" "triggered st" "operation st \<noteq> Op_invokeFunction" for k st
    using reachable_launched [OF s(1,2)] that by (auto simp: waiting_def)
  have case_stage: "blocked k s \<or> (\<exists>t. answer_step s t)"
    if st: "GetStage k s = Some st" "\<not> IsResolved st" "\<forall>d \<in> set (dependencies st). dep_result s d \<noteq> None"
      and trig: "triggered st \<or> stTrigger (stage_strategy st) = TriggerNever" for k st
  proof -
    have strat: "getStrategyFromOperation (operation st) = Some (stage_strategy st)"
      using wf_graph_stage [OF r(1) st(1)] by (simp add: wf_stage_def wf_static_def)
    have "stResultHandling (stage_strategy st) = InvocationResult" if "operation st = Op_invokeFunction"
      using strat that by (simp add: invokeFunction_result)
    then have "blocked k s \<or> outstanding k s"
      using st(1,2) trig launched [OF st(1,2)] never_operations [OF strat]
      by (cases "operation st = Op_invokeFunction") (auto simp: blocked_def outstanding_def)
    then show ?thesis
      using answer_returns [OF s _ st(1,3)] by blast
  qed
  from assms(4,5) consider "state s = StateCommitted" | "state s = StateTerminating"
    by (cases "state s") (simp_all add: IsCommitted_iff)
  then show ?thesis
  proof cases
    case 1
    then obtain k st where "GetStage k s = Some st" "\<not> IsResolved st"
        "(triggered st \<or> stTrigger (stage_strategy st) = TriggerNever) \<and> (\<forall>d \<in> set (dependencies st). dep_result s d \<noteq> None) \<or>
         (\<exists>d h. StageDep d \<in> set (dependencies st) \<and> GetStage d s = Some h \<and> operation h = Op_terminationHook)"
      using committed_waits [OF r(1,2,4)] r(5) unfolding advanced_def by blast
    then show ?thesis
    proof (elim disjE conjE)
      assume "\<exists>d h. StageDep d \<in> set (dependencies st) \<and> GetStage d s = Some h \<and> operation h = Op_terminationHook"
      then have "blocked k s"
        using \<open>GetStage k s = Some st\<close> \<open>\<not> IsResolved st\<close> by (auto simp: blocked_def)
      then show ?thesis
        by blast
    qed (use case_stage [of k st] in blast)+
  next
    case 2
    then obtain k st where "GetStage k s = Some st" "\<not> IsResolved st" "triggered st"
        "\<forall>d \<in> set (dependencies st). dep_result s d \<noteq> None"
      using terminating_waits [OF r(1,2,4)] r(5) by (auto simp: advanced_def)
    then show ?thesis
      using case_stage [of k st] by blast
  qed
qed

text \<open>C9: A committed flow runs to completion. Once clients have committed a flow, answer its requests, in
  any order and with any results: the executor's responses to invocations and the scheduler's messages for
  delays. There are at most as many answers as the flow has stages, and as long as the flow is
  not completed there is another request to answer, unless a stage is blocked: it waits for a client, was
  composed with another stage, or depends on a termination hook.\<close>

theorem flow_runs_to_completion:
  assumes "reachable s" and "hasGraph s" and "reliable (mixin s)" and "IsCommitted s" and "(answer_step ^^ n) s t"
  shows "n \<le> length (stages s) \<and> (state t = StateCompleted \<or> (\<exists>k. blocked k t) \<or> (\<exists>u. answer_step t u))"
proof -
  have run: "reachable t \<and> hasGraph t \<and> reliable (mixin t) \<and> IsCommitted t \<and> n + card (open_stages t) \<le> card (open_stages s)"
    using assms(5)
  proof (induction n arbitrary: t)
    case 0
    then show ?case
      using assms(1-4) by simp
  next
    case (Suc n)
    then obtain u where u: "(answer_step ^^ n) s u" "answer_step u t"
      by auto
    note ih = Suc.IH [OF u(1)]
    have "card (open_stages t) < card (open_stages u)"
      using answer_closes [OF _ _ u(2)] ih open_stages_card(1) [of u] by (simp add: psubset_card_mono)
    then show ?case
      using ih answer_keeps [OF _ _ _ _ u(2)] by simp
  qed
  then show ?thesis
    using committed_progress [of t] open_stages_card(2) [of s] by auto
qed

theorem flow_runs_to_completion_witness:
  "(answer_step ^^ 1) committed responded \<and>
   (state responded = StateCompleted \<or> (\<exists>k. blocked k responded) \<or> (\<exists>u. answer_step responded u))"
proof -
  have "outstanding ''0'' committed" and "answer_to ''0'' (the demo_result) ''call'' committed = demo_response"
    and "IsCommitted committed"
    by code_simp+
  then have step: "(answer_step ^^ 1) committed responded"
    using answer_step.answer [of "''0''" committed "the demo_result" "''call''" responded] demo_responded by (simp add: relcompp.simps)
  from flow_runs_to_completion [OF demo_reachable(2) demo_hasGraph(2) demo_reliable(2) \<open>IsCommitted committed\<close> this] step
  show ?thesis
    by blast
qed


text \<open>The names of stages that the service completes itself are open to clients: a stage that is added with
  the operation of a function call, but not through the request for function calls, is accepted, nobody is
  asked for its result, and the flow does not end.\<close>

definition unasked_run :: "Message list" where
  "unasked_run = map MsgCommand
     [CreateGraphRequest ''flow'' ''app/fn'',
      AddStageRequest ''flow'' Op_invokeFunction None [] '''' '''',
      CommitGraphRequest ''flow'']"

lemma unasked_stage_blocks:
  "is_done (fold_res Receive unasked_run new_actor) \<and> state (run unasked_run new_actor) = StateCommitted \<and>
   blocked ''0'' (run unasked_run new_actor)"
proof -
  have "GetStage ''0'' (run unasked_run new_actor) \<noteq> None"
    and "\<not> IsResolved (the (GetStage ''0'' (run unasked_run new_actor)))"
    and "operation (the (GetStage ''0'' (run unasked_run new_actor))) = Op_invokeFunction"
    and "\<not> asked ''0'' (run unasked_run new_actor)"
    and "is_done (fold_res Receive unasked_run new_actor)" and "state (run unasked_run new_actor) = StateCommitted"
    by code_simp+
  then show ?thesis
    by (auto simp: blocked_def)
qed

end
