(* ===== verification/Actor_Replay.thy ===== *)
theory Actor_Replay
  imports Actor_Properties Flow_Completion
begin

text \<open>
  Recovery of a graph actor (\<^verbatim>\<open>Mixin.init\<close> and \<^verbatim>\<open>receiveEvent\<close>): replaying the journal
  restores the graph. The statement is about journals without compositions: the replay of a
  composition completes the outer stage by itself and writes its completion to the journal a
  second time, which \<open>replay_writes_twice\<close> shows.
\<close>

definition no_compose :: "'a CompletionGraph_scheme \<Rightarrow> bool" where
  "no_compose g \<longleftrightarrow> (\<forall>(k, st) \<in> set (stages g). composeReference st = None)"

lemma no_compose_stage: "no_compose g \<Longrightarrow> GetStage k g = Some st \<Longrightarrow> composeReference st = None"
  by (auto simp: no_compose_def GetStage_def dest: map_of_SomeD)

lemma no_compose_upd:
  assumes "no_compose g" and "\<And>st. composeReference (f st) = composeReference st"
  shows "no_compose (upd_stage k f g)"
proof -
  have "\<forall>(k, st) \<in> set al. composeReference st = None \<Longrightarrow>
      \<forall>(k, st) \<in> set (AList.map_entry k f al). composeReference st = None" for al
    by (induction al) (auto simp: assms(2))
  then show ?thesis
    using assms(1) by (simp add: no_compose_def upd_stage_def)
qed

lemma no_compose_put: "no_compose g \<Longrightarrow> composeReference st = None \<Longrightarrow> no_compose (put_stage st g)"
proof -
  have "\<forall>(k, st) \<in> set al. composeReference st = None \<Longrightarrow> composeReference v = None \<Longrightarrow>
      \<forall>(k, st) \<in> set (AList.update i v al). composeReference st = None" for al i v
    by (induction al) auto
  then show "no_compose g \<Longrightarrow> composeReference st = None \<Longrightarrow> no_compose (put_stage st g)"
    by (simp add: no_compose_def put_stage_def)
qed

lemma no_compose_fields [simp]:
  "no_compose (g\<lparr>state := x\<rparr>) = no_compose g" "no_compose (g\<lparr>terminationRoot := r\<rparr>) = no_compose g"
  "no_compose (g\<lparr>terminationChainHead := c\<rparr>) = no_compose g" "no_compose (next_order g) = no_compose g"
  "no_compose (update_startTime e g) = no_compose g"
  by (simp_all add: no_compose_def)

lemma no_compose_fold: "no_compose g \<Longrightarrow> no_compose (fold (\<lambda>d. upd_stage d (add_child sid)) deps g)"
  by (induction deps arbitrary: g) (simp_all add: no_compose_upd)

lemma no_compose_mutate: "no_compose g \<Longrightarrow> \<not> is_StageComposedEvent e \<Longrightarrow> no_compose (mutate e g)"
  by (cases e)
     (auto simp: mutate_def mutate_hook_def mutate_add_def Let_def
        intro!: no_compose_upd no_compose_put no_compose_fold split: option.splits)

section \<open>One event\<close>

lemma check_recovering:
  assumes "recovering (mixin s)"
  shows "\<exists>n. checkForExecutionFinished (actorListener (Suc n')) s = Done ((next_order ^^ n) s)"
proof -
  have "\<exists>n. Done (next_order s) = Done ((next_order ^^ n) s)" "\<exists>n. Done s = Done ((next_order ^^ n) s)"
    by (auto intro: exI [of _ "Suc 0"] exI [of _ 0])
  then show ?thesis
    using assms
    by (cases "state s")
       (auto simp: checkForExecutionFinished_def actor_OnGraphExecutionFinished_def actor_OnGraphComplete_def)
qed

lemma next_orders [simp]:
  fixes s :: graphActor
  shows "view ((next_order ^^ n) s) = view s" "mixin ((next_order ^^ n) s) = mixin s"
    "hasGraph ((next_order ^^ n) s) = hasGraph s" "wf_graph ((next_order ^^ n) s) = wf_graph s"
    "no_compose ((next_order ^^ n) s) = no_compose s"
  by (induction n) simp_all

lemma replay_update:
  assumes "recovering (mixin s)" and "no_compose s" and "applies e s" and "event_fresh e s"
    and "\<not> is_StageComposedEvent e"
  shows "\<exists>n. UpdateWithEvent (actorListener (Suc n')) e False s =
    Done ((next_order ^^ n) (mutate e (update_startTime e s)))"
proof -
  let ?s = "update_startTime e s"
  have 0: "\<exists>n. t = (next_order ^^ n) t" for t :: graphActor
    by (rule exI [of _ 0]) simp
  have keys: "GetStage k ?s = GetStage k s" for k
    by (simp add: GetStage_def)
  show ?thesis
  proof (cases e)
    case (GraphCommittedEvent f ts)
    then show ?thesis
      using check_recovering [of "?s\<lparr>state := StateCommitted\<rparr>"] assms(1)
      by (simp add: UpdateWithEvent_def mutate_def handleCommitted_def)
  next
    case (GraphTerminatingEvent f fn x ts)
    then show ?thesis
      using check_recovering [of "mutate e ?s"] assms(1)
      by (simp add: UpdateWithEvent_def mutate_def handleTerminating_def Let_def)
  next
    case (StageAddedEvent f sid op cl deps ts loc caller)
    show ?thesis
    proof (cases "op = Op_terminationHook")
      case True
      then show ?thesis
        using StageAddedEvent 0 by (simp add: UpdateWithEvent_def mutate_def handleAddTerminationHook_mutate)
    next
      case False
      then have "handleStageAdded (actorListener (Suc n')) sid op cl deps False ?s = Done (mutate_add sid op cl deps ?s)"
        using StageAddedEvent assms(3,4)
        by (auto simp: handleStageAdded_def mutate_add_def applies_iff event_fresh_def GetStage_None_iff Let_def)
      then show ?thesis
        using False StageAddedEvent 0 by (simp add: UpdateWithEvent_def mutate_def)
    qed
  next
    case (StageCompletedEvent f sid r ts)
    then obtain v node where v: "r = Some v" "GetStage sid s = Some node"
      using assms(3) by (auto simp: applies_def)
    then have "composeReference node = None"
      using no_compose_stage assms(2) by blast
    then show ?thesis
      using StageCompletedEvent v keys check_recovering [of "upd_stage sid (complete v) ?s"] assms(1)
      by (simp add: UpdateWithEvent_def mutate_def handleStageCompleted_def)
  qed (use 0 assms(5) in \<open>simp_all add: UpdateWithEvent_def mutate_def handleCompleted_def Let_def\<close>)
qed

section \<open>The whole journal\<close>

text \<open>The events of a journal that replay without a panic and without a composition, given the
  graph they are replayed into.\<close>

fun replayable :: "CompletionGraph \<Rightarrow> Event list \<Rightarrow> bool" where
  "replayable g [] \<longleftrightarrow> True"
| "replayable g (e # es) \<longleftrightarrow>
     \<not> is_StageComposedEvent e \<and> applies e g \<and> replayable (flow_step e g) es"

lemma applies_view: "applies e (view g) = applies e g"
proof -
  have "dep_result (view g) d = dep_result g d" for d
    by (auto simp: dep_result_def GetStage_view split: StageDependency.splits option.splits)
  then show ?thesis
    by (cases e) (auto simp: applies_iff GetStage_view)
qed

definition replaying :: "graphActor \<Rightarrow> graphActor \<Rightarrow> bool" where
  "replaying r s \<longleftrightarrow>
     hasGraph s \<and> recovering (mixin s) \<and> no_compose s \<and> wf_graph s \<and> flow_inv s \<and>
     written (mixin s) = written (mixin r)"

lemma legal_fresh: "flow_inv g \<Longrightarrow> legal e g \<Longrightarrow> event_fresh e g"
  using NextStageID_fresh [of g] by (cases e) (auto simp: legal_def event_fresh_def flow_inv_def)

lemma scheduleDelay_no_compose [simp]: "no_compose (scheduleDelay f k t s) = no_compose s"
  by (simp add: no_compose_def scheduleDelay_def Let_def send_def)

lemma flow_inv_mixin: "flow_inv (s\<lparr>mixin := m\<rparr>) = flow_inv s" "no_compose (s\<lparr>mixin := m\<rparr>) = no_compose s"
  using flow_inv_view [of "s\<lparr>mixin := m\<rparr>"] flow_inv_view [of s] by (simp_all add: no_compose_def)

lemma replay_step:
  assumes r: "replaying r s" and legal: "legal e s" and ok: "\<not> is_StageComposedEvent e" "applies e s"
  shows "\<exists>t. replay_one (i, e) s = Done t \<and> replaying r t \<and> view t = flow_step e (view s) \<and>
    eventIndex (mixin t) = i + 1"
proof -
  have s: "recovering (mixin s)" "no_compose s" "hasGraph s" "wf_graph s" "flow_inv s"
    "written (mixin s) = written (mixin r)"
    using r by (simp_all add: replaying_def)
  have fresh: "event_fresh e s"
    by (rule legal_fresh [OF s(5) legal])
  obtain t where t: "receiveEvent e s = Done t" "view t = flow_step e (view s)" "hasGraph t" "no_compose t"
      "mixin t = mixin s" "wf_graph t"
  proof (cases "is_DelayScheduledEvent e")
    case True
    then obtain f k ms ts where e: "e = DelayScheduledEvent f k ms ts"
      by (cases e) simp_all
    show ?thesis
      by (rule that [of "scheduleDelay f k ms s"])
         (use e s in \<open>simp_all add: receiveEvent_def flow_step_def mutate_def\<close>)
  next
    case False
    then have eq: "receiveEvent e s = UpdateWithEvent (actorListener (call_depth s)) e False s"
      using s(3) legal by (cases e) (simp_all add: receiveEvent_def legal_def)
    obtain n where "UpdateWithEvent (actorListener (call_depth s)) e False s =
        Done ((next_order ^^ n) (mutate e (update_startTime e s)))"
      using replay_update [OF s(1,2) ok(2) fresh ok(1), of "9 + 2 * length (stages s)"]
      by (auto simp: call_depth_def add.commute)
    moreover have "view (mutate e (update_startTime e s)) = flow_step e (view s)"
      by (metis flow_step_def flow_step_view view_mutate view_update_startTime)
    moreover have "wf_graph (mutate e (update_startTime e s))"
      by (rule wf_graph_mutate) (use s(4) fresh event_fresh_cong [of "update_startTime e s" s] in simp_all)
    ultimately show ?thesis
      using eq s ok(1) by (intro that [of "(next_order ^^ n) (mutate e (update_startTime e s))"])
        (simp_all add: no_compose_mutate)
  qed
  have "flow_inv t"
    by (rule flow_inv_of_view [OF t(2) s(5) legal])
  then show ?thesis
    using t s by (simp add: replay_one_def Receive_def replaying_def flow_inv_mixin)
qed

lemma replay_run:
  assumes "replaying r s" and "flow_run (view s) (map snd ies) v" and "replayable (view s) (map snd ies)"
  shows "\<exists>t. fold_res replay_one ies s = Done t \<and> replaying r t \<and> view t = v \<and>
    eventIndex (mixin t) = (if ies = [] then eventIndex (mixin s) else fst (last ies) + 1)"
  using assms
proof (induction ies arbitrary: s)
  case (Cons ie ies)
  obtain i e where ie: "ie = (i, e)"
    by (cases ie)
  have l: "legal e s" and run: "flow_run (flow_step e (view s)) (map snd ies) v"
    using flow_run_ConsD [of "view s" e "map snd ies" v] Cons.prems(2) ie by simp_all
  obtain t where t: "replay_one (i, e) s = Done t" "replaying r t" "view t = flow_step e (view s)"
      "eventIndex (mixin t) = i + 1"
    using replay_step [OF Cons.prems(1) l] Cons.prems(3) ie by (auto simp: applies_view)
  have "\<exists>u. fold_res replay_one ies t = Done u \<and> replaying r u \<and> view u = v \<and>
      eventIndex (mixin u) = (if ies = [] then eventIndex (mixin t) else fst (last ies) + 1)"
    using Cons.IH [OF t(2)] Cons.prems(3) run ie t(3) by simp
  then show ?case
    using t(1,4) ie by auto
qed simp

text \<open>Replaying the journal of a flow restores it. When an actor without a graph replays what a
  reachable actor has written, and the journal has no composition and no event whose handler
  panics, the replay returns, the restored graph has the same view, the event index is the
  same, and nothing is written during the replay.\<close>

lemma replay_restores:
  assumes "reachable s" and "hasGraph s" and "\<not> hasGraph r"
    and "replayable (graph_New (GraphID s) (FunctionID s) 0 (\<lambda>_. []) ()) (tl (journal s))"
  shows "\<exists>t. fold_res replay_one (written (mixin s)) (r\<lparr>mixin := mixin_start (mixin r)\<rparr>) = Done t \<and>
    hasGraph t \<and> view t = view s \<and> eventIndex (mixin t) = eventIndex (mixin s) \<and>
    written (mixin t) = written (mixin r)"
proof -
  obtain f fn ts es where j: "journal s = GraphCreatedEvent f fn ts # es"
      and run: "flow_run (graph_New f fn 0 (\<lambda>_. []) ()) es (view s)" and idx: "indexed s"
    using reachable_facts(3) [OF assms(1,2)] by (auto simp: consistent_def)
  have "graph_evolves (graph_New f fn 0 (\<lambda>_. []) ()) s"
    using flow_run_evolves [OF run flow_inv_new] by simp
  then have ids: "GraphID s = f" "FunctionID s = fn"
    by (simp_all add: graph_evolves_def graph_New_def)
  obtain i ies where w: "written (mixin s) = (i, GraphCreatedEvent f fn ts) # ies" "map snd ies = es"
    using j by (auto simp: journal_def)
  let ?r = "r\<lparr>mixin := mixin_start (mixin r)\<rparr>"
  define u where "u = (initGraph f fn ?r)\<lparr>mixin := (mixin (initGraph f fn ?r))\<lparr>eventIndex := i + 1\<rparr>\<rparr>"
  have first: "replay_one (i, GraphCreatedEvent f fn ts) ?r = Done u"
    by (simp add: replay_one_def Receive_def receiveEvent_def mixin_start_def u_def)
  have vu: "view u = graph_New f fn 0 (\<lambda>_. []) ()"
    by (simp add: u_def view_initGraph)
  have "flow_inv u"
    using flow_inv_view [of u] flow_inv_new [of f fn 0 "\<lambda>_. []" "()"] vu by simp
  then have "replaying ?r u"
    by (simp add: replaying_def u_def initGraph_inv no_compose_def mixin_start_def)
  then obtain t where t: "fold_res replay_one ies u = Done t" "replaying ?r t" "view t = view s"
      "eventIndex (mixin t) = (if ies = [] then eventIndex (mixin u) else fst (last ies) + 1)"
    using replay_run [of ?r u ies "view s"] run assms(4) vu w(2) ids j by auto
  have "last (map fst (written (mixin s))) = last (map int [0..<Suc (length ies)])"
    using idx w(1) unfolding indexed_def by (metis length_Cons)
  then have "fst (last (written (mixin s))) = int (length ies)"
    using w(1) by (simp add: last_map del: list.map)
  then have "eventIndex (mixin t) = eventIndex (mixin s)"
    using idx w(1) t(4) by (auto simp: indexed_def u_def split: if_splits)
  then show ?thesis
    using t first w(1) by (auto simp: replaying_def mixin_start_def)
qed

section \<open>What the replay does to compositions\<close>










section \<open>What recovery does to running stages\<close>

lemma fail_idle: "\<not> could_trigger k g \<Longrightarrow> fail_lost_stage lis k g = Done g"
  by (auto simp: fail_lost_stage_def could_trigger_def requestTrigger_def split: option.splits prod.splits if_splits)

lemma fail_all_idle: "(\<And>k. k \<in> set ks \<Longrightarrow> \<not> could_trigger k g) \<Longrightarrow> fold_res (fail_lost_stage lis) ks g = Done g"
  by (induction ks) (simp_all add: fail_idle)

lemma fold_res_append: "fold_res f (xs @ ys) s = bind_res (fold_res f xs s) (fold_res f ys)"
proof (induction xs arbitrary: s)
  case (Cons x xs)
  then show ?case
    by (cases "f x s") simp_all
qed simp

text \<open>The loop of \<^verbatim>\<open>Recover\<close> fails the first stage that it comes to. Its completion triggers all others that are ready, so
  the loop finds none left.\<close>

lemma fails_one:
  assumes "wf_graph s" and "live s" and "range_keys s = pre @ k # post" and "could_trigger k s"
    and "\<And>j. j \<in> set pre \<Longrightarrow> \<not> could_trigger j s" and "GetStage k s = Some st"
  shows "fold_res (fail_lost_stage (actorListener n)) (range_keys s) (next_order s) =
    actorListener n (OnCompleteStage st (Some stageRecoveryFailedResult))
      (upd_stage k (\<lambda>st. st\<lparr>triggered := True\<rparr>) (next_order s))"
    (is "?fold = ?call")
proof -
  let ?lis = "actorListener n" and ?s = "upd_stage k (\<lambda>st. st\<lparr>triggered := True\<rparr>) (next_order s)"
  have order: "could_trigger j (next_order s) = could_trigger j s" "GetStage j (next_order s) = GetStage j s" for j
    by (rule could_trigger_same) (simp_all add: GetStage_def)
  have fail: "fail_lost_stage ?lis k (next_order s) = ?call"
    using assms(4,6) order(2) order(1) [of k]
    by (auto simp: fail_lost_stage_def could_trigger_def requestTrigger_def split: prod.splits)
  have s: "wf_graph ?s" "live ?s" "ID st \<in> stage_keys ?s"
    using assms(1,2) wf_graph_ID [OF assms(1,6)] GetStage_in_keys [OF assms(6)] live_of_more [of s ?s] by (simp_all add: wf_graph_mark)
  have "fold_res (fail_lost_stage ?lis) post u = Done u" if "?call = Done u" for u
    using actor_settled.complete_settles [OF s that] by (intro fail_all_idle) (simp add: settled_def)
  moreover have "?fold = bind_res ?call (fold_res (fail_lost_stage ?lis) post)"
    unfolding assms(3) using fail_all_idle [of pre "next_order s" ?lis] assms(5) order(1) fail by (simp add: fold_res_append)
  ultimately show ?thesis
    by (cases ?call) simp_all
qed

text \<open>A stage that is ready stays so while the graph moves on.\<close>

lemma run_trigger_mono:
  assumes "fst (run_trigger x ds)" and "list_all2 (\<lambda>d d'. d \<noteq> None \<longrightarrow> d' = d) ds ds'"
  shows "fst (run_trigger x ds')"
proof -
  have none: "None \<notin> set ds'" if "None \<notin> set ds"
    using assms(2) that by (induction rule: list_all2_induct) auto
  have some: "filter (\<lambda>d. d \<noteq> None \<and> \<not> dep_failed d) ds' \<noteq> []" if "filter (\<lambda>d. d \<noteq> None \<and> \<not> dep_failed d) ds \<noteq> []"
    using assms(2) that by (induction rule: list_all2_induct) (auto split: if_splits)
  have "fst (triggerAny ds) \<longleftrightarrow> filter (\<lambda>d. d \<noteq> None \<and> \<not> dep_failed d) ds \<noteq> [] \<or> ds \<noteq> [] \<and> None \<notin> set ds" for ds
    by (auto simp: triggerAny_def triggerAny_loop_eq split: list.splits option.splits)
  moreover have "ds' = [] \<longleftrightarrow> ds = []"
    using assms(2) by auto
  moreover have "fst (waitForAll ds) \<longleftrightarrow> None \<notin> set ds" for ds
  proof
    assume "fst (waitForAll ds)"
    then show "None \<notin> set ds"
      using filter_some [of ds] by (auto simp: waitForAll_def Let_def collect_results_eq split: if_splits option.splits)
  next
    assume "None \<notin> set ds"
    then have "list_all (\<lambda>d. d \<noteq> None) ds"
      by (simp add: list_all_iff) (metis option.exhaust)
    then show "fst (waitForAll ds)"
      using resolved_triggers [of ds WaitForAll] by simp
  qed
  ultimately show ?thesis
    using assms(1) none some by (cases x) (auto simp: triggerNever_def)
qed

text \<open>A restored graph has triggered no stage that has no result. The stages that it could trigger are those that were running
  when the actor was lost; functions and hooks are left out here.\<close>

definition lost :: "stage_id \<Rightarrow> graphActor \<Rightarrow> bool" where
  "lost k s \<longleftrightarrow>
     could_trigger k s \<and>
     (case GetStage k s of
        None \<Rightarrow> False
      | Some st \<Rightarrow> operation st \<notin> {Op_invokeFunction, Op_terminationHook} \<and> TerminationRootDep \<notin> set (dependencies st))"

lemma lost_ready:
  assumes "lost j s" and "graph_evolves s t" and "GetStage j t = Some b"
  shows "fst (trigger_state b t)"
proof -
  obtain a where a: "GetStage j s = Some a" "fst (trigger_state a s)" "operation a \<noteq> Op_terminationHook" "TerminationRootDep \<notin> set (dependencies a)"
    using assms(1) by (auto simp: lost_def could_trigger_def split: option.splits)
  then have ab: "stage_strategy b = stage_strategy a" "dependencies b = dependencies a"
    using assms(2,3) unfolding graph_evolves_def stage_evolves_def by (metis option.inject)+
  have "dep_result s d \<noteq> None \<longrightarrow> dep_result t d = dep_result s d" if "d \<in> set (dependencies a)" for d
  proof (cases d)
    case (StageDep i)
    show ?thesis
    proof (cases "GetStage i s")
      case (Some x)
      then obtain y where "GetStage i t = Some y" "stage_evolves x y"
        using assms(2) unfolding graph_evolves_def by blast
      then show ?thesis
        using StageDep Some by (auto simp: dep_result_def stage_evolves_def)
    qed (simp add: StageDep dep_result_def)
  qed (use a(4) that in simp)
  then have "list_all2 (\<lambda>d d'. d \<noteq> None \<longrightarrow> d' = d) (map (dep_result s) (dependencies a)) (map (dep_result t) (dependencies a))"
    by (simp add: list_all2_map1 list_all2_map2 list.rel_refl_strong)
  then show ?thesis
    using a(2) ab run_trigger_mono unfolding trigger_state_def by simp
qed

text \<open>C29: Recovery runs lost stages again. \<^verbatim>\<open>Recover\<close> is meant to fail the stages that were running when the actor was lost. Take
  any restored graph of an actor whose store works, and let \<open>k\<close> be the first of these stages in the order in which the loop
  visits them. The loop fails \<open>k\<close> and no other stage: its completion triggers all others, so that the loop passes
  them over. Afterwards each of them, other than invocations of functions and termination hooks, has been
  completed by this, or has been triggered and somebody has been asked for its result, a second time.\<close>

theorem recovery_reinvokes:
  assumes s: "wf_graph s" "flow_inv s" "live s" "reliable (mixin s)"
    and restored: "\<And>j st. GetStage j s = Some st \<Longrightarrow> triggered st \<Longrightarrow> IsResolved st"
    and k: "range_keys s = pre @ k # post" "GetStage k s = Some st" "could_trigger k s" "\<And>j. j \<in> set pre \<Longrightarrow> \<not> could_trigger j s"
  shows "\<exists>u t. actorListener (call_depth s) (OnCompleteStage st (Some stageRecoveryFailedResult))
      (upd_stage k (\<lambda>st. st\<lparr>triggered := True\<rparr>) (next_order s)) = Done u \<and>
    fold_res (fail_lost_stage (actorListener (call_depth s))) (range_keys s) (next_order s) = Done u \<and>
    Recover (actorListener (call_depth s)) s = Done t \<and>
    (\<forall>j. lost j s \<and> j \<noteq> k \<longrightarrow> (\<exists>b. GetStage j t = Some b \<and> (IsResolved b \<or> triggered b \<and> asked j t)))"
proof -
  let ?n = "2 * length (stages s) + 9" and ?lis = "actorListener (call_depth s)"
  have depth: "call_depth s = Suc ?n"
    by (simp add: call_depth_def)
  have ready: "ready s"
    using s(3) by (simp add: live_def)
  have "work s \<le> ?n"
    using work_bound [of s] by simp
  then have "returns True (Recover ?lis s)"
    unfolding depth using s ready by (intro actor_progress.returns_Recover) (simp_all add: good_def)
  then obtain t where t: "Recover ?lis s = Done t"
    using returns_strictD by blast
  then obtain u where u: "fold_res (fail_lost_stage ?lis) (range_keys s) (next_order s) = Done u"
      "bind_res (triggerReadyStages ?lis u) (checkForExecutionFinished ?lis) = Done t"
    by (auto simp: Recover_def bind_res_eq_Done)
  have one: "?lis (OnCompleteStage st (Some stageRecoveryFailedResult)) (upd_stage k (\<lambda>st. st\<lparr>triggered := True\<rparr>) (next_order s)) = Done u"
    using u(1) fails_one [OF s(1,3) k(1,3,4,2), of "call_depth s"] by simp
  have "wf_graph u" "live u"
    using actor_launch.live_keeps [OF actor.keeps_fold [OF _ actor.keeps_fail_lost_stage] _ u(1)] s(1,3) live_of_more [of s "next_order s"]
    by simp_all
  then have settled: "settled t"
    using actor_settled.trigger_then_check_settles u(2) by blast
  have "waiting asked s = {}"
    using restored by (auto simp: waiting_def)
  then have waiting: "waiting asked t = {}"
    using actor_launch.Recover_launches [OF s(1,3) t] by simp
  have "journals is_callback s t"
    using actor.keeps_Recover [OF s(1)] t keeps_DoneD by blast
  then have ev: "graph_evolves s t"
    by (rule journals_evolves [OF _ ready s(2)])
  have "\<exists>b. GetStage j t = Some b \<and> (IsResolved b \<or> triggered b \<and> asked j t)" if j: "lost j s" for j
  proof -
    obtain a where a: "GetStage j s = Some a" "operation a \<noteq> Op_invokeFunction"
      using j by (auto simp: lost_def split: option.splits)
    then obtain b where b: "GetStage j t = Some b" "operation b \<noteq> Op_invokeFunction"
      using ev unfolding graph_evolves_def stage_evolves_def by metis
    have "\<not> could_trigger j t" "j \<notin> waiting asked t"
      using settled waiting by (simp_all add: settled_def)
    then show ?thesis
      using b lost_ready [OF j ev b(1)] by (auto simp: could_trigger_def waiting_def)
  qed
  then show ?thesis
    using one u(1) t by blast
qed

text \<open>Two suppliers that were running when the actor was lost, and the actor that has replayed its journal.\<close>

definition lost_run :: "Message list" where
  "lost_run = map MsgCommand
     [CreateGraphRequest ''flow'' ''app/fn'',
      AddStageRequest ''flow'' Op_supply demo_closure [] '''' '''',
      AddStageRequest ''flow'' Op_supply demo_closure [] '''' '''']"

definition lost_actor :: graphActor where "lost_actor = run lost_run new_actor"

definition restored_actor :: graphActor where
  "restored_actor =
     (let s = state_of new_actor (fold_res replay_one (written (mixin lost_actor)) (new_actor\<lparr>mixin := mixin_start (mixin new_actor)\<rparr>))
      in s\<lparr>mixin := (mixin s)\<lparr>recovering := False\<rparr>\<rparr>)"

lemma restored_facts:
  "wf_graph restored_actor" "hasGraph restored_actor" "snapshotInterval (mixin restored_actor) \<noteq> 0" "\<not> recovering (mixin restored_actor)"
  "range_keys restored_actor = [] @ ''0'' # [''1'']" "could_trigger ''0'' restored_actor" "lost ''1'' restored_actor"
  "list_all (\<lambda>(k, st). \<not> triggered st) (stages restored_actor)"
  by code_simp+

lemma restored_inv: "flow_inv restored_actor" "reliable (mixin restored_actor)"
proof -
  have "storeFault (mixin restored_actor) n = None" for n
    by code_simp
  then show "reliable (mixin restored_actor)"
    by (simp add: reliable_def)
  show "flow_inv restored_actor"
    by code_simp
qed

theorem recovery_reinvokes_witness:
  "\<exists>t b. Recover (actorListener (call_depth restored_actor)) restored_actor = Done t \<and> GetStage ''1'' t = Some b \<and>
    (IsResolved b \<or> triggered b \<and> asked ''1'' t)"
proof -
  have live: "live restored_actor"
    using restored_facts(2-4) by (simp add: live_def ready_def)
  have idle: "IsResolved st" if "GetStage j restored_actor = Some st" "triggered st" for j st
    using that restored_facts(8) by (auto simp: GetStage_def list_all_iff dest: map_of_SomeD)
  obtain st where "GetStage ''0'' restored_actor = Some st"
    using restored_facts(6) by (auto simp: could_trigger_def split: option.splits)
  from recovery_reinvokes [OF restored_facts(1) restored_inv(1) live restored_inv(2) idle restored_facts(5) this restored_facts(6)]
  show ?thesis
    using restored_facts(7) by fastforce
qed

text \<open>There the second supplier is invoked once more, and only the first is failed.\<close>

lemma second_supplier_reinvoked:
  "(let t = state_of new_actor (mixin_init (written (mixin lost_actor)) new_actor)
    in map (\<lambda>(k, st). (k, result st = Some stageRecoveryFailedResult)) (stages t) = [(''0'', True), (''1'', False)] \<and>
       InvokeStageRequest ''app/fn'' ''flow'' ''1'' [] demo_closure \<in> set (outbox t))"
  by code_simp

section \<open>Shared inner stages\<close>

text \<open>A flow in which two stages are composed with the same inner stage.\<close>

definition shared_run :: "Message list" where
  "shared_run = map MsgCommand
     [CreateGraphRequest ''flow'' ''app/fn'',
      AddStageRequest ''flow'' Op_externalCompletion None [] '''' '''',
      AddStageRequest ''flow'' Op_supply demo_closure [] '''' '''',
      AddStageRequest ''flow'' Op_thenCompose demo_closure [''1''] '''' '''',
      AddStageRequest ''flow'' Op_thenCompose demo_closure [''1''] '''' '''',
      FaasInvocationResponse ''flow'' ''1'' ''app/fn'' demo_result '''',
      FaasInvocationResponse ''flow'' ''2'' ''app/fn''
        (Some (NewSuccessfulResult (Some (NewStageRefDatum ''0'')))) '''',
      FaasInvocationResponse ''flow'' ''3'' ''app/fn''
        (Some (NewSuccessfulResult (Some (NewStageRefDatum ''0'')))) '''',
      CompleteStageExternallyRequest ''flow'' ''0'' demo_result '''' '''',
      CommitGraphRequest ''flow'']"

text \<open>An inner stage remembers one outer stage only: the second composition replaces the first, and so the inner stage's completion
  completes only the second.\<close>

lemma shared_composition_lost:
  "(let t = run shared_run new_actor
    in map (\<lambda>(k, st). (k, IsResolved st)) (stages t) =
         [(''0'', True), (''1'', True), (''2'', False), (''3'', True)] \<and> state t = StateCommitted)"
  by code_simp

end
