(* ===== verification/Event_Store.thy ===== *)
theory Event_Store
  imports Flow_Prelude "HOL-Library.Multiset"
begin

text \<open>
  The stores of events and snapshots of \<^verbatim>\<open>src/persistence\<close>: the in-memory provider
  (\<^verbatim>\<open>in_memory_provider.go\<close>) and the SQL provider (\<^verbatim>\<open>sql_provider.go\<close>), and the contract
  of \<^verbatim>\<open>persistence_provider.go\<close> that an actor relies on: what it has persisted is what it
  reads back. \<open>'m\<close> is the type of the messages.
\<close>

section \<open>The in-memory provider\<close>

record 'm entry =
  entryIndex :: int
  snapshot :: "'m option"
  events :: "'m list"

record 'm InMemoryProvider =
  imSnapshotInterval :: int
  store :: "(string \<times> 'm entry) list"

definition NewInMemoryProvider :: "int \<Rightarrow> 'm InMemoryProvider" where
  "NewInMemoryProvider interval = \<lparr>imSnapshotInterval = interval, store = []\<rparr>"

definition empty_entry :: "'m entry" where
  "empty_entry = \<lparr>entryIndex = 0, snapshot = None, events = []\<rparr>"

text \<open>The entry, whether it was there, and the provider with the entry in place.\<close>

definition loadOrInit :: "string \<Rightarrow> 'm InMemoryProvider \<Rightarrow> 'm entry \<times> bool \<times> 'm InMemoryProvider" where
  "loadOrInit actorName p =
     (case map_of (store p) actorName of
        Some e \<Rightarrow> (e, True, p)
      | None \<Rightarrow> (empty_entry, False, p\<lparr>store := AList.update actorName empty_entry (store p)\<rparr>))"

definition put_entry :: "string \<Rightarrow> 'm entry \<Rightarrow> 'm InMemoryProvider \<Rightarrow> 'm InMemoryProvider" where
  "put_entry actorName e p = p\<lparr>store := AList.update actorName e (store p)\<rparr>"

definition inmem_GetSnapshotInterval :: "'m InMemoryProvider \<Rightarrow> int" where
  "inmem_GetSnapshotInterval p = imSnapshotInterval p"

text \<open>\<^verbatim>\<open>GetSnapshot\<close>: the snapshot with its event index, if there is one.\<close>

definition inmem_GetSnapshot ::
  "string \<Rightarrow> 'm InMemoryProvider \<Rightarrow> ('m \<times> int) option \<times> 'm InMemoryProvider" where
  "inmem_GetSnapshot actorName p =
     (case loadOrInit actorName p of
        (e, loaded, p') \<Rightarrow>
          (case snapshot e of
             Some m \<Rightarrow> if loaded then (Some (m, entryIndex e), p') else (None, p')
           | None \<Rightarrow> (None, p')))"

definition inmem_PersistSnapshot ::
  "string \<Rightarrow> int \<Rightarrow> 'm \<Rightarrow> 'm InMemoryProvider \<Rightarrow> 'm InMemoryProvider" where
  "inmem_PersistSnapshot actorName eventIndex m p =
     (case loadOrInit actorName p of
        (e, loaded, p') \<Rightarrow> put_entry actorName (e\<lparr>entryIndex := eventIndex, snapshot := Some m\<rparr>) p')"

text \<open>\<^verbatim>\<open>GetEvents\<close>: the calls of the callback, in order. A negative start makes the slice
  expression panic (\<open>None\<close>). The index given to the callback is the index in the slice.\<close>

definition inmem_GetEvents ::
  "string \<Rightarrow> int \<Rightarrow> 'm InMemoryProvider \<Rightarrow> (int \<times> 'm) list option \<times> 'm InMemoryProvider" where
  "inmem_GetEvents actorName eventIndexStart p =
     (case loadOrInit actorName p of
        (e, loaded, p') \<Rightarrow>
          if eventIndexStart \<ge> int (length (events e)) then (Some [], p')
          else if eventIndexStart < 0 then (None, p')
          else (let slice = drop (nat eventIndexStart) (events e)
                in (Some (zip (map int [0..<length slice]) slice), p')))"

definition inmem_PersistEvent ::
  "string \<Rightarrow> int \<Rightarrow> 'm \<Rightarrow> 'm InMemoryProvider \<Rightarrow> 'm InMemoryProvider" where
  "inmem_PersistEvent actorName eventIndex m p =
     (case loadOrInit actorName p of
        (e, loaded, p') \<Rightarrow> put_entry actorName (e\<lparr>events := events e @ [m]\<rparr>) p')"

section \<open>The SQL provider\<close>

text \<open>
  The tables of \<^verbatim>\<open>sql_init.go\<close> as lists of rows. \<^verbatim>\<open>REPLACE INTO\<close> deletes the rows that
  agree with the new one in a primary key or a unique index and then inserts it; the events
  table has neither, so there it only inserts. The protobuf library is an argument: the
  registered name of a message's type, its encoding, and the decoding of an encoding of a
  named type (\<open>None\<close>: an error, also for a name that is not registered).
\<close>

record 'm proto_codec =
  MessageName :: "'m \<Rightarrow> string"
  Marshal :: "'m \<Rightarrow> string option"
  Unmarshal :: "string \<Rightarrow> string \<Rightarrow> 'm option"

record EventRow =
  rowActor :: string
  rowType :: string
  rowIndex :: int
  rowEvent :: string

record SnapshotRow =
  snapActor :: string
  snapType :: string
  snapIndex :: int
  snapData :: string

text \<open>\<open>dbFault\<close> says which of the coming statements fail.\<close>

record sqlProvider =
  sqlSnapshotInterval :: int
  eventRows :: "EventRow list"
  snapshotRows :: "SnapshotRow list"
  dbFault :: "nat \<Rightarrow> bool"

definition next_statement :: "sqlProvider \<Rightarrow> sqlProvider" where
  "next_statement p = p\<lparr>dbFault := (\<lambda>n. dbFault p (Suc n))\<rparr>"

definition NewSQLProvider :: "int \<Rightarrow> (nat \<Rightarrow> bool) \<Rightarrow> sqlProvider" where
  "NewSQLProvider interval faults =
     \<lparr>sqlSnapshotInterval = interval, eventRows = [], snapshotRows = [], dbFault = faults\<rparr>"

definition sql_GetSnapshotInterval :: "sqlProvider \<Rightarrow> int" where
  "sql_GetSnapshotInterval p = sqlSnapshotInterval p"

definition extractData :: "'m proto_codec \<Rightarrow> string \<Rightarrow> string \<Rightarrow> 'm option" where
  "extractData c msgTypeName msgBytes = Unmarshal c msgTypeName msgBytes"

definition sql_GetSnapshot ::
  "'m proto_codec \<Rightarrow> string \<Rightarrow> sqlProvider \<Rightarrow> ('m \<times> int) option \<times> sqlProvider" where
  "sql_GetSnapshot c actorName p =
     (if dbFault p 0 then (None, next_statement p)
      else case filter (\<lambda>r. snapActor r = actorName) (snapshotRows p) of
             [] \<Rightarrow> (None, next_statement p)
           | r # _ \<Rightarrow>
               (case extractData c (snapType r) (snapData r) of
                  None \<Rightarrow> (None, next_statement p)
                | Some m \<Rightarrow> (Some (m, snapIndex r), next_statement p)))"

text \<open>\<^verbatim>\<open>PersistSnapshot\<close> panics with the error of the library or of the database.\<close>

definition sql_PersistSnapshot ::
  "'m proto_codec \<Rightarrow> string \<Rightarrow> int \<Rightarrow> 'm \<Rightarrow> sqlProvider \<Rightarrow> sqlProvider res" where
  "sql_PersistSnapshot c actorName eventIndex m p =
     (case Marshal c m of
        None \<Rightarrow> Panic ErrMarshalling p
      | Some bytes \<Rightarrow>
          if dbFault p 0 then Panic ErrPersistingSnapshot (next_statement p)
          else Done ((next_statement p)\<lparr>snapshotRows :=
                 filter (\<lambda>r. snapActor r \<noteq> actorName) (snapshotRows p) @
                 [\<lparr>snapActor = actorName, snapType = MessageName c m, snapIndex = eventIndex,
                   snapData = bytes\<rparr>]\<rparr>))"

definition sql_PersistEvent ::
  "'m proto_codec \<Rightarrow> string \<Rightarrow> int \<Rightarrow> 'm \<Rightarrow> sqlProvider \<Rightarrow> sqlProvider res" where
  "sql_PersistEvent c actorName eventIndex m p =
     (case Marshal c m of
        None \<Rightarrow> Panic ErrMarshalling p
      | Some bytes \<Rightarrow>
          if dbFault p 0 then Panic ErrPersistenceFailed (next_statement p)
          else Done ((next_statement p)\<lparr>eventRows := eventRows p @
                 [\<lparr>rowActor = actorName, rowType = MessageName c m, rowIndex = eventIndex,
                   rowEvent = bytes\<rparr>]\<rparr>))"

text \<open>The callbacks of \<^verbatim>\<open>GetEvents\<close> up to the first row that cannot be decoded, and whether
  there was one.\<close>

fun decode_rows :: "'m proto_codec \<Rightarrow> EventRow list \<Rightarrow> (int \<times> 'm) list \<times> bool" where
  "decode_rows c [] = ([], True)"
| "decode_rows c (r # rs) =
     (case extractData c (rowType r) (rowEvent r) of
        None \<Rightarrow> ([], False)
      | Some m \<Rightarrow> (case decode_rows c rs of (es, ok) \<Rightarrow> ((rowIndex r, m) # es, ok)))"

datatype 'm read_result = ReadEvents "(int \<times> 'm) list" | ReadPanic panic_reason "(int \<times> 'm) list"

text \<open>\<open>scan\<close> is the order in which the database meets the rows of the table; rows with the same
  index stay in this order.\<close>

definition sql_GetEvents ::
  "'m proto_codec \<Rightarrow> (EventRow list \<Rightarrow> EventRow list) \<Rightarrow> string \<Rightarrow> int \<Rightarrow> sqlProvider \<Rightarrow> 'm read_result" where
  "sql_GetEvents c scan actorName eventIndexStart p =
     (if dbFault p 0 then ReadPanic ErrReadingEvents []
      else case decode_rows c (sort_key rowIndex
                  (filter (\<lambda>r. rowActor r = actorName \<and> rowIndex r \<ge> eventIndexStart) (scan (eventRows p)))) of
             (es, True) \<Rightarrow> ReadEvents es
           | (es, False) \<Rightarrow> ReadPanic ErrMarshalling es)"

section \<open>The contract of a provider\<close>

text \<open>
  \<open>persist\<close> and \<open>journal\<close> are an actor's view of its provider: storing an event under the
  index that comes next, and reading all events back. \<open>storable\<close> are the messages the
  provider can store.
\<close>

definition indexes_from :: "nat \<Rightarrow> 'm list \<Rightarrow> (int \<times> 'm) list" where
  "indexes_from k ms = zip (map int [k..<k + length ms]) ms"

lemma indexes_from_Nil [simp]: "indexes_from k [] = []"
  by (simp add: indexes_from_def)

lemma indexes_from_inj: "indexes_from k ms = indexes_from k ms' \<longleftrightarrow> ms = ms'"
  by (metis indexes_from_def length_map length_upt map_snd_zip diff_add_inverse)

lemma indexes_from_snoc: "indexes_from 0 (ms @ [m]) = indexes_from 0 ms @ [(int (length ms), m)]"
  by (simp add: indexes_from_def)

lemma indexes_from_take: "indexes_from 0 (take r ms) = take r (indexes_from 0 ms)"
  by (simp add: indexes_from_def take_zip take_map min_def)

lemma indexes_from_length [simp]: "length (indexes_from k ms) = length ms"
  by (simp add: indexes_from_def)

lemma indexes_from_nth: "i < length ms \<Longrightarrow> indexes_from k ms ! i = (int (k + i), ms ! i)"
  by (simp add: indexes_from_def)

text \<open>A history of persisted events of several actors; the index of each is the number of the
  actor's events before it, as the mixin counts them.\<close>

fun persist_all :: "(string \<Rightarrow> int \<Rightarrow> 'm \<Rightarrow> 's \<Rightarrow> 's) \<Rightarrow> (string \<times> 'm) list \<Rightarrow> (string \<Rightarrow> nat) \<Rightarrow> 's \<Rightarrow> 's" where
  "persist_all persist [] c s = s"
| "persist_all persist ((n, m) # h) c s =
     persist_all persist h (c(n := Suc (c n))) (persist n (int (c n)) m s)"

locale event_provider =
  fixes persist :: "string \<Rightarrow> int \<Rightarrow> 'm \<Rightarrow> 's \<Rightarrow> 's"
    and journal :: "string \<Rightarrow> 's \<Rightarrow> (int \<times> 'm) list"
    and storable :: "'m \<Rightarrow> bool"
    and inv :: "'s \<Rightarrow> bool"
  assumes persist_own: "inv s \<Longrightarrow> storable m \<Longrightarrow> journal n s = indexes_from 0 ms \<Longrightarrow>
      journal n (persist n (int (length ms)) m s) = indexes_from 0 (ms @ [m])"
    and persist_other: "inv s \<Longrightarrow> storable m \<Longrightarrow> n \<noteq> n' \<Longrightarrow>
      journal n' s = indexes_from 0 ms \<Longrightarrow> journal n' (persist n i m s) = journal n' s"
    and persist_inv: "inv s \<Longrightarrow> storable m \<Longrightarrow> inv (persist n i m s)"
begin

lemma persist_all_journal:
  assumes "inv s" and "list_all (storable \<circ> snd) h"
    and "\<And>n. \<exists>ms. journal n s = indexes_from 0 ms \<and> length ms = c n"
  shows "\<exists>ms. journal n s = indexes_from 0 ms \<and>
    journal n (persist_all persist h c s) = indexes_from 0 (ms @ map snd (filter (\<lambda>(n', m). n' = n) h))"
  using assms
proof (induction h arbitrary: c s)
  case Nil
  then show ?case
    by (auto dest: spec [of _ n])
next
  case (Cons a h)
  obtain n' m where a: "a = (n', m)"
    by (cases a)
  have m: "storable m" "list_all (storable \<circ> snd) h"
    using Cons.prems(2) a by (simp_all add: comp_def)
  let ?s = "persist n' (int (c n')) m s"
  obtain ms' where ms': "journal n' s = indexes_from 0 ms'" "length ms' = c n'"
    using Cons.prems(3) by blast
  have own: "journal n' ?s = indexes_from 0 (ms' @ [m])"
    using persist_own [OF Cons.prems(1) m(1) ms'(1)] ms'(2) by simp
  have other: "journal k ?s = journal k s" if "k \<noteq> n'" for k
    using persist_other [OF Cons.prems(1) m(1)] that Cons.prems(3) by metis
  have inv: "\<exists>ms. journal k ?s = indexes_from 0 ms \<and> length ms = (c(n' := Suc (c n'))) k" for k
    using own other ms' Cons.prems(3) [of k] by (cases "k = n'") auto
  from Cons.IH [OF persist_inv [OF Cons.prems(1) m(1)] m(2) inv]
  obtain ms where ms: "journal n ?s = indexes_from 0 ms"
    "journal n (persist_all persist h (c(n' := Suc (c n'))) ?s) =
       indexes_from 0 (ms @ map snd (filter (\<lambda>(n', m). n' = n) h))"
    by blast
  show ?case
  proof (cases "n = n'")
    case True
    then have "indexes_from 0 ms = indexes_from 0 (ms' @ [m])"
      using own ms(1) by simp
    then have "ms = ms' @ [m]"
      by (simp only: indexes_from_inj)
    then show ?thesis
      using True a ms(2) ms'(1) by auto
  next
    case False
    then show ?thesis
      using a ms other [of n] by auto
  qed
qed

lemma persist_all_initial:
  assumes "inv s" and "list_all (storable \<circ> snd) h" and "\<And>n. journal n s = []"
  shows "journal n (persist_all persist h (\<lambda>_. 0) s) = indexes_from 0 (map snd (filter (\<lambda>(n', m). n' = n) h))"
proof -
  have "\<exists>ms. journal n s = indexes_from 0 ms \<and> length ms = 0" for n
    using assms(3) by simp
  from persist_all_journal [OF assms(1,2) this, of n] obtain ms where
    "journal n s = indexes_from 0 ms"
    "journal n (persist_all persist h (\<lambda>_. 0) s) = indexes_from 0 (ms @ map snd (filter (\<lambda>(n', m). n' = n) h))"
    by blast
  moreover from this(1) have "ms = []"
    using assms(3) by (metis indexes_from_Nil indexes_from_inj)
  ultimately show ?thesis
    by simp
qed

lemma persist_all_inv: "inv s \<Longrightarrow> list_all (storable \<circ> snd) h \<Longrightarrow> inv (persist_all persist h c s)"
  by (induction h arbitrary: c s) (auto simp: persist_inv)

end

section \<open>Both providers meet it\<close>

lemma loadOrInit_events:
  assumes "loadOrInit n p = (e, loaded, p')"
  shows "e = (case map_of (store p) n of Some e \<Rightarrow> e | None \<Rightarrow> empty_entry)"
    and "map_of (store p') k = (if k = n \<and> \<not> loaded then Some empty_entry else map_of (store p) k)"
    and "loaded = (map_of (store p) n \<noteq> None)"
  using assms by (auto simp: loadOrInit_def update_conv split: option.splits)

definition inmem_journal :: "string \<Rightarrow> 'm InMemoryProvider \<Rightarrow> (int \<times> 'm) list" where
  "inmem_journal n p = (case fst (inmem_GetEvents n 0 p) of Some es \<Rightarrow> es | None \<Rightarrow> [])"

lemma inmem_journal_eq:
  "inmem_journal n p =
     indexes_from 0 (events (case map_of (store p) n of Some e \<Rightarrow> e | None \<Rightarrow> empty_entry))"
  by (auto simp: inmem_journal_def inmem_GetEvents_def indexes_from_def Let_def
      dest: loadOrInit_events(1) split: prod.splits)

lemma inmem_persist_lookup:
  "map_of (store (inmem_PersistEvent n i m p)) k =
     (if k = n
      then Some ((case map_of (store p) n of Some e \<Rightarrow> e | None \<Rightarrow> empty_entry)
        \<lparr>events := events (case map_of (store p) n of Some e \<Rightarrow> e | None \<Rightarrow> empty_entry) @ [m]\<rparr>)
      else map_of (store p) k)"
  by (auto simp: inmem_PersistEvent_def put_entry_def update_conv loadOrInit_def split: option.splits)

interpretation inmem: event_provider inmem_PersistEvent inmem_journal "\<lambda>m. True" "\<lambda>p. True"
proof unfold_locales
  fix p :: "'a InMemoryProvider" and m n ms
  assume *: "inmem_journal n p = indexes_from 0 ms"
  have "events (case map_of (store p) n of Some e \<Rightarrow> e | None \<Rightarrow> empty_entry) = ms"
    using * by (simp add: inmem_journal_eq indexes_from_inj)
  then show "inmem_journal n (inmem_PersistEvent n (int (length ms)) m p) = indexes_from 0 (ms @ [m])"
    by (simp add: inmem_journal_eq inmem_persist_lookup)
qed (simp_all add: inmem_journal_eq inmem_persist_lookup)

text \<open>The SQL provider stores what its codec restores, while the database works.\<close>

definition codec_ok :: "'m proto_codec \<Rightarrow> 'm \<Rightarrow> bool" where
  "codec_ok c m \<longleftrightarrow>
     (case Marshal c m of None \<Rightarrow> False | Some bytes \<Rightarrow> Unmarshal c (MessageName c m) bytes = Some m)"

definition sql_ok :: "'m proto_codec \<Rightarrow> sqlProvider \<Rightarrow> bool" where
  "sql_ok c p \<longleftrightarrow>
     (\<forall>n. \<not> dbFault p n) \<and> (\<forall>r \<in> set (eventRows p). extractData c (rowType r) (rowEvent r) \<noteq> None)"

fun sql_done :: "sqlProvider \<Rightarrow> sqlProvider res \<Rightarrow> sqlProvider" where
  "sql_done p (Done p') = p'"
| "sql_done p _ = p"

definition sql_persist :: "'m proto_codec \<Rightarrow> string \<Rightarrow> int \<Rightarrow> 'm \<Rightarrow> sqlProvider \<Rightarrow> sqlProvider" where
  "sql_persist c n i m p = sql_done p (sql_PersistEvent c n i m p)"

definition sql_journal ::
  "'m proto_codec \<Rightarrow> (EventRow list \<Rightarrow> EventRow list) \<Rightarrow> string \<Rightarrow> sqlProvider \<Rightarrow> (int \<times> 'm) list" where
  "sql_journal c scan n p =
     (case sql_GetEvents c scan n 0 p of ReadEvents es \<Rightarrow> es | ReadPanic q es \<Rightarrow> es)"

lemma decode_rows_all:
  "\<forall>r \<in> set rs. extractData c (rowType r) (rowEvent r) \<noteq> None \<Longrightarrow>
   decode_rows c rs = (map (\<lambda>r. (rowIndex r, the (extractData c (rowType r) (rowEvent r)))) rs, True)"
  by (induction rs) (auto split: option.splits)

definition own_rows :: "(EventRow list \<Rightarrow> EventRow list) \<Rightarrow> string \<Rightarrow> sqlProvider \<Rightarrow> EventRow list" where
  "own_rows scan n p =
     sort_key rowIndex (filter (\<lambda>r. rowActor r = n \<and> rowIndex r \<ge> 0) (scan (eventRows p)))"

lemma sql_GetEvents_rows:
  assumes "sql_ok c p" and scan: "\<And>rs. mset (scan rs) = mset rs"
  shows "sql_GetEvents c scan n 0 p =
    ReadEvents (map (\<lambda>r. (rowIndex r, the (extractData c (rowType r) (rowEvent r)))) (own_rows scan n p))"
proof -
  have "set (scan (eventRows p)) = set (eventRows p)"
    by (metis scan set_mset_mset)
  then show ?thesis
    using assms(1) decode_rows_all [of "own_rows scan n p" c]
    by (auto simp: sql_GetEvents_def own_rows_def sql_ok_def)
qed

lemma mset_own_rows:
  assumes "\<And>rs. mset (scan rs) = mset rs"
  shows "mset (own_rows scan n p) = filter_mset (\<lambda>r. rowActor r = n \<and> rowIndex r \<ge> 0) (mset (eventRows p))"
  using assms by (simp add: own_rows_def)

lemma indexed_unique:
  fixes key :: "'r \<Rightarrow> int"
  assumes "mset ys = mset zs" and "map key zs = map int [0..<length zs]" and "sorted (map key ys)"
  shows "ys = zs"
proof -
  have d: "distinct (map key zs)" and s: "sorted (map key zs)"
    unfolding assms(2) by (simp_all add: distinct_map sorted_wrt_map del: upt_Suc)
  have "mset (map key ys) = mset (map key zs)"
    using assms(1) by simp
  then have d': "distinct (map key ys)"
    using d by (metis mset_eq_imp_distinct_iff)
  have set: "set ys = set zs"
    by (rule mset_eq_setD [OF assms(1)])
  then have "inj_on key (set ys \<union> set zs)"
    using d by (simp only: Un_absorb distinct_map)
  then show ?thesis
    using map_sorted_distinct_set_unique assms(3) s d d' set by blast
qed

lemma sql_persist_rows:
  assumes "sql_ok c p" and "codec_ok c m"
  shows "\<exists>r. eventRows (sql_persist c n i m p) = eventRows p @ [r] \<and> rowActor r = n \<and> rowIndex r = i \<and>
      extractData c (rowType r) (rowEvent r) = Some m"
    and "sql_ok c (sql_persist c n i m p)"
  using assms
  by (auto simp: sql_persist_def sql_PersistEvent_def sql_ok_def codec_ok_def extractData_def next_statement_def
      split: option.splits)

lemma sql_event_provider:
  assumes scan: "\<And>rs. mset (scan rs) = mset rs"
  shows "event_provider (sql_persist c) (sql_journal c scan) (codec_ok c) (sql_ok c)"
proof unfold_locales
  have j: "sql_journal c scan n p =
      map (\<lambda>r. (rowIndex r, the (extractData c (rowType r) (rowEvent r)))) (own_rows scan n p)"
    if "sql_ok c p" for n p
    using sql_GetEvents_rows [OF that scan] by (simp add: sql_journal_def)
  have own_keys: "map rowIndex (own_rows scan n p) = map int [0..<length ms]"
    if "sql_ok c p" "sql_journal c scan n p = indexes_from 0 ms" for n p ms
  proof -
    have "map fst (sql_journal c scan n p) = map int [0..<length ms]"
      unfolding that(2) by (simp add: indexes_from_def)
    then show ?thesis
      by (simp add: j [OF that(1)] comp_def)
  qed
  {
    fix p m n ms
    assume *: "sql_ok c p" "codec_ok c m" "sql_journal c scan n p = indexes_from 0 ms"
    let ?p = "sql_persist c n (int (length ms)) m p"
    obtain r where r: "eventRows ?p = eventRows p @ [r]" "rowActor r = n" "rowIndex r = int (length ms)"
        "extractData c (rowType r) (rowEvent r) = Some m"
      using sql_persist_rows(1) [OF *(1,2)] by blast
    have keys: "map rowIndex (own_rows scan n p) = map int [0..<length ms]"
      by (rule own_keys [OF *(1,3)])
    then have len: "length (own_rows scan n p) = length ms"
      by (metis length_map length_upt diff_zero)
    have "own_rows scan n ?p = own_rows scan n p @ [r]"
    proof (rule indexed_unique [where key = rowIndex])
      show "mset (own_rows scan n ?p) = mset (own_rows scan n p @ [r])"
        using r by (simp add: mset_own_rows [OF scan])
      show "sorted (map rowIndex (own_rows scan n ?p))"
        by (simp add: own_rows_def)
    qed (use r keys len in simp)
    then show "sql_journal c scan n ?p = indexes_from 0 (ms @ [m])"
      using r *(3) by (simp add: j [OF sql_persist_rows(2) [OF *(1,2)]] j [OF *(1), symmetric] indexes_from_snoc)
  }
  {
    fix p m n n' i ms
    assume *: "sql_ok c p" "codec_ok c m" "n \<noteq> n'" "sql_journal c scan n' p = indexes_from 0 ms"
    let ?p = "sql_persist c n i m p"
    obtain r where r: "eventRows ?p = eventRows p @ [r]" "rowActor r = n"
      using sql_persist_rows(1) [OF *(1,2)] by blast
    have keys: "map rowIndex (own_rows scan n' p) = map int [0..<length ms]"
      by (rule own_keys [OF *(1,4)])
    then have "length (own_rows scan n' p) = length ms"
      by (metis length_map length_upt diff_zero)
    then have "own_rows scan n' ?p = own_rows scan n' p"
      using r *(3) keys
      by (intro indexed_unique [where key = rowIndex])
         (simp_all add: mset_own_rows [OF scan], simp add: own_rows_def)
    then show "sql_journal c scan n' ?p = sql_journal c scan n' p"
      by (simp add: j [OF sql_persist_rows(2) [OF *(1,2)]] j [OF *(1)])
  }
qed (rule sql_persist_rows(2))

interpretation sql: event_provider "sql_persist c" "sql_journal c (\<lambda>rs. rs)" "codec_ok c" "sql_ok c" for c
  by (rule sql_event_provider) simp

section \<open>Properties\<close>

text \<open>The in-memory provider gives every actor its own journal back. After any interleaving of the
  actors' events, each actor reads exactly the events it persisted, in order, numbered from
  0.\<close>

theorem inmem_roundtrip:
  "fst (inmem_GetEvents n 0 (persist_all inmem_PersistEvent h (\<lambda>_. 0) (NewInMemoryProvider k))) =
     Some (indexes_from 0 (map snd (filter (\<lambda>(n', m). n' = n) h)))"
proof -
  have "inmem_journal n (persist_all inmem_PersistEvent h (\<lambda>_. 0) (NewInMemoryProvider k)) =
      indexes_from 0 (map snd (filter (\<lambda>(n', m). n' = n) h))"
    by (rule inmem.persist_all_initial)
       (simp_all add: list_all_iff inmem_journal_eq NewInMemoryProvider_def empty_entry_def)
  moreover have "\<exists>es. fst (inmem_GetEvents n 0 p) = Some es" for p :: "'a InMemoryProvider"
    by (simp add: inmem_GetEvents_def Let_def split: prod.splits)
  ultimately show ?thesis
    by (metis inmem_journal_def option.simps(5))
qed

lemma sql_reads_back:
  assumes scan: "\<And>rs. mset (scan rs) = mset rs" and h: "list_all (codec_ok c \<circ> snd) h"
  shows "sql_GetEvents c scan n 0 (persist_all (sql_persist c) h (\<lambda>_. 0) (NewSQLProvider k (\<lambda>_. False))) =
    ReadEvents (indexes_from 0 (map snd (filter (\<lambda>(n', m). n' = n) h)))"
proof -
  let ?p = "persist_all (sql_persist c) h (\<lambda>_. 0) (NewSQLProvider k (\<lambda>_. False))"
  note provider = sql_event_provider [OF scan, of c]
  have ok: "sql_ok c (NewSQLProvider k (\<lambda>_. False))"
    by (simp add: sql_ok_def NewSQLProvider_def)
  have "scan [] = []"
    using scan [of "[]"] by simp
  then have "sql_journal c scan n' (NewSQLProvider k (\<lambda>_. False)) = []" for n'
    by (simp add: sql_journal_def sql_GetEvents_def NewSQLProvider_def)
  then have "sql_journal c scan n ?p = indexes_from 0 (map snd (filter (\<lambda>(n', m). n' = n) h))"
    by (intro event_provider.persist_all_initial [OF provider ok h])
  moreover have "\<exists>es. sql_GetEvents c scan n 0 ?p = ReadEvents es"
    using sql_GetEvents_rows [OF event_provider.persist_all_inv [OF provider ok h] scan] by blast
  ultimately show ?thesis
    by (auto simp: sql_journal_def)
qed

text \<open>So does the SQL provider, in whatever order the database scans its table, as long as no
  statement fails and the messages survive their encoding.\<close>

theorem sql_roundtrip:
  assumes scan: "\<And>rs. mset (scan rs) = mset rs" and h: "list_all (codec_ok c \<circ> snd) h"
  shows "sql_GetEvents c scan n 0 (persist_all (sql_persist c) h (\<lambda>_. 0) (NewSQLProvider k (\<lambda>_. False))) =
    ReadEvents (indexes_from 0 (map snd (filter (\<lambda>(n', m). n' = n) h)))"
  by (rule sql_reads_back [OF scan h])

text \<open>A codec that stores strings as they are.\<close>

definition string_codec :: "string proto_codec" where
  "string_codec = \<lparr>MessageName = (\<lambda>m. ''string''), Marshal = Some, Unmarshal = (\<lambda>n b. Some b)\<rparr>"

theorem sql_roundtrip_witness:
  "sql_GetEvents string_codec rev ''a'' 0
     (persist_all (sql_persist string_codec) [(''a'', ''x''), (''b'', ''y''), (''a'', ''z'')] (\<lambda>_. 0)
       (NewSQLProvider 100 (\<lambda>_. False))) = ReadEvents [(0, ''x''), (1, ''z'')]"
proof -
  have "list_all (codec_ok string_codec \<circ> snd) [(''a'', ''x''), (''b'', ''y''), (''a'', ''z'')]"
    by (simp add: codec_ok_def string_codec_def)
  from sql_roundtrip [of rev, OF mset_rev this, of "''a''" 100] show ?thesis
    by (simp add: indexes_from_def)
qed

text \<open>The in-memory provider numbers events from the start of the read, not from the start of the
  journal: a read from \<open>i\<close> gives the events from \<open>i\<close> on, but numbered from 0, while the SQL
  provider gives each event the index it was stored under.\<close>

theorem inmem_indexes_relative:
  assumes "i < length h"
  shows "fst (inmem_GetEvents n (int i) (persist_all inmem_PersistEvent (map (Pair n) h) (\<lambda>_. 0) (NewInMemoryProvider k))) =
    Some (indexes_from 0 (drop i h))"
proof -
  let ?p = "persist_all inmem_PersistEvent (map (Pair n) h) (\<lambda>_. 0) (NewInMemoryProvider k)"
  have "filter (\<lambda>(n', m). n' = n) (map (Pair n) h) = map (Pair n) h"
    by (induction h) auto
  then have "inmem_journal n ?p = indexes_from 0 h"
    using inmem.persist_all_initial [where s = "NewInMemoryProvider k" and h = "map (Pair n) h" and n = n]
    by (simp add: list_all_iff inmem_journal_eq NewInMemoryProvider_def empty_entry_def comp_def)
  then have "events (case map_of (store ?p) n of Some e \<Rightarrow> e | None \<Rightarrow> empty_entry) = h"
    by (simp add: inmem_journal_eq indexes_from_inj)
  then show ?thesis
    using assms by (auto simp: inmem_GetEvents_def indexes_from_def Let_def dest: loadOrInit_events(1) split: prod.splits)
qed

theorem inmem_indexes_relative_witness:
  "fst (inmem_GetEvents ''a'' 1 (persist_all inmem_PersistEvent [(''a'', ''x''), (''a'', ''y'')] (\<lambda>_. 0)
     (NewInMemoryProvider 100))) = Some [(0, ''y'')]"
  using inmem_indexes_relative [of 1 "[''x'', ''y'']" "''a''" 100] by (simp add: indexes_from_def)

end
