(* ===== verification/Event_Stream.thy ===== *)
theory Event_Stream
  imports Event_Store
begin

text \<open>
  The streaming provider of \<^verbatim>\<open>src/persistence/streaming.go\<close>: it publishes every event it
  persists, and lets a client subscribe to an actor's journal so that it receives the events
  that are already stored and then the new ones.
\<close>

record 'm StreamEvent =
  ActorName :: string
  EventIndex :: int
  StreamedEvent :: 'm

text \<open>The provider it wraps, and the events published so far.\<close>

record ('m, 's) streamingProviderState =
  wrapped :: 's
  published :: "'m StreamEvent list"

definition stream_event :: "string \<Rightarrow> int \<times> 'm \<Rightarrow> 'm StreamEvent" where
  "stream_event name ie = \<lparr>ActorName = name, EventIndex = fst ie, StreamedEvent = snd ie\<rparr>"

text \<open>\<^verbatim>\<open>PersistEvent\<close> publishes only what the wrapped provider has stored; a panic of the wrapped
  provider leaves it before that.\<close>

definition streaming_PersistEvent ::
  "(string \<Rightarrow> int \<Rightarrow> 'm \<Rightarrow> 's \<Rightarrow> 's res) \<Rightarrow> string \<Rightarrow> int \<Rightarrow> 'm \<Rightarrow>
   ('m, 's) streamingProviderState \<Rightarrow> ('m, 's) streamingProviderState res" where
  "streaming_PersistEvent persist actorName eventIndex event m =
     (case persist actorName eventIndex event (wrapped m) of
        Done w \<Rightarrow> Done (m\<lparr>wrapped := w,
                          published := published m @ [stream_event actorName (eventIndex, event)]\<rparr>)
      | Panic p w \<Rightarrow> Panic p (m\<lparr>wrapped := w\<rparr>)
      | NoFuel \<Rightarrow> NoFuel)"

text \<open>The calls of \<open>fn\<close> for what is published while a client is subscribed with a predicate.\<close>

definition StreamNewEvents :: "('m StreamEvent \<Rightarrow> bool) \<Rightarrow> 'm StreamEvent list \<Rightarrow> 'm StreamEvent list" where
  "StreamNewEvents predicate new = filter predicate new"

text \<open>The calls of \<open>fn\<close>, given what \<^verbatim>\<open>GetEvents\<close> of the wrapped provider calls back with.\<close>

definition QueryActorJournal ::
  "string \<Rightarrow> ('m StreamEvent \<Rightarrow> bool) \<Rightarrow> (int \<times> 'm) list \<Rightarrow> 'm StreamEvent list" where
  "QueryActorJournal name predicate rows = filter predicate (map (stream_event name) rows)"

section \<open>Subscribing to a journal\<close>

text \<open>\<open>delivered\<close> are the calls of \<open>fn\<close>; \<open>unread\<close> what \<^verbatim>\<open>GetEvents\<close> has still to call back
  with.\<close>

record 'm bufferedSub =
  sub_committed :: bool
  bufferedEvents :: "'m StreamEvent list"
  highestIndex :: int
  unread :: "(int \<times> 'm) list"
  delivered :: "'m StreamEvent list"

definition new_sub :: "(int \<times> 'm) list \<Rightarrow> 'm bufferedSub" where
  "new_sub rows =
     \<lparr>sub_committed = False, bufferedEvents = [], highestIndex = -1, unread = rows, delivered = []\<rparr>"

definition sub_predicate :: "string \<Rightarrow> int \<Rightarrow> 'm StreamEvent \<Rightarrow> bool" where
  "sub_predicate name fromIndex e \<longleftrightarrow> ActorName e = name \<and> EventIndex e \<ge> fromIndex"

text \<open>The child subscription, the callback of \<^verbatim>\<open>GetEvents\<close>, and the end of
  \<^verbatim>\<open>SubscribeActorJournal\<close>; other goroutines publish in between.\<close>

definition sub_publish :: "string \<Rightarrow> int \<Rightarrow> 'm StreamEvent \<Rightarrow> 'm bufferedSub \<Rightarrow> 'm bufferedSub" where
  "sub_publish name fromIndex e b =
     (if \<not> sub_predicate name fromIndex e then b
      else if sub_committed b
      then (if EventIndex e > highestIndex b then b\<lparr>delivered := delivered b @ [e]\<rparr> else b)
      else b\<lparr>bufferedEvents := bufferedEvents b @ [e]\<rparr>)"

definition sub_read :: "string \<Rightarrow> int \<Rightarrow> 'm bufferedSub \<Rightarrow> 'm bufferedSub" where
  "sub_read name fromIndex b =
     (case unread b of
        [] \<Rightarrow> b
      | row # rows \<Rightarrow> b\<lparr>delivered := delivered b @ [stream_event name row],
                       highestIndex := fromIndex, unread := rows\<rparr>)"

definition sub_commit :: "'m bufferedSub \<Rightarrow> 'm bufferedSub" where
  "sub_commit b = b\<lparr>delivered := delivered b @ bufferedEvents b, sub_committed := True\<rparr>"

datatype 'm sub_action = Publish "'m StreamEvent" | ReadRow | Commit

text \<open>A subscription: rows are read and events are published in some order until all rows are
  read, then it commits, and events are published.\<close>

inductive subscribes ::
  "string \<Rightarrow> int \<Rightarrow> (int \<times> 'm) list \<Rightarrow> 'm sub_action list \<Rightarrow> 'm bufferedSub \<Rightarrow> bool"
  for name fromIndex rows where
  sub_start: "subscribes name fromIndex rows [] (new_sub rows)"
| sub_publishes: "subscribes name fromIndex rows as b \<Longrightarrow>
    subscribes name fromIndex rows (as @ [Publish e]) (sub_publish name fromIndex e b)"
| sub_reads: "subscribes name fromIndex rows as b \<Longrightarrow> \<not> sub_committed b \<Longrightarrow> unread b \<noteq> [] \<Longrightarrow>
    subscribes name fromIndex rows (as @ [ReadRow]) (sub_read name fromIndex b)"
| sub_commits: "subscribes name fromIndex rows as b \<Longrightarrow> \<not> sub_committed b \<Longrightarrow> unread b = [] \<Longrightarrow>
    subscribes name fromIndex rows (as @ [Commit]) (sub_commit b)"

fun publishes :: "'m sub_action list \<Rightarrow> 'm StreamEvent list" where
  "publishes [] = []"
| "publishes (Publish e # as) = e # publishes as"
| "publishes (_ # as) = publishes as"

text \<open>The events published before and after the commit.\<close>

fun before_commit :: "'m sub_action list \<Rightarrow> 'm sub_action list" where
  "before_commit [] = []"
| "before_commit (Commit # as) = []"
| "before_commit (a # as) = a # before_commit as"

lemma publishes_append [simp]: "publishes (as @ bs) = publishes as @ publishes bs"
  by (induction as rule: publishes.induct) auto

lemma before_commit_append:
  "before_commit (as @ bs) = (if Commit \<in> set as then before_commit as else as @ before_commit bs)"
  by (induction as rule: before_commit.induct) auto

lemma before_commit_id: "Commit \<notin> set as \<Longrightarrow> before_commit as = as"
  by (induction as rule: before_commit.induct) auto

lemma publishes_before_commit:
  "publishes as = publishes (before_commit as) @ drop (length (publishes (before_commit as))) (publishes as)"
  by (induction as rule: before_commit.induct) auto

lemma length_before_commit: "length (publishes (before_commit as)) \<le> length (publishes as)"
  by (subst (2) publishes_before_commit) simp

text \<open>What has been delivered, at every moment of a subscription.\<close>

lemma subscription_state:
  assumes "subscribes name fromIndex rows as b"
  defines "early \<equiv> filter (sub_predicate name fromIndex) (publishes (before_commit as))"
    and "late \<equiv> drop (length (publishes (before_commit as))) (publishes as)"
    and "highest \<equiv> (if rows = [] then -1 else fromIndex)"
  shows "sub_committed b = (Commit \<in> set as) \<and>
    (if Commit \<in> set as
     then unread b = [] \<and> highestIndex b = highest \<and>
       delivered b = map (stream_event name) rows @ early @
         filter (\<lambda>e. sub_predicate name fromIndex e \<and> EventIndex e > highest) late
     else bufferedEvents b = early \<and>
       (\<exists>k. unread b = drop k rows \<and> delivered b = map (stream_event name) (take k rows) \<and>
          highestIndex b = (if take k rows = [] then -1 else fromIndex)))"
  using assms(1) unfolding early_def late_def highest_def
proof (induction rule: subscribes.induct)
  case sub_start
  show ?case
    by (auto simp: new_sub_def intro!: exI [of _ 0])
next
  case (sub_publishes as b e)
  show ?case
  proof (cases "Commit \<in> set as")
    case True
    then show ?thesis
      using sub_publishes.IH length_before_commit [of as]
      by (simp add: sub_publish_def before_commit_append sub_predicate_def)
  next
    case False
    then show ?thesis
      using sub_publishes.IH by (auto simp: sub_publish_def before_commit_append before_commit_id)
  qed
next
  case (sub_reads as b)
  then have nc: "Commit \<notin> set as"
    by simp
  with sub_reads obtain k where k: "unread b = drop k rows" "delivered b = map (stream_event name) (take k rows)"
      "highestIndex b = (if take k rows = [] then -1 else fromIndex)"
      "bufferedEvents b = filter (sub_predicate name fromIndex) (publishes as)"
    by (auto simp: before_commit_id)
  have "k < length rows"
    using k(1) sub_reads.hyps(3) by (metis drop_all not_le)
  then have "unread b = rows ! k # drop (Suc k) rows" and "take (Suc k) rows = take k rows @ [rows ! k]"
    using k(1) by (simp_all add: Cons_nth_drop_Suc take_Suc_conv_app_nth)
  then show ?case
    using sub_reads nc k by (auto simp: sub_read_def before_commit_append before_commit_id intro!: exI [of _ "Suc k"])
next
  case (sub_commits as b)
  then have nc: "Commit \<notin> set as"
    by simp
  with sub_commits.IH obtain k where k: "unread b = drop k rows" "delivered b = map (stream_event name) (take k rows)"
      "highestIndex b = (if take k rows = [] then -1 else fromIndex)"
      "bufferedEvents b = filter (sub_predicate name fromIndex) (publishes as)"
    by (auto simp: before_commit_id)
  then have "take k rows = rows"
    using sub_commits.hyps(3) by simp
  then show ?case
    using sub_commits nc k by (auto simp: sub_commit_def before_commit_append before_commit_id)
qed

text \<open>The calls of \<open>fn\<close> of a subscription that has committed, in order.\<close>

lemma delivered_committed:
  assumes "subscribes name fromIndex rows as b" and "Commit \<in> set as"
  obtains early late where "publishes as = early @ late"
    and "delivered b = map (stream_event name) rows @ filter (sub_predicate name fromIndex) early @
      filter (\<lambda>e. sub_predicate name fromIndex e \<and> EventIndex e > (if rows = [] then -1 else fromIndex)) late"
  using subscription_state [OF assms(1)] assms(2) publishes_before_commit by (metis (no_types, lifting))

section \<open>Properties\<close>

text \<open>A subscription misses no event. \<open>ms\<close> is the actor's journal and \<open>r\<close> the number of events
  stored when the journal is read; the later ones are published while the client is
  subscribed, in any interleaving with the read. Once the subscription has committed and they
  are published, every event from \<open>fromIndex\<close> on has been delivered with its index, and nothing
  that is not stored or published.\<close>

theorem subscription_complete:
  assumes sub: "subscribes name (int k) (drop k (indexes_from 0 (take r ms))) as b"
    and commit: "Commit \<in> set as"
    and pub: "set (drop r (map (stream_event name) (indexes_from 0 ms))) \<subseteq> set (publishes as)"
  shows "set (drop k (map (stream_event name) (indexes_from 0 ms))) \<subseteq> set (delivered b) \<and>
    set (delivered b) \<subseteq> set (drop k (map (stream_event name) (indexes_from 0 ms))) \<union> set (publishes as)"
proof -
  let ?rows = "drop k (indexes_from 0 (take r ms))" and ?all = "map (stream_event name) (indexes_from 0 ms)"
  obtain early late where el: "publishes as = early @ late"
    "delivered b = map (stream_event name) ?rows @ filter (sub_predicate name (int k)) early @
      filter (\<lambda>e. sub_predicate name (int k) e \<and> EventIndex e > (if ?rows = [] then -1 else int k)) late"
    by (rule delivered_committed [OF sub commit])
  have rows: "map (stream_event name) ?rows = drop k (take r ?all)"
    by (simp add: indexes_from_take drop_map take_map)
  have "?all ! i \<in> set (delivered b)" if i: "k \<le> i" "i < length ms" for i
  proof (cases "i < r")
    case True
    then have "?all ! i \<in> set (drop k (take r ?all))"
      using i by (auto simp: in_set_conv_nth intro!: exI [of _ "i - k"])
    then show ?thesis
      using rows el(2) by simp
  next
    case False
    have "?all ! i \<in> set (drop r ?all)"
      using False i by (auto simp: in_set_conv_nth intro!: exI [of _ "i - r"])
    then have "?all ! i \<in> set early \<union> set late"
      using pub el(1) by auto
    moreover have "?rows \<noteq> [] \<Longrightarrow> k < i"
      using False by simp
    ultimately show ?thesis
      using i el(2) by (auto simp: indexes_from_nth stream_event_def sub_predicate_def)
  qed
  then have "set (drop k ?all) \<subseteq> set (delivered b)"
    by (auto simp: in_set_conv_nth)
  moreover have "set (drop k (take r ?all)) \<subseteq> set (drop k ?all)"
    by (simp only: drop_take set_take_subset)
  ultimately show ?thesis
    unfolding el(2) rows using el(1) by auto
qed

text \<open>The child subscription is meant to skip what the journal read has already delivered, but
  it compares with \<open>fromIndex\<close> and does not look at the buffered events at all: an event of the
  read that is published while the client is subscribed, and is not the one at \<open>fromIndex\<close>, is
  delivered at least twice.\<close>

theorem subscription_repeats:
  assumes "subscribes name fromIndex rows as b" and "Commit \<in> set as" and "row \<in> set rows"
    and "fromIndex < fst row" and "stream_event name row \<in> set (publishes as)"
  shows "count_list (delivered b) (stream_event name row) \<ge> 2"
proof -
  let ?e = "stream_event name row"
  obtain early late where el: "publishes as = early @ late"
    "delivered b = map (stream_event name) rows @ filter (sub_predicate name fromIndex) early @
      filter (\<lambda>e. sub_predicate name fromIndex e \<and> EventIndex e > (if rows = [] then -1 else fromIndex)) late"
    by (rule delivered_committed [OF assms(1,2)])
  have "?e \<in> set (map (stream_event name) rows)"
    using assms(3) by simp
  moreover have "?e \<in> set (filter (sub_predicate name fromIndex) early @
      filter (\<lambda>e. sub_predicate name fromIndex e \<and> EventIndex e > (if rows = [] then -1 else fromIndex)) late)"
    using assms(3,4,5) el(1) by (auto simp: sub_predicate_def stream_event_def)
  ultimately have "count_list (map (stream_event name) rows) ?e \<noteq> 0"
    and "count_list (filter (sub_predicate name fromIndex) early @
      filter (\<lambda>e. sub_predicate name fromIndex e \<and> EventIndex e > (if rows = [] then -1 else fromIndex)) late) ?e \<noteq> 0"
    by (simp_all only: count_list_0_iff not_not simp_thms)
  then show ?thesis
    unfolding el(2) by (subst count_list_append) linarith
qed

text \<open>A subscription from index 0 to a journal of two events, the second of which is published
  after the journal is read, and a third event while the client is subscribed.\<close>

definition demo_actions :: "string sub_action list" where
  "demo_actions = [ReadRow, ReadRow, Publish (stream_event ''a'' (1, ''y'')), Commit,
     Publish (stream_event ''a'' (2, ''z''))]"

definition demo_sub :: "string bufferedSub" where
  "demo_sub = sub_publish ''a'' 0 (stream_event ''a'' (2, ''z'')) (sub_commit
     (sub_publish ''a'' 0 (stream_event ''a'' (1, ''y'')) (sub_read ''a'' 0 (sub_read ''a'' 0
       (new_sub [(0, ''x''), (1, ''y'')])))))"

lemma demo_subscribes: "subscribes ''a'' 0 [(0, ''x''), (1, ''y'')] demo_actions demo_sub"
proof -
  note step = subscribes.intros
  let ?s = "\<lambda>as b. subscribes ''a'' 0 [(0, ''x''), (1, ''y'')] as b"
  have 1: "?s ([] @ [ReadRow]) (sub_read ''a'' 0 (new_sub [(0, ''x''), (1, ''y'')]))"
    by (rule step(3), rule step(1)) (simp_all add: new_sub_def)
  have 2: "?s (([] @ [ReadRow]) @ [ReadRow]) (sub_read ''a'' 0 (sub_read ''a'' 0 (new_sub [(0, ''x''), (1, ''y'')])))"
    by (rule step(3) [OF 1]) (simp_all add: new_sub_def sub_read_def)
  note 3 = step(2) [OF 2, of "stream_event ''a'' (1, ''y'')"]
  note 4 = step(4) [OF 3]
  have 5: "?s (((([] @ [ReadRow]) @ [ReadRow]) @ [Publish (stream_event ''a'' (1, ''y''))]) @ [Commit])
      (sub_commit (sub_publish ''a'' 0 (stream_event ''a'' (1, ''y'')) (sub_read ''a'' 0 (sub_read ''a'' 0
        (new_sub [(0, ''x''), (1, ''y'')])))))"
    by (rule 4) (simp_all add: new_sub_def sub_read_def sub_publish_def)
  from step(2) [OF 5, of "stream_event ''a'' (2, ''z'')"] show ?thesis
    by (simp add: demo_actions_def demo_sub_def)
qed

theorem subscription_complete_witness:
  "{stream_event ''a'' (0, ''x''), stream_event ''a'' (1, ''y''), stream_event ''a'' (2, ''z'')} \<subseteq> set (delivered demo_sub)"
  using subscription_complete [of "''a''" 0 2 "[''x'', ''y'', ''z'']" demo_actions demo_sub] demo_subscribes
  by (simp add: indexes_from_def upt_rec demo_actions_def)

theorem subscription_repeats_witness:
  "count_list (delivered demo_sub) (stream_event ''a'' (1, ''y'')) \<ge> 2"
  by (rule subscription_repeats [OF demo_subscribes]) (simp_all add: demo_actions_def)

end
