(* ===== verification/Event_Delivery.thy ===== *)
theory Event_Delivery
  imports Event_Stream Flow_Api "HOL-Library.Sublist"
begin

text \<open>
  The event streams of the node-local service, \<^verbatim>\<open>StreamLifecycle\<close> and \<^verbatim>\<open>StreamEvents\<close> of
  \<^verbatim>\<open>src/actor/api.go\<close>, and of the cluster's lifecycle proxy. The persistence provider calls back into
  a bounded channel without ever blocking; a loop takes the events out of the channel and sends them
  to the client. Producers and loops run concurrently: a run is a list of their steps in the order
  in which they happen.
\<close>

definition eventBufferSize :: nat where
  "eventBufferSize = 1000"

section \<open>Lifecycle events\<close>

text \<open>Only the events of graph actors, whose names have a slash; supervisors persist created and
  completed events too.\<close>

definition isGraphLifecycleEvent :: "Event StreamEvent \<Rightarrow> bool" where
  "isGraphLifecycleEvent event \<longleftrightarrow>
     toGraphLifecycleEvent (EventIndex event) (StreamedEvent event) \<noteq> None \<and> strings_Contains (ActorName event) ''/''"

record lifecycle_stream =
  lcChan :: "GraphLifecycleEvent list"
  lcSent :: "GraphLifecycleEvent list"
  lcResult :: "service_error option option"

definition new_lifecycle_stream :: lifecycle_stream where
  "new_lifecycle_stream = \<lparr>lcChan = [], lcSent = [], lcResult = None\<rparr>"

datatype lifecycle_action =
    LcPublish "Event StreamEvent"
  | LcSend bool
  | LcClientClosed

text \<open>The callback, and one turn of the loop's \<^verbatim>\<open>select\<close>; \<open>None\<close> if the step cannot be taken.\<close>

definition lc_publish :: "Event StreamEvent \<Rightarrow> lifecycle_stream \<Rightarrow> lifecycle_stream" where
  "lc_publish event st =
     (if \<not> isGraphLifecycleEvent event then st
      else if length (lcChan st) < eventBufferSize
      then st\<lparr>lcChan := lcChan st @ [the (toGraphLifecycleEvent (EventIndex event) (StreamedEvent event))]\<rparr>
      else st)"

fun StreamLifecycle_step :: "lifecycle_action \<Rightarrow> lifecycle_stream \<Rightarrow> lifecycle_stream option" where
  "StreamLifecycle_step (LcPublish event) st = (if lcResult st = None then Some (lc_publish event st) else None)"
| "StreamLifecycle_step (LcSend ok) st =
     (case lcChan st of
        [] \<Rightarrow> None
      | e # es \<Rightarrow>
          if lcResult st \<noteq> None then None
          else if ok then Some (st\<lparr>lcChan := es, lcSent := lcSent st @ [e]\<rparr>)
          else Some (st\<lparr>lcChan := es, lcResult := Some (Some SendFailed)\<rparr>))"
| "StreamLifecycle_step LcClientClosed st =
     (if lcResult st = None then Some (st\<lparr>lcResult := Some None\<rparr>) else None)"

fun StreamLifecycle :: "lifecycle_action list \<Rightarrow> lifecycle_stream \<Rightarrow> lifecycle_stream option" where
  "StreamLifecycle [] st = Some st"
| "StreamLifecycle (a # as) st = Option.bind (StreamLifecycle_step a st) (StreamLifecycle as)"

section \<open>The events of one flow\<close>

text \<open>\<open>doneChan\<close> is the channel of capacity one that carries the error to return, \<open>running\<close> says
  whether the goroutine is still in its loop.\<close>

record graph_stream =
  eventsChan :: "GraphStreamEvent list"
  doneChan :: "service_error option option"
  streamSent :: "GraphStreamEvent list"
  running :: bool
  streamResult :: "service_error option option"

definition new_graph_stream :: graph_stream where
  "new_graph_stream = \<lparr>eventsChan = [], doneChan = None, streamSent = [], running = True, streamResult = None\<rparr>"

text \<open>A send to the channel of capacity one that gives up when it is full.\<close>

definition try_done :: "service_error option \<Rightarrow> graph_stream \<Rightarrow> graph_stream" where
  "try_done err st = (if doneChan st = None then st\<lparr>doneChan := Some err\<rparr> else st)"

definition end_loop :: "service_error option \<Rightarrow> graph_stream \<Rightarrow> graph_stream" where
  "end_loop err st = try_done err (st\<lparr>running := False\<rparr>)"

datatype stream_action =
    Deliver int "Event StreamEvent"
  | LoopSend bool
  | LoopDone
  | LoopClientClosed
  | MainReturn

text \<open>The callback of \<^verbatim>\<open>SubscribeActorJournal\<close>; \<open>now\<close> is the clock.\<close>

definition stream_deliver :: "int \<Rightarrow> Event StreamEvent \<Rightarrow> graph_stream \<Rightarrow> graph_stream" where
  "stream_deliver now event st =
     (if length (eventsChan st) < eventBufferSize
      then st\<lparr>eventsChan := eventsChan st @ [ToGraphStreamEvent now (EventIndex event) (StreamedEvent event)]\<rparr>
      else try_done (Some StreamOverflow) st)"

fun StreamEvents_step :: "stream_action \<Rightarrow> graph_stream \<Rightarrow> graph_stream option" where
  "StreamEvents_step (Deliver now event) st =
     (if streamResult st = None then Some (stream_deliver now event st) else None)"
| "StreamEvents_step (LoopSend ok) st =
     (case eventsChan st of
        [] \<Rightarrow> None
      | e # es \<Rightarrow>
          if \<not> running st \<or> streamResult st \<noteq> None then None
          else if ok then Some (st\<lparr>eventsChan := es, streamSent := streamSent st @ [e]\<rparr>)
          else Some (end_loop (Some SendFailed) (st\<lparr>eventsChan := es\<rparr>)))"
| "StreamEvents_step LoopDone st =
     (case doneChan st of
        None \<Rightarrow> None
      | Some err \<Rightarrow>
          if \<not> running st \<or> streamResult st \<noteq> None then None
          else Some (end_loop err (st\<lparr>doneChan := None\<rparr>)))"
| "StreamEvents_step LoopClientClosed st =
     (if \<not> running st \<or> streamResult st \<noteq> None then None else Some (end_loop None st))"
| "StreamEvents_step MainReturn st =
     (case doneChan st of
        None \<Rightarrow> None
      | Some err \<Rightarrow>
          if streamResult st \<noteq> None then None
          else Some (st\<lparr>doneChan := None, streamResult := Some err\<rparr>))"

fun StreamEvents :: "stream_action list \<Rightarrow> graph_stream \<Rightarrow> graph_stream option" where
  "StreamEvents [] st = Some st"
| "StreamEvents (a # as) st = Option.bind (StreamEvents_step a st) (StreamEvents as)"

section \<open>Queries\<close>

text \<open>\<open>read\<close> is what the provider reads of an actor's journal from an index on.\<close>

definition QueryGraphEvents ::
  "actorManager \<Rightarrow> (string \<Rightarrow> int \<Rightarrow> (int \<times> 'm) list) \<Rightarrow> flow_id \<Rightarrow> int \<Rightarrow> ('m StreamEvent \<Rightarrow> bool) \<Rightarrow>
   (service_error, 'm StreamEvent list) outcome" where
  "QueryGraphEvents m read flowID fromIndex p =
     bind_outcome (graphActorPath m flowID) (\<lambda>path. Returned (QueryActorJournal path p (read path fromIndex)))"

definition SubscribeGraphEvents ::
  "actorManager \<Rightarrow> (string \<Rightarrow> int \<Rightarrow> (int \<times> 'm) list) \<Rightarrow> flow_id \<Rightarrow> int \<Rightarrow> (service_error, string \<times> 'm bufferedSub) outcome" where
  "SubscribeGraphEvents m read flowID fromIndex =
     bind_outcome (graphActorPath m flowID) (\<lambda>path. Returned (path, new_sub (read path fromIndex)))"

text \<open>What the provider called back with.\<close>

fun deliveries :: "stream_action list \<Rightarrow> GraphStreamEvent list" where
  "deliveries [] = []"
| "deliveries (Deliver now event # as) =
     ToGraphStreamEvent now (EventIndex event) (StreamedEvent event) # deliveries as"
| "deliveries (_ # as) = deliveries as"

definition overflowed :: "graph_stream \<Rightarrow> bool" where
  "overflowed st \<longleftrightarrow> doneChan st = Some (Some StreamOverflow) \<or> streamResult st = Some (Some StreamOverflow)"

text \<open>The invariant of a stream after the events \<open>es\<close> have been delivered.\<close>

definition stream_inv :: "GraphStreamEvent list \<Rightarrow> graph_stream \<Rightarrow> bool" where
  "stream_inv es st \<longleftrightarrow>
     subseq (streamSent st @ eventsChan st) es \<and> length (eventsChan st) \<le> eventBufferSize \<and>
     (overflowed st \<or>
        prefix (streamSent st) es \<and>
        (running st \<longrightarrow> doneChan st = None \<and> streamResult st = None \<and> streamSent st @ eventsChan st = es))"

lemma subseq_snoc_drop: "subseq (xs @ e # ys) es \<Longrightarrow> subseq (xs @ ys) es"
  by (meson subseq_append_iff subseq_Cons' subseq_order.order_trans list_emb_append_mono subseq_order.order_refl)

lemma deliver_inv:
  assumes "stream_inv es st" and "streamResult st = None"
  shows "stream_inv (es @ [ToGraphStreamEvent now (EventIndex event) (StreamedEvent event)]) (stream_deliver now event st)"
  using assms
  by (auto simp: stream_inv_def stream_deliver_def try_done_def overflowed_def subseq_append
      simp flip: append_assoc intro: list_emb_append_mono subseq_rev_drop_many)

lemma loop_inv:
  assumes "stream_inv es st" and "StreamEvents_step a st = Some st'" and "\<And>now event. a \<noteq> Deliver now event"
  shows "stream_inv es st'"
  using assms
  by (cases a)
     (auto simp: stream_inv_def end_loop_def try_done_def overflowed_def dest: subseq_snoc_drop
      intro: subseq_snoc_drop [OF subseq_order.order_refl] split: list.splits if_splits option.splits)

lemma stream_run_inv:
  assumes "stream_inv es st" and "StreamEvents as st = Some st'"
  shows "stream_inv (es @ deliveries as) st'"
  using assms
proof (induction as arbitrary: es st)
  case (Cons a as)
  then obtain st1 where st1: "StreamEvents_step a st = Some st1" "StreamEvents as st1 = Some st'"
    by (auto simp: bind_eq_Some_conv)
  show ?case
  proof (cases a)
    case (Deliver now event)
    then have "stream_inv (es @ [ToGraphStreamEvent now (EventIndex event) (StreamedEvent event)]) st1"
      using st1(1) deliver_inv [OF Cons.prems(1)] by (auto split: if_splits)
    then show ?thesis
      using Cons.IH [OF _ st1(2)] Deliver by fastforce
  qed (use Cons.IH [OF loop_inv [OF Cons.prems(1) st1(1)] st1(2)] in auto)
qed simp

text \<open>Lifecycle events are dropped silently when the channel is full.\<close>

fun lifecycle_published :: "lifecycle_action list \<Rightarrow> GraphLifecycleEvent list" where
  "lifecycle_published [] = []"
| "lifecycle_published (LcPublish event # as) =
     (if isGraphLifecycleEvent event
      then the (toGraphLifecycleEvent (EventIndex event) (StreamedEvent event)) # lifecycle_published as
      else lifecycle_published as)"
| "lifecycle_published (_ # as) = lifecycle_published as"

definition lc_inv :: "GraphLifecycleEvent list \<Rightarrow> lifecycle_stream \<Rightarrow> bool" where
  "lc_inv es st \<longleftrightarrow>
     subseq (lcSent st @ lcChan st) es \<and>
     (length es \<le> eventBufferSize \<longrightarrow> prefix (lcSent st) es \<and> (lcResult st = None \<longrightarrow> lcSent st @ lcChan st = es))"

lemma lc_publish_inv:
  assumes "lc_inv es st" and "lcResult st = None"
  shows "lc_inv (es @ lifecycle_published [LcPublish event]) (lc_publish event st)"
proof -
  have "length (lcChan st) \<le> length es"
    using assms(1) by (auto simp: lc_inv_def dest: list_emb_length)
  then show ?thesis
    using assms by (auto simp: lc_inv_def lc_publish_def simp flip: append_assoc
        intro: list_emb_append_mono subseq_rev_drop_many)
qed

lemma lc_loop_inv:
  assumes "lc_inv es st" and "StreamLifecycle_step a st = Some st'" and "\<And>event. a \<noteq> LcPublish event"
  shows "lc_inv es st'"
  using assms
  by (cases a)
     (auto simp: lc_inv_def dest: subseq_snoc_drop
      intro: subseq_snoc_drop [OF subseq_order.order_refl] split: list.splits if_splits)

lemma lc_run_inv:
  assumes "lc_inv es st" and "StreamLifecycle as st = Some st'"
  shows "lc_inv (es @ lifecycle_published as) st'"
  using assms
proof (induction as arbitrary: es st)
  case (Cons a as)
  then obtain st1 where st1: "StreamLifecycle_step a st = Some st1" "StreamLifecycle as st1 = Some st'"
    by (auto simp: bind_eq_Some_conv)
  show ?case
  proof (cases a)
    case (LcPublish event)
    then have "lc_inv (es @ lifecycle_published [LcPublish event]) st1"
      using st1(1) lc_publish_inv [OF Cons.prems(1), of event] by (simp split: if_split_asm)
    then show ?thesis
      using Cons.IH [OF _ st1(2)] LcPublish by (fastforce split: if_splits)
  qed (use Cons.IH [OF lc_loop_inv [OF Cons.prems(1) st1(1)] st1(2)] in auto)
qed simp

section \<open>Properties\<close>

text \<open>C36: A stream of a flow's events never skips an event without an error. However the provider's
  callbacks, the loop and the client interleave, the client is sent a subsequence of the delivered
  events in their order, the channel never holds more than \<open>eventBufferSize\<close> of them, and unless the stream ends
  with the overflow error, what the client was sent is a prefix of what was delivered.\<close>

theorem stream_has_no_silent_gap:
  assumes "StreamEvents as new_graph_stream = Some st"
  shows "subseq (streamSent st) (deliveries as) \<and> length (eventsChan st) \<le> eventBufferSize \<and>
    (overflowed st \<or> prefix (streamSent st) (deliveries as))"
proof -
  have "stream_inv [] new_graph_stream"
    by (simp add: stream_inv_def new_graph_stream_def)
  from stream_run_inv [OF this assms] show ?thesis
    by (auto simp: stream_inv_def dest: list_emb_append2 [of _ "[]"] elim: subseq_order.order_trans [rotated]
        intro: list_emb_append2)
qed

text \<open>A lifecycle stream sends created and completed events of flows only, in the order in which
  they were published, and the first \<open>eventBufferSize\<close> of them are never dropped.\<close>

theorem lifecycle_stream_in_order:
  assumes "StreamLifecycle as new_lifecycle_stream = Some st"
  shows "subseq (lcSent st) (lifecycle_published as) \<and>
    (length (lifecycle_published as) \<le> eventBufferSize \<longrightarrow>
       prefix (lcSent st) (lifecycle_published as) \<and>
       (lcResult st = None \<longrightarrow> lcSent st @ lcChan st = lifecycle_published as))"
proof -
  have "lc_inv [] new_lifecycle_stream"
    by (simp add: lc_inv_def new_lifecycle_stream_def)
  from lc_run_inv [OF this assms] show ?thesis
    by (auto simp: lc_inv_def elim: subseq_order.order_trans [rotated])
qed

text \<open>Two events of a flow; the second is not sent any more, since the client closes the stream.\<close>

definition demo_created :: "Event StreamEvent" where
  "demo_created = stream_event ''supervisor-0/flow'' (0, GraphCreatedEvent ''flow'' ''fn'' None)"

definition demo_done :: "Event StreamEvent" where
  "demo_done = stream_event ''supervisor-0/flow'' (1, GraphCompletedEvent ''flow'' ''fn'' None)"

definition demo_stream_actions :: "stream_action list" where
  "demo_stream_actions = [Deliver 0 demo_created, LoopSend True, Deliver 1 demo_done, LoopClientClosed, MainReturn]"

theorem stream_has_no_silent_gap_witness:
  "\<exists>st. StreamEvents demo_stream_actions new_graph_stream = Some st \<and> length (streamSent st) = 1 \<and>
     prefix (streamSent st) (deliveries demo_stream_actions)"
proof -
  define st where "st = the (StreamEvents demo_stream_actions new_graph_stream)"
  have "StreamEvents demo_stream_actions new_graph_stream = Some st" and "length (streamSent st) = 1"
    and "streamResult st = Some None" and "doneChan st = None"
    by (simp_all add: st_def demo_stream_actions_def new_graph_stream_def stream_deliver_def eventBufferSize_def
        end_loop_def try_done_def)
  with stream_has_no_silent_gap [OF this(1)] show ?thesis
    by (auto simp: overflowed_def)
qed

theorem lifecycle_stream_in_order_witness:
  "\<exists>st. StreamLifecycle [LcPublish demo_created, LcPublish demo_done, LcSend True] new_lifecycle_stream = Some st \<and>
     lcSent st @ lcChan st = lifecycle_published [LcPublish demo_created, LcPublish demo_done, LcSend True]"
proof -
  let ?as = "[LcPublish demo_created, LcPublish demo_done, LcSend True]"
  define st where "st = the (StreamLifecycle ?as new_lifecycle_stream)"
  have l: "isGraphLifecycleEvent demo_created" "isGraphLifecycleEvent demo_done"
    by (simp_all add: isGraphLifecycleEvent_def demo_created_def demo_done_def stream_event_def strings_Contains_char)
  have "StreamLifecycle ?as new_lifecycle_stream = Some st" and "lcResult st = None"
    by (simp_all add: st_def new_lifecycle_stream_def lc_publish_def eventBufferSize_def l)
  with lifecycle_stream_in_order [OF this(1)] show ?thesis
    by (auto simp: eventBufferSize_def l)
qed

end
