(* ===== verification/Cluster.thy ===== *)
theory Cluster
  imports Flow_Api
begin

text \<open>
  The cluster of \<^verbatim>\<open>src/cluster\<close>: which node owns which shard (\<^verbatim>\<open>cluster.go\<close>), and the proxy that
  sends every request to the node that owns its flow (\<^verbatim>\<open>cluster_proxy.go\<close>). A connection to a
  node (\<^verbatim>\<open>grpc.Dial\<close>) and the calls over it are arguments; \<open>'c\<close> is the type of clients.
\<close>

record Settings =
  NodeCount :: int
  NodeID :: int
  NodePrefix :: string
  NodePort :: int

definition nodeName :: "Settings \<Rightarrow> int \<Rightarrow> string" where
  "nodeName s index = NodePrefix s @ itoa_int index"

definition nodeAddress :: "Settings \<Rightarrow> int \<Rightarrow> string" where
  "nodeAddress s i =
     (if i = NodeID s then ''localhost:'' @ itoa_int (NodePort s)
      else nodeName s i @ '':'' @ itoa_int (NodePort s))"

record 'c Manager =
  settings :: Settings
  extractor :: fixedSizeShardExtractor
  reverseProxies :: "(string \<times> 'c) list"

section \<open>The manager\<close>

fun dial_nodes ::
  "(string \<Rightarrow> 'c option) \<Rightarrow> Settings \<Rightarrow> int list \<Rightarrow> (string \<times> 'c) list \<Rightarrow> (string \<times> 'c) list option" where
  "dial_nodes dial s [] proxies = Some proxies"
| "dial_nodes dial s (i # is) proxies =
     (case dial (nodeAddress s i) of
        None \<Rightarrow> None
      | Some conn \<Rightarrow> dial_nodes dial s is (AList.update (nodeName s i) conn proxies))"

definition NewManager ::
  "(string \<Rightarrow> 'c option) \<Rightarrow> Settings \<Rightarrow> fixedSizeShardExtractor \<Rightarrow> (unit, 'c Manager) outcome" where
  "NewManager dial s ex =
     (case dial_nodes dial s [0..NodeCount s - 1] [] of
        None \<Rightarrow> Panicked (PanicMessage ''dial'')
      | Some proxies \<Rightarrow> Returned \<lparr>settings = s, extractor = ex, reverseProxies = proxies\<rparr>)"

definition LocalShards :: "'c Manager \<Rightarrow> (unit, int list) outcome" where
  "LocalShards m =
     (if ShardCount (extractor m) > 0 \<and> NodeCount (settings m) = 0 then Panicked DivideByZero
      else Returned (filter (\<lambda>shard. go_rem shard (NodeCount (settings m)) = NodeID (settings m))
                      [0..ShardCount (extractor m) - 1]))"

definition resolveNode :: "'c Manager \<Rightarrow> string \<Rightarrow> (uuid_error, int) outcome" where
  "resolveNode m flowID =
     bind_outcome (ShardID (extractor m) flowID)
       (\<lambda>shard. if NodeCount (settings m) = 0 then Panicked DivideByZero
                else Returned (go_rem shard (NodeCount (settings m))))"

text \<open>A node that has no connection has a nil client.\<close>

definition GetClient :: "'c Manager \<Rightarrow> string \<Rightarrow> (uuid_error, 'c option) outcome" where
  "GetClient m flowID =
     bind_outcome (resolveNode m flowID)
       (\<lambda>idx. Returned (map_of (reverseProxies m) (nodeName (settings m) idx)))"

definition GetClients :: "string list \<Rightarrow> 'c Manager \<Rightarrow> 'c list" where
  "GetClients wish m =
     map (\<lambda>k. the (map_of (reverseProxies m) k)) (go_range wish (map fst (reverseProxies m)))"

text \<open>What \<^verbatim>\<open>shouldForward\<close> uses of a request: its path, its query and its path parameters.\<close>

record gin_Context =
  URLPath :: string
  Query :: "string \<Rightarrow> string"
  Param :: "string \<Rightarrow> string"

definition extractFlowID :: "gin_Context \<Rightarrow> string" where
  "extractFlowID c = (if URLPath c = ''/graph'' then Query c ''FlowId'' else Param c ''FlowId'')"

definition shouldForward :: "'c Manager \<Rightarrow> gin_Context \<Rightarrow> (unit, bool \<times> string) outcome" where
  "shouldForward m c =
     (let flowID = extractFlowID c in
      if flowID = '''' then Returned (False, '''')
      else case resolveNode m flowID of
             Failed err \<Rightarrow> Returned (False, '''')
           | Panicked p \<Rightarrow> Panicked p
           | Returned nodeIndex \<Rightarrow>
               if nodeIndex = NodeID (settings m) then Returned (False, nodeName (settings m) nodeIndex)
               else Returned (True, nodeName (settings m) nodeIndex))"

section \<open>The proxy\<close>

text \<open>\<open>call\<close> makes a call over a connection; calling a nil client panics.\<close>

type_synonym 'c call = "'c \<Rightarrow> Command \<Rightarrow> (service_error, Response) outcome"

definition with_client ::
  "'c call \<Rightarrow> 'c Manager \<Rightarrow> Command \<Rightarrow> (service_error, Response) outcome" where
  "with_client call m r =
     (case GetClient m (CmdFlowId r) of
        Failed err \<Rightarrow> Failed (BadFlowID err)
      | Panicked p \<Rightarrow> Panicked p
      | Returned None \<Rightarrow> Panicked NilDereference
      | Returned (Some client) \<Rightarrow> call client r)"

text \<open>\<open>random\<close> is what the random source gives for the new flow's identifier.\<close>

definition proxy_CreateGraph where
  "proxy_CreateGraph random call m fn =
     (case uuid_NewRandom random of
        Inl err \<Rightarrow> Failed (BadFlowID err)
      | Inr flowID \<Rightarrow> with_client call m (CreateGraphRequest (uuid_String flowID) fn))"

definition proxy_AddStage where
  "proxy_AddStage call m f op cl deps loc caller =
     with_client call m (AddStageRequest f op cl deps loc caller)"

definition proxy_AddValueStage where
  "proxy_AddValueStage call m f v loc caller =
     with_client call m (AddCompletedValueStageRequest f v loc caller)"

definition proxy_AddInvokeFunction where
  "proxy_AddInvokeFunction call m f fn arg loc caller =
     with_client call m (AddInvokeFunctionStageRequest f fn arg loc caller)"

definition proxy_AddDelay where
  "proxy_AddDelay call m f ms loc caller = with_client call m (AddDelayStageRequest f ms loc caller)"

definition proxy_AwaitStageResult where
  "proxy_AwaitStageResult call m f sid ms = with_client call m (AwaitStageResultRequest f sid ms)"

definition proxy_CompleteStageExternally where
  "proxy_CompleteStageExternally call m f sid v loc caller =
     with_client call m (CompleteStageExternallyRequest f sid v loc caller)"

definition proxy_Commit where
  "proxy_Commit call m f = with_client call m (CommitGraphRequest f)"

definition proxy_GetGraphState where
  "proxy_GetGraphState call m f = with_client call m (GetGraphStateRequest f)"

text \<open>\<^verbatim>\<open>StreamEvents\<close>: \<open>received\<close> is what the remote stream gives, up to its error, and \<open>send_ok\<close> says
  which of the sends to the client succeed. The events sent, and the error it returns with.\<close>

fun pass_through :: "'e list \<Rightarrow> service_error \<Rightarrow> bool list \<Rightarrow> 'e list \<times> service_error" where
  "pass_through [] err oks = ([], err)"
| "pass_through (e # es) err [] = ([], SendFailed)"
| "pass_through (e # es) err (ok # oks) =
     (if ok then (case pass_through es err oks of (sent, r) \<Rightarrow> (e # sent, r)) else ([], SendFailed))"

definition proxy_StreamEvents ::
  "('c \<Rightarrow> flow_id \<Rightarrow> 'e list \<times> service_error) \<Rightarrow> 'c Manager \<Rightarrow> flow_id \<Rightarrow> bool list \<Rightarrow>
   (service_error, 'e list \<times> service_error) outcome" where
  "proxy_StreamEvents open m f oks =
     (case GetClient m f of
        Failed err \<Rightarrow> Failed (BadFlowID err)
      | Panicked p \<Rightarrow> Panicked p
      | Returned None \<Rightarrow> Panicked NilDereference
      | Returned (Some client) \<Rightarrow>
          (case open client f of (received, err) \<Rightarrow> Returned (pass_through received err oks)))"

section \<open>Every shard has one owner\<close>

lemma itoa_int_inj: "0 \<le> i \<Longrightarrow> 0 \<le> j \<Longrightarrow> itoa_int i = itoa_int j \<longleftrightarrow> i = j"
  by (simp add: itoa_int_def itoa_inj eq_nat_nat_iff)

lemma supervisorName_inj: "0 \<le> i \<Longrightarrow> 0 \<le> j \<Longrightarrow> supervisorName i = supervisorName j \<longleftrightarrow> i = j"
  by (simp add: supervisorName_def itoa_int_inj)

lemma local_shards:
  assumes "0 < NodeCount (settings m)"
  shows "\<exists>shards. LocalShards (m\<lparr>settings := (settings m)\<lparr>NodeID := j\<rparr>\<rparr>) = Returned shards \<and> distinct shards \<and>
    (\<forall>s. s \<in> set shards \<longleftrightarrow> 0 \<le> s \<and> s < ShardCount (extractor m) \<and> s mod NodeCount (settings m) = j)"
proof (intro exI conjI allI)
  let ?shards = "filter (\<lambda>shard. go_rem shard (NodeCount (settings m)) = j) [0..ShardCount (extractor m) - 1]"
  show "LocalShards (m\<lparr>settings := (settings m)\<lparr>NodeID := j\<rparr>\<rparr>) = Returned ?shards"
    using assms by (simp add: LocalShards_def)
  show "distinct ?shards"
    by simp
  show "s \<in> set ?shards \<longleftrightarrow> 0 \<le> s \<and> s < ShardCount (extractor m) \<and> s mod NodeCount (settings m) = j" for s
    using assms go_rem_nonneg [of s "NodeCount (settings m)"] by auto
qed

section \<open>The supervisors of a node\<close>

lemma spawn_supervisors_ok:
  assumes "distinct shards" and "\<forall>s \<in> set shards. 0 \<le> s"
    and "\<forall>s \<in> set shards. supervisorName s \<notin> set names"
  shows "\<exists>names'. spawn_supervisors shards names sups =
    Some (fold (\<lambda>s. AList.update s (supervisorName s)) shards sups, names')"
  using assms
proof (induction shards arbitrary: names sups)
  case (Cons s shards)
  then have "supervisorName s' \<notin> set (supervisorName s # names)" if "s' \<in> set shards" for s'
    using that by (auto simp: supervisorName_inj)
  then show ?case
    using Cons by (auto simp: SpawnNamed_def)
qed simp

lemma map_of_fold_update:
  "map_of (fold (\<lambda>s. AList.update s (f s)) ks al) k = (if k \<in> set ks then Some (f k) else map_of al k)"
  by (induction ks arbitrary: al) (auto simp: update_conv)

lemma NewGraphManager_ok:
  assumes "distinct shards" and "\<forall>s \<in> set shards. 0 \<le> s" and "parse url = Some path"
  obtains am names b where "NewGraphManager parse url ex shards [] = Returned (am, names, b)"
    and "\<And>s. map_of (shardSupervisors am) s = (if s \<in> set shards then Some (supervisorName s) else None)"
    and "shardExtractor am = ex"
proof -
  have "supervisorName s \<noteq> ''executor''" for s
    by (simp add: supervisorName_def)
  then obtain names where "spawn_supervisors shards [''executor''] [] =
      Some (fold (\<lambda>s. AList.update s (supervisorName s)) shards [], names)"
    using spawn_supervisors_ok [OF assms(1,2), of "[''executor'']" "[]"] by auto
  then show ?thesis
    using assms(3) by (intro that) (auto simp: NewGraphManager_def SpawnNamed_def map_of_fold_update)
qed

section \<open>The connections of a node\<close>

lemma nodeName_inj: "0 \<le> i \<Longrightarrow> 0 \<le> j \<Longrightarrow> nodeName s i = nodeName s j \<longleftrightarrow> i = j"
  by (simp add: nodeName_def itoa_int_inj)

lemma dial_nodes_lookup:
  assumes "dial_nodes dial s is proxies = Some ps" and "\<forall>i \<in> set is. 0 \<le> i" and "0 \<le> k"
  shows "map_of ps (nodeName s k) =
    (if k \<in> set is then dial (nodeAddress s k) else map_of proxies (nodeName s k)) \<and>
    (k \<in> set is \<longrightarrow> dial (nodeAddress s k) \<noteq> None)"
  using assms
  by (induction "is" arbitrary: proxies) (auto simp: update_conv nodeName_inj split: option.splits)

section \<open>Properties\<close>

text \<open>C35: Shards are dealt out completely and without overlap: of the nodes of a cluster exactly one has a
  given shard among its local shards.\<close>

theorem shard_has_one_owner:
  assumes "0 < NodeCount (settings m)" and "0 \<le> s" and "s < ShardCount (extractor m)"
  shows "\<exists>!i. 0 \<le> i \<and> i < NodeCount (settings m) \<and>
    (case LocalShards (m\<lparr>settings := (settings m)\<lparr>NodeID := i\<rparr>\<rparr>) of
       Returned shards \<Rightarrow> s \<in> set shards | _ \<Rightarrow> False)"
proof -
  have "(case LocalShards (m\<lparr>settings := (settings m)\<lparr>NodeID := i\<rparr>\<rparr>) of
      Returned shards \<Rightarrow> s \<in> set shards | _ \<Rightarrow> False) \<longleftrightarrow> s mod NodeCount (settings m) = i" for i
  proof -
    obtain shards where "LocalShards (m\<lparr>settings := (settings m)\<lparr>NodeID := i\<rparr>\<rparr>) = Returned shards"
      "s \<in> set shards \<longleftrightarrow> s mod NodeCount (settings m) = i"
      using local_shards [OF assms(1), of i] assms(2,3) by blast
    then show ?thesis
      by simp
  qed
  then show ?thesis
    using assms(1) by auto
qed

text \<open>A cluster of three nodes with seven shards, seen from node 0, and a flow of shard 5.\<close>

definition demo_cluster :: "nat Manager" where
  "demo_cluster =
     \<lparr>settings = \<lparr>NodeCount = 3, NodeID = 0, NodePrefix = ''node-'', NodePort = 80\<rparr>,
      extractor = NewFixedSizeExtractor 7, reverseProxies = [(''node-0'', 0), (''node-1'', 1), (''node-2'', 2)]\<rparr>"

definition demo_flow :: flow_id where
  "demo_flow = ''00000000-0000-0000-0000-000000000005''"

theorem shard_has_one_owner_witness:
  "\<exists>!i. 0 \<le> i \<and> i < 3 \<and>
    (case LocalShards (demo_cluster\<lparr>settings := (settings demo_cluster)\<lparr>NodeID := i\<rparr>\<rparr>) of
       Returned shards \<Rightarrow> 5 \<in> set shards | _ \<Rightarrow> False)"
  using shard_has_one_owner [of demo_cluster 5]
  by (simp add: demo_cluster_def ShardCount_def NewFixedSizeExtractor_def)

lemma routed_home:
  assumes n: "0 < n" "n < 2 ^ 63" and N: "0 < NodeCount (settings m)"
    and ex: "extractor m = NewFixedSizeExtractor n" and flow: "ShardID (extractor m) (CmdFlowId cmd) = Returned s"
    and url: "parse url = Some path" and j: "0 \<le> j" "j < NodeCount (settings m)"
  shows "\<exists>shards am names b. LocalShards (m\<lparr>settings := (settings m)\<lparr>NodeID := j\<rparr>\<rparr>) = Returned shards \<and>
    NewGraphManager parse url (extractor m) shards [] = Returned (am, names, b) \<and>
    resolveNode m (CmdFlowId cmd) = Returned (s mod NodeCount (settings m)) \<and>
    lookupSupervisor am (Some cmd) =
      (if j = s mod NodeCount (settings m) then Returned (supervisorName s)
       else Failed (ServiceError (NewGraphNotFoundError (CmdFlowId cmd))))"
proof -
  note ext = fixed_size_extractor [OF n]
  have s: "0 \<le> s" "s < ShardCount (extractor m)"
    using shard_extractor.shard_in_range [OF ext] flow ex by auto
  let ?m = "m\<lparr>settings := (settings m)\<lparr>NodeID := j\<rparr>\<rparr>"
  obtain shards where shards: "LocalShards ?m = Returned shards" "distinct shards"
    "\<And>s. s \<in> set shards \<longleftrightarrow> 0 \<le> s \<and> s < ShardCount (extractor m) \<and> s mod NodeCount (settings m) = j"
    using local_shards [OF N, of j] by blast
  moreover have "\<forall>s \<in> set shards. 0 \<le> s"
    using shards(3) by blast
  ultimately obtain am names b where am: "NewGraphManager parse url (extractor m) shards [] = Returned (am, names, b)"
    "\<And>s. map_of (shardSupervisors am) s = (if s \<in> set shards then Some (supervisorName s) else None)"
    "shardExtractor am = extractor m"
    using NewGraphManager_ok [of shards parse url path "extractor m"] url by blast
  have "resolveNode m (CmdFlowId cmd) = Returned (s mod NodeCount (settings m))"
    using flow N s by (simp add: resolveNode_def go_rem_nonneg)
  moreover have "s \<in> set shards \<longleftrightarrow> j = s mod NodeCount (settings m)"
    using shards(3) s by auto
  ultimately show ?thesis
    using shards(1) am flow by (auto simp: lookupSupervisor_def)
qed

text \<open>The proxy sends a request for a flow over the connection that was dialled to the address of
  the node that owns the flow's shard, and to no other; it never calls a nil client.\<close>

theorem proxy_reaches_owner:
  assumes n: "0 < n" "n < 2 ^ 63" and N: "0 < NodeCount st"
    and m: "NewManager dial st (NewFixedSizeExtractor n) = Returned m"
    and flow: "ShardID (NewFixedSizeExtractor n) (CmdFlowId cmd) = Returned s"
  shows "\<exists>client. dial (nodeAddress st (s mod NodeCount st)) = Some client \<and> with_client call m cmd = call client cmd"
proof -
  let ?i = "s mod NodeCount st"
  obtain ps where ps: "dial_nodes dial st [0..NodeCount st - 1] [] = Some ps"
    and m': "m = \<lparr>settings = st, extractor = NewFixedSizeExtractor n, reverseProxies = ps\<rparr>"
    using m by (auto simp: NewManager_def split: option.splits)
  have i: "go_rem s (NodeCount st) = ?i" "0 \<le> ?i" "?i < NodeCount st"
    using shard_extractor.owner_in_range [OF fixed_size_extractor [OF n] N flow] by auto
  then have "map_of ps (nodeName st ?i) = dial (nodeAddress st ?i) \<and> dial (nodeAddress st ?i) \<noteq> None"
    using dial_nodes_lookup [OF ps, of ?i] by simp
  then show ?thesis
    using flow N i(1) by (auto simp: m' with_client_def GetClient_def resolveNode_def)
qed

theorem proxy_reaches_owner_witness:
  "\<exists>m. NewManager Some (settings demo_cluster) (NewFixedSizeExtractor 7) = Returned m \<and>
     with_client (\<lambda>address r. Failed (ServiceError (PlainError address))) m (CommitGraphRequest demo_flow) =
       Failed (ServiceError (PlainError ''node-2:80''))"
proof -
  let ?st = "settings demo_cluster"
  obtain ps where "dial_nodes Some ?st [0..NodeCount ?st - 1] [] = Some ps"
  proof -
    have "dial_nodes Some ?st is ps \<noteq> None" for "is" ps
      by (induction "is" arbitrary: ps) simp_all
    then show ?thesis
      using that by blast
  qed
  then obtain m where "NewManager Some ?st (NewFixedSizeExtractor 7) = Returned m"
    by (simp add: NewManager_def)
  moreover have "nodeAddress ?st 2 = ''node-2:80''" and "NodeCount ?st = 3"
    by code_simp+
  moreover have "ShardID (NewFixedSizeExtractor 7) (CmdFlowId (CommitGraphRequest demo_flow)) = Returned 5"
    by code_simp
  ultimately show ?thesis
    using proxy_reaches_owner [of 7 ?st Some m "CommitGraphRequest demo_flow" 5
        "\<lambda>address r. Failed (ServiceError (PlainError address))"]
    by auto
qed

end
