(* ===== verification/Service_Properties.thy ===== *)
theory Service_Properties
  imports Actor_Replies
begin

text \<open>
  The node-local service together with the graph actor it talks to.
\<close>

section \<open>Asking a graph actor\<close>

text \<open>The answer within \<open>timeout\<close> to a request that the supervisor has passed to the flow's actor. The actor is in state
  \<open>s\<close> when it takes the request from its mailbox, and has handled it \<open>delay\<close> after it was sent; the answer is the handler's first new
  response. A request that awaits a stage is answered later, by the continuation that the stage's future runs
  when it is told the result: \<open>later d\<close> is the actor as it was when it processed the last continuation within \<open>d\<close>. An actor that
  panics or does not respond in time lets the request time out.\<close>

definition ask_actor :: "graphActor \<Rightarrow> int \<Rightarrow> (int \<Rightarrow> graphActor) \<Rightarrow> ask" where
  "ask_actor s delay later pid cmd timeout =
     (if timeout < delay then FutureTimeout
      else case receiveCommand cmd s of
        Done t \<Rightarrow>
          (case drop (length (replies s)) (replies t) of
             r # rs \<Rightarrow> FutureValue r
           | [] \<Rightarrow>
               (case cmd of
                  AwaitStageResultRequest f sid ms \<Rightarrow>
                    (case Option.bind (GetStage sid (later timeout)) result of
                       Some r \<Rightarrow> FutureValue (AwaitStageResultResponse f sid r)
                     | None \<Rightarrow> FutureTimeout)
                | _ \<Rightarrow> FutureTimeout))
      | _ \<Rightarrow> FutureTimeout)"

lemma ask_actor_expected:
  assumes "reachable s" and "is_request cmd" and "ask_actor s delay later pid cmd timeout = FutureValue r"
  shows "expected cmd r \<or> refusal r"
proof (cases "receiveCommand cmd s")
  case (Done t)
  then obtain r' where "replies t = replies s @ [r']" "expected cmd r' \<or> refusal r'"
    using command_answers [OF reachable_inv [OF assms(1)] assms(2)] by (auto simp: answering_def answers_def)
  then show ?thesis
    using assms(3) Done by (simp add: ask_actor_def split: if_splits)
qed (use assms(3) in \<open>simp_all add: ask_actor_def split: if_splits\<close>)

lemma await_handled:
  assumes "hasGraph s"
  shows "receiveCommand (AwaitStageResultRequest f sid ms) s =
    (if GetStage sid s = None then Done (send (Respond (ErrorResponse (NewStageNotFoundError f sid))) s)
     else Done (send (AwaitFuture f sid) s))"
  using assms
  by (auto simp: receiveCommand_def validateCmd_def process_cmd_def ValidateCommand_def validate_by_type_def validateStages_def)

lemma ask_actor_await:
  assumes "hasGraph s"
  shows "ask_actor s delay later pid (AwaitStageResultRequest f sid ms) timeout =
    (if timeout < delay then FutureTimeout
     else if GetStage sid s = None then FutureValue (ErrorResponse (NewStageNotFoundError f sid))
     else case Option.bind (GetStage sid (later timeout)) result of
       Some r \<Rightarrow> FutureValue (AwaitStageResultResponse f sid r)
     | None \<Rightarrow> FutureTimeout)"
  using assms by (simp add: ask_actor_def await_handled)

lemma ask_actor_await_expected:
  assumes "ask_actor s delay later pid (AwaitStageResultRequest f sid ms) timeout = FutureValue r"
  shows "is_AwaitStageResultResponse r \<or> is_ErrorResponse r"
proof (cases "hasGraph s")
  case True
  then show ?thesis
    using assms by (auto simp: ask_actor_await split: if_splits option.splits)
next
  case False
  then show ?thesis
    using assms by (auto simp: ask_actor_def receiveCommand_def validateCmd_def split: if_splits)
qed

lemma lookup_no_panic:
  assumes "0 < shardCount (shardExtractor m)" and "shardCount (shardExtractor m) < 2 ^ 63"
  shows "lookupSupervisor m req \<noteq> Panicked p"
proof -
  have "NewFixedSizeExtractor (shardCount (shardExtractor m)) = shardExtractor m"
    by (simp add: NewFixedSizeExtractor_def)
  then have "ShardID (shardExtractor m) f \<noteq> Panicked p" for f p
    using shard_extractor.shard_no_panic [OF fixed_size_extractor [OF assms]] by metis
  then show ?thesis
    by (auto simp: lookupSupervisor_def split: option.splits outcome.splits)
qed

lemma forward_cases:
  assumes "0 < shardCount (shardExtractor m)" and "shardCount (shardExtractor m) < 2 ^ 63"
    and "\<And>pid t r. ask pid cmd t = FutureValue r \<Longrightarrow> ok r \<or> is_ErrorResponse r"
  shows "(\<exists>r. forwardRequest ask deadline now cmd m = Returned r \<and> ok r) \<or>
    (\<exists>err. forwardRequest ask deadline now cmd m = Failed err)"
proof (cases "lookupSupervisor m (Some cmd)")
  case (Returned pid)
  let ?t = "case deadline of None \<Rightarrow> defaultRequestTimeout | Some d \<Rightarrow> d - now"
  show ?thesis
  proof (cases "ask pid cmd ?t")
    case (FutureValue r)
    then show ?thesis
      using Returned assms(3) [OF FutureValue] by (cases r) (simp_all add: forwardRequest_def Let_def)
  qed (use Returned in \<open>simp_all add: forwardRequest_def Let_def\<close>)
qed (use lookup_no_panic [OF assms(1,2)] in \<open>auto simp: forwardRequest_def Let_def\<close>)

lemma assert_type_ok:
  assumes "(\<exists>r. f = Returned r \<and> ok r) \<or> (\<exists>err. f = Failed err)"
  shows "assert_type ok f \<noteq> Panicked p"
  using assms by (auto simp: assert_type_def)

section \<open>Properties\<close>

text \<open>C33: The service's type assertions on what a flow's actor answers always hold: creating a flow,
  adding a stage of any of the four kinds, committing, asking for the state and awaiting a stage never panic,
  whatever state the actor is in and however late it answers. (Only completing a stage externally does, see below.)\<close>

theorem service_does_not_panic:
  assumes "reachable s" and "0 < shardCount (shardExtractor m)" and "shardCount (shardExtractor m) < 2 ^ 63"
  shows "api_CreateGraph (ask_actor s delay later) d now f fn m \<noteq> Panicked p \<and>
    api_GetGraphState (ask_actor s delay later) d now f m \<noteq> Panicked p \<and>
    api_AddInvokeFunction (ask_actor s delay later) d now f fn arg loc caller m \<noteq> Panicked p \<and>
    api_AddDelay (ask_actor s delay later) d now f ms loc caller m \<noteq> Panicked p \<and>
    api_AddStage (ask_actor s delay later) d now f op cl deps loc caller m \<noteq> Panicked p \<and>
    api_AddValueStage (ask_actor s delay later) d now f v loc caller m \<noteq> Panicked p \<and>
    api_Commit (ask_actor s delay later) d now f m \<noteq> Panicked p \<and>
    api_AwaitStageResult (ask_actor s delay later) d now now' f sid ms m \<noteq> Panicked p"
proof -
  let ?ask = "ask_actor s delay later"
  have fwd: "(\<exists>r. forwardRequest ?ask d now cmd m = Returned r \<and> expected cmd r) \<or>
      (\<exists>err. forwardRequest ?ask d now cmd m = Failed err)" if "is_request cmd" for cmd
    using forward_cases [OF assms(2,3), of ?ask cmd "expected cmd"]
      ask_actor_expected [OF assms(1) that] refusal_error by blast
  have "(\<exists>r. forwardRequest ?ask d now cmd m = Returned r \<and> is_AwaitStageResultResponse r) \<or>
      (\<exists>err. forwardRequest ?ask d now cmd m = Failed err)" if "cmd = AwaitStageResultRequest f sid ms" for cmd d now
    using forward_cases [OF assms(2,3), of ?ask cmd is_AwaitStageResultResponse] ask_actor_await_expected that by blast
  then have "api_AwaitStageResult ?ask d now now' f sid ms m \<noteq> Panicked p"
    unfolding api_AwaitStageResult_def by (intro assert_type_ok) simp
  moreover have "api_CreateGraph ?ask d now f fn m \<noteq> Panicked p \<and> api_GetGraphState ?ask d now f m \<noteq> Panicked p \<and>
    api_AddInvokeFunction ?ask d now f fn arg loc caller m \<noteq> Panicked p \<and> api_AddDelay ?ask d now f ms loc caller m \<noteq> Panicked p \<and>
    api_AddStage ?ask d now f op cl deps loc caller m \<noteq> Panicked p \<and>
    api_AddValueStage ?ask d now f v loc caller m \<noteq> Panicked p \<and> api_Commit ?ask d now f m \<noteq> Panicked p"
    unfolding api_CreateGraph_def api_GetGraphState_def api_AddInvokeFunction_def api_AddDelay_def
      api_AddStage_def api_AddValueStage_def api_Commit_def
    by (intro conjI assert_type_ok)
       (use fwd [of "CreateGraphRequest f fn"] fwd [of "GetGraphStateRequest f"]
         fwd [of "AddInvokeFunctionStageRequest f fn arg loc caller"] fwd [of "AddDelayStageRequest f ms loc caller"]
         fwd [of "AddStageRequest f op cl deps loc caller"] fwd [of "AddCompletedValueStageRequest f v loc caller"]
         fwd [of "CommitGraphRequest f"] in simp_all)
  ultimately show ?thesis
    by blast
qed

text \<open>A node with one shard.\<close>

definition demo_manager :: actorManager where
  "demo_manager =
     \<lparr>shardSupervisors = [(0, ''supervisor-0'')], executorPID = ''executor'', shardExtractor = NewFixedSizeExtractor 1\<rparr>"

theorem service_does_not_panic_witness:
  "\<forall>p. api_Commit (ask_actor built 0 (\<lambda>_. built)) None 0 ''00000000-0000-0000-0000-000000000005'' demo_manager \<noteq> Panicked p"
  using service_does_not_panic [OF demo_reachable(1), of demo_manager]
  by (simp add: demo_manager_def NewFixedSizeExtractor_def)

text \<open>What the actor answers to a request that it carries out.\<close>

lemma complete_answer:
  assumes "reachable s" and "hasGraph s" and "ValidateCommand (CompleteStageExternallyRequest f sid v loc caller) s = Valid"
    and "receiveCommand (CompleteStageExternallyRequest f sid v loc caller) s = Done t"
  shows "\<exists>st. GetStage sid s = Some st \<and> replies t = replies s @ [CompleteStageExternallyResponse f sid (\<not> IsResolved st)]"
proof -
  have p: "cmd_CompleteStageExternally f sid v s = Done t"
    using assms(2-4) by (simp add: receiveCommand_def validateCmd_def process_cmd_def)
  then obtain st u where st: "GetStage sid s = Some st" and u: "(if \<not> IsResolved st then emit (StageCompletedEvent f sid v) s else Done s) = Done u"
    and t: "t = send (Respond (CompleteStageExternallyResponse f sid (\<not> IsResolved st))) u"
    by (auto simp: cmd_CompleteStageExternally_def bind_res_eq_Done Let_def split: option.splits if_splits)
  have "wf_graph s"
    using reachable_inv [OF assms(1)] assms(2) by (simp add: actor_inv_def)
  then have "replies u = replies s"
    using u quiet_emit_other [of s "StageCompletedEvent f sid v"] quiet_replies [of s u] by (auto split: if_splits)
  then show ?thesis
    using st t by simp
qed

text \<open>C34: Completing a stage externally panics whenever the request fails, instead of returning the
  error: the service asserts the type of the answer before it looks at the error. The service returns an answer
  exactly if it has a supervisor for the shard of the flow, the flow exists, the value is valid and the stage exists, and the actor
  carries the request out without a panic, and in time. In every other case the service panics: so a client that names a
  flow or a stage that does not exist, or one whose deadline passes, makes the service panic.\<close>

theorem complete_externally_service_panics:
  assumes cmd_def: "cmd = CompleteStageExternallyRequest f sid v loc caller" and "reachable s" and "0 < shardCount (shardExtractor m)" and "shardCount (shardExtractor m) < 2 ^ 63"
  shows "api_CompleteStageExternally (ask_actor s delay later) d now f sid v loc caller m =
    (if (\<exists>pid. lookupSupervisor m (Some cmd) = Returned pid) \<and>
        delay \<le> (case d of None \<Rightarrow> defaultRequestTimeout | Some t \<Rightarrow> t - now) \<and>
        hasGraph s \<and> validate_datum f v = Valid \<and> GetStage sid s \<noteq> None \<and> (\<exists>t. receiveCommand cmd s = Done t)
     then Returned (CompleteStageExternallyResponse f sid (\<not> IsResolved (the (GetStage sid s))))
     else Panicked BadTypeAssertion)"
proof (cases "lookupSupervisor m (Some cmd)")
  case (Returned pid)
  let ?t = "case d of None \<Rightarrow> defaultRequestTimeout | Some t \<Rightarrow> t - now"
  have valid: "ValidateCommand cmd s = (case validate_datum f v of
      Valid \<Rightarrow> if GetStage sid s = None then Invalid (NewStageNotFoundError f sid) else Valid | bad \<Rightarrow> bad)"
    by (simp add: cmd_def ValidateCommand_def validate_by_type_def)
  have api: "api_CompleteStageExternally (ask_actor s delay later) d now f sid v loc caller m =
      (case ask_actor s delay later pid cmd ?t of FutureValue r \<Rightarrow> if is_CompleteStageExternallyResponse r then Returned r else Panicked BadTypeAssertion
       | _ \<Rightarrow> Panicked BadTypeAssertion)"
    using Returned
    by (auto simp: api_CompleteStageExternally_def forwardRequest_def cmd_def Let_def split: future_result.splits Response.splits)
  show ?thesis
  proof (cases "hasGraph s \<and> ValidateCommand cmd s = Valid")
    case True
    then have v: "validate_datum f v = Valid \<and> GetStage sid s \<noteq> None"
      using valid by (auto split: validation.splits if_splits)
    show ?thesis
    proof (cases "receiveCommand cmd s")
      case (Done t)
      then show ?thesis
        using api Returned True v complete_answer [OF assms(2), of f sid v loc caller t] by (auto simp: cmd_def ask_actor_def)
    qed (use api Returned in \<open>simp_all add: ask_actor_def\<close>)
  next
    case False
    then have no: "\<not> (hasGraph s \<and> validate_datum f v = Valid \<and> GetStage sid s \<noteq> None)"
      using valid by (auto split: if_splits)
    have "ask_actor s delay later pid cmd ?t = FutureTimeout \<or> (\<exists>err. ask_actor s delay later pid cmd ?t = FutureValue (ErrorResponse err))"
      using False by (auto simp: cmd_def ask_actor_def receiveCommand_def validateCmd_def split: validation.splits)
    then show ?thesis
      using api no by auto
  qed
next
  case (Failed err)
  then show ?thesis
    by (simp add: api_CompleteStageExternally_def forwardRequest_def cmd_def Let_def)
qed (use lookup_no_panic [OF assms(3,4)] in blast)

text \<open>The flow named here has no stage 9.\<close>

lemma demo_lookup:
  "lookupSupervisor demo_manager (Some (CompleteStageExternallyRequest ''00000000-0000-0000-0000-000000000005''
     ''9'' (Some NewEmptyResult) '''' '''')) = Returned ''supervisor-0''"
  by code_simp

theorem complete_externally_service_panics_witness:
  "api_CompleteStageExternally (ask_actor built 0 (\<lambda>_. built)) None 0 ''00000000-0000-0000-0000-000000000005'' ''9''
     (Some NewEmptyResult) '''' '''' demo_manager = Panicked BadTypeAssertion"
proof -
  have "GetStage ''9'' built = None"
    by code_simp
  then show ?thesis
    using complete_externally_service_panics [OF refl demo_reachable(1), of demo_manager 0 "\<lambda>_. built" None 0
        "''00000000-0000-0000-0000-000000000005''" "''9''" "Some NewEmptyResult" "''''" "''''"]
    by (simp add: demo_manager_def NewFixedSizeExtractor_def)
qed

text \<open>A client that awaits a stage with a timeout waits at most that long, never more than an hour,
  and never past the deadline its call already has.\<close>

theorem await_is_bounded:
  assumes "0 < timeoutMs"
  shows "\<exists>d. await_deadline timeoutMs deadline now = Some d \<and> d \<le> now + timeoutMs * 10 ^ 6 \<and>
    d \<le> now + 3600 * 10 ^ 9 \<and> (\<forall>d'. deadline = Some d' \<longrightarrow> d \<le> d')"
  using assms by (cases deadline) (auto simp: await_deadline_def Let_def min_def)

theorem await_is_bounded_witness:
  "\<exists>d. await_deadline 7200000 (Some 100) 0 = Some d \<and> d \<le> 100"
  using await_is_bounded [of 7200000 "Some 100" 0] by auto

end
