(* ===== verification/Supervisor.thy ===== *)
theory Supervisor
  imports Flow_Api "HOL-Library.Multiset"
begin

text \<open>
  The supervisor of a shard, \<^verbatim>\<open>src/actor/supervisor.go\<close>: a persistent actor that keeps the set of
  active flows, starts a graph actor per flow, passes messages on to it, and starts the graph
  actors of the active flows again after a restart. What it uses of the vendored actor library is
  part of its state: the registry of actor names, in which a child stays until it has stopped, and
  the supervisor's children.
\<close>

section \<open>State\<close>

datatype SupMessage =
    SupCommand Command
  | SupEvent Event
  | SupTerminated PID
  | SupReplayComplete
  | SupUnknown

datatype SupEffect =
    ChildRequest PID SupMessage
  | SupRespond Response
  | ChildPoisonPill PID

text \<open>\<open>activeGraphs\<close> holds the keys of the map, all of whose values are true; \<open>gauge\<close> is the metric of
  active graphs; \<open>activeOrder\<close> lists the orders of the coming \<^verbatim>\<open>range\<close> loops over the map.\<close>

record graphSupervisor =
  selfId :: PID
  supMixin :: Mixin
  activeGraphs :: "flow_id list"
  gauge :: int
  children_pids :: "PID list"
  registry :: "PID list"
  activeOrder :: "flow_id list"
  supOutbox :: "SupEffect list"

definition NewGraphSupervisor :: "PID \<Rightarrow> Mixin \<Rightarrow> PID list \<Rightarrow> flow_id list \<Rightarrow> graphSupervisor" where
  "NewGraphSupervisor name m names order =
     \<lparr>selfId = name, supMixin = m, activeGraphs = [], gauge = 0, children_pids = [], registry = names,
      activeOrder = order, supOutbox = []\<rparr>"

definition sup_send :: "SupEffect \<Rightarrow> graphSupervisor \<Rightarrow> graphSupervisor" where
  "sup_send x s = s\<lparr>supOutbox := supOutbox s @ [x]\<rparr>"

section \<open>Operations\<close>

definition handleActiveGraph :: "flow_id \<Rightarrow> graphSupervisor \<Rightarrow> graphSupervisor" where
  "handleActiveGraph flowID s =
     s\<lparr>activeGraphs := (if flowID \<in> set (activeGraphs s) then activeGraphs s else activeGraphs s @ [flowID]),
       gauge := gauge s + 1\<rparr>"

definition handleInactiveGraph :: "flow_id \<Rightarrow> graphSupervisor \<Rightarrow> graphSupervisor" where
  "handleInactiveGraph flowID s =
     s\<lparr>activeGraphs := removeAll flowID (activeGraphs s), gauge := gauge s - 1\<rparr>"

definition child_path :: "graphSupervisor \<Rightarrow> flow_id \<Rightarrow> PID" where
  "child_path s flowID = selfId s @ ''/'' @ flowID"

definition findChild :: "flow_id \<Rightarrow> graphSupervisor \<Rightarrow> PID option" where
  "findChild flowID s = List.find (\<lambda>pid. pid = child_path s flowID) (children_pids s)"

text \<open>The new actor's identifier, or \<open>None\<close> if the name exists.\<close>

definition spawnGraphActor :: "flow_id \<Rightarrow> graphSupervisor \<Rightarrow> PID option \<times> graphSupervisor" where
  "spawnGraphActor flowID s =
     (case SpawnNamed (child_path s flowID) (registry s) of
        None \<Rightarrow> (None, s)
      | Some names \<Rightarrow>
          (Some (child_path s flowID),
           s\<lparr>registry := names, children_pids := children_pids s @ [child_path s flowID]\<rparr>))"

definition getGraphActor :: "flow_id \<Rightarrow> graphSupervisor \<Rightarrow> PID option \<times> graphSupervisor" where
  "getGraphActor flowID s =
     (case findChild flowID s of Some child \<Rightarrow> (Some child, s) | None \<Rightarrow> spawnGraphActor flowID s)"

definition sup_PersistReceive :: "Event \<Rightarrow> graphSupervisor \<Rightarrow> graphSupervisor res" where
  "sup_PersistReceive e s =
     (case PersistReceive e (supMixin s) of
        Done m \<Rightarrow> Done (s\<lparr>supMixin := m\<rparr>)
      | Panic p m \<Rightarrow> Panic p (s\<lparr>supMixin := m\<rparr>)
      | NoFuel \<Rightarrow> NoFuel)"

text \<open>The flow identifier in the name of a child.\<close>

definition getFlowID :: "string \<Rightarrow> PID \<Rightarrow> flow_id option" where
  "getFlowID supervisor child =
     (case strings_Split child (supervisor @ ''/'') of
        [_, flow] \<Rightarrow> if flow \<noteq> '''' then Some flow else None
      | _ \<Rightarrow> None)"

section \<open>Messages\<close>

definition sup_create :: "flow_id \<Rightarrow> SupMessage \<Rightarrow> graphSupervisor \<Rightarrow> graphSupervisor res" where
  "sup_create f msg s =
     (case spawnGraphActor f s of
        (None, s) \<Rightarrow> Done (sup_send (SupRespond (ErrorResponse (NewGraphCreationError f))) s)
      | (Some child, s) \<Rightarrow>
          bind_res (sup_PersistReceive (GraphCreatedEvent f '''' None) s)
            (\<lambda>s. Done (sup_send (ChildRequest child msg) (handleActiveGraph f s))))"

definition sup_deactivate :: "flow_id \<Rightarrow> graphSupervisor \<Rightarrow> graphSupervisor res" where
  "sup_deactivate f s =
     bind_res
       (if f \<in> set (activeGraphs s)
        then bind_res (sup_PersistReceive (GraphCompletedEvent f '''' None) s)
               (\<lambda>s. Done (handleInactiveGraph f s))
        else Done s)
       (\<lambda>s. case findChild f s of
              Some child \<Rightarrow> Done (sup_send (ChildPoisonPill child) s)
            | None \<Rightarrow> Done s)"

definition sup_forward :: "flow_id \<Rightarrow> SupMessage \<Rightarrow> graphSupervisor \<Rightarrow> graphSupervisor res" where
  "sup_forward f msg s =
     (case getGraphActor f s of
        (None, s) \<Rightarrow> Done (sup_send (SupRespond (ErrorResponse (NewGraphNotFoundError f))) s)
      | (Some child, s) \<Rightarrow> Done (sup_send (ChildRequest child msg) s))"

definition respawn :: "graphSupervisor \<Rightarrow> graphSupervisor" where
  "respawn s = fold (\<lambda>flowID s. snd (spawnGraphActor flowID s)) (go_range (activeOrder s) (activeGraphs s)) s"

text \<open>A terminated child is only logged.\<close>

definition sup_receiveCommand :: "SupMessage \<Rightarrow> graphSupervisor \<Rightarrow> graphSupervisor res" where
  "sup_receiveCommand msg s =
     (case msg of
        SupCommand (CreateGraphRequest f fn) \<Rightarrow> sup_create f msg s
      | SupCommand (DeactivateGraphRequest f) \<Rightarrow> sup_deactivate f s
      | SupCommand cmd \<Rightarrow> sup_forward (CmdFlowId cmd) msg s
      | SupEvent e \<Rightarrow> sup_forward (EvtFlowId e) msg s
      | SupTerminated who \<Rightarrow> Done s
      | SupReplayComplete \<Rightarrow> Done (respawn s)
      | SupUnknown \<Rightarrow> Done s)"

definition sup_receiveEvent :: "SupMessage \<Rightarrow> graphSupervisor \<Rightarrow> graphSupervisor res" where
  "sup_receiveEvent msg s =
     (case msg of
        SupEvent (GraphCreatedEvent f fn ts) \<Rightarrow> Done (handleActiveGraph f s)
      | SupEvent (GraphCompletedEvent f fn ts) \<Rightarrow> Done (handleInactiveGraph f s)
      | _ \<Rightarrow> Done s)"

definition sup_Receive :: "SupMessage \<Rightarrow> graphSupervisor \<Rightarrow> graphSupervisor res" where
  "sup_Receive msg s =
     (if recovering (supMixin s) then sup_receiveEvent msg s else sup_receiveCommand msg s)"

text \<open>The actor library takes a child that has stopped out of the registry and the children before it
  tells the supervisor.\<close>

definition child_stopped :: "PID \<Rightarrow> graphSupervisor \<Rightarrow> graphSupervisor res" where
  "child_stopped pid s =
     sup_Receive (SupTerminated pid)
       (s\<lparr>registry := removeAll pid (registry s), children_pids := removeAll pid (children_pids s)\<rparr>)"

text \<open>\<^verbatim>\<open>Mixin.init\<close> for the supervisor.\<close>

definition sup_replay_one :: "int \<times> Event \<Rightarrow> graphSupervisor \<Rightarrow> graphSupervisor res" where
  "sup_replay_one ie s =
     (case ie of (index, e) \<Rightarrow>
        bind_res (sup_Receive (SupEvent e) s)
          (\<lambda>s. Done (s\<lparr>supMixin := (supMixin s)\<lparr>eventIndex := index + 1\<rparr>\<rparr>)))"

definition sup_init :: "(int \<times> Event) list \<Rightarrow> graphSupervisor \<Rightarrow> graphSupervisor res" where
  "sup_init events s =
     bind_res (fold_res sup_replay_one events (s\<lparr>supMixin := mixin_start (supMixin s)\<rparr>))
       (\<lambda>s. sup_Receive SupReplayComplete (s\<lparr>supMixin := (supMixin s)\<lparr>recovering := False\<rparr>\<rparr>))"

section \<open>The set of active flows\<close>

text \<open>The flows that a journal leaves active.\<close>

definition active_step :: "Event \<Rightarrow> flow_id list \<Rightarrow> flow_id list" where
  "active_step e fs =
     (case e of
        GraphCreatedEvent f fn ts \<Rightarrow> if f \<in> set fs then fs else fs @ [f]
      | GraphCompletedEvent f fn ts \<Rightarrow> removeAll f fs
      | _ \<Rightarrow> fs)"

definition active_of :: "Event list \<Rightarrow> flow_id list" where
  "active_of es = fold active_step es []"

lemma active_of_snoc: "active_of (es @ [e]) = active_step e (active_of es)"
  by (simp add: active_of_def)

definition sup_inv :: "graphSupervisor \<Rightarrow> bool" where
  "sup_inv s \<longleftrightarrow>
     activeGraphs s = active_of (map snd (written (supMixin s))) \<and>
     map fst (written (supMixin s)) = map int [0..<length (written (supMixin s))] \<and>
     eventIndex (supMixin s) = int (length (written (supMixin s))) \<and>
     \<not> recovering (supMixin s) \<and> snapshotInterval (supMixin s) \<noteq> 0 \<and>
     distinct (children_pids s) \<and> set (children_pids s) \<subseteq> set (registry s) \<and>
     (\<forall>pid \<in> set (children_pids s). \<exists>f. pid = child_path s f)"

lemma sup_fields [simp]:
  "child_path (sup_send x s) f = child_path s f" "child_path (handleActiveGraph g s) f = child_path s f"
  "child_path (handleInactiveGraph g s) f = child_path s f" "child_path (s\<lparr>supMixin := m\<rparr>) f = child_path s f"
  "child_path (s\<lparr>registry := r, children_pids := c\<rparr>) f = child_path s f"
  by (simp_all add: child_path_def sup_send_def handleActiveGraph_def handleInactiveGraph_def)

lemma sup_inv_send [simp]: "sup_inv (sup_send x s) = sup_inv s"
  unfolding sup_inv_def by (simp add: sup_send_def child_path_def)

lemma findChild_Some: "findChild f s = Some pid \<Longrightarrow> pid = child_path s f \<and> pid \<in> set (children_pids s)"
  by (auto simp: findChild_def find_Some_iff in_set_conv_nth)

lemma findChild_None: "findChild f s = None \<longleftrightarrow> child_path s f \<notin> set (children_pids s)"
  by (auto simp: findChild_def find_None_iff)

lemma spawn_inv:
  assumes "sup_inv s" and "spawnGraphActor f s = (r, t)"
  shows "sup_inv t \<and> activeGraphs t = activeGraphs s \<and> supMixin t = supMixin s \<and>
    (\<forall>pid. r = Some pid \<longrightarrow> pid = child_path s f \<and> pid \<in> set (children_pids t))"
  using assms
  by (auto simp: spawnGraphActor_def SpawnNamed_def sup_inv_def child_path_def split: if_splits)

lemma get_inv:
  assumes "sup_inv s" and "getGraphActor f s = (r, t)"
  shows "sup_inv t \<and> (\<forall>pid. r = Some pid \<longrightarrow> pid = child_path s f \<and> pid \<in> set (children_pids t))"
  using assms spawn_inv [OF assms(1), of f]
  by (auto simp: getGraphActor_def split: option.splits dest: findChild_Some)

text \<open>Writing an event and making the change it stands for.\<close>

lemma persist_inv:
  assumes inv: "sup_inv s" and t: "sup_PersistReceive e s = Done t"
    and g: "\<And>s. activeGraphs (g s) = active_step e (activeGraphs s)"
      "\<And>s. supMixin (g s) = supMixin s" "\<And>s. children_pids (g s) = children_pids s"
      "\<And>s. registry (g s) = registry s" "\<And>s f. child_path (g s) f = child_path s f"
  shows "sup_inv (g t)"
proof -
  have si: "snapshotInterval (supMixin s) \<noteq> 0"
    using inv by (simp add: sup_inv_def)
  show ?thesis
    using inv t g
    by (cases rule: PersistReceive_cases [OF si, of e])
       (auto simp: sup_PersistReceive_def sup_inv_def active_of_snoc)
qed

lemma respawn_inv:
  assumes "sup_inv s"
  shows "sup_inv (fold (\<lambda>flowID s. snd (spawnGraphActor flowID s)) fs s) \<and>
    supMixin (fold (\<lambda>flowID s. snd (spawnGraphActor flowID s)) fs s) = supMixin s"
  using assms
proof (induction fs arbitrary: s)
  case (Cons f fs)
  obtain r t where "spawnGraphActor f s = (r, t)"
    by fastforce
  then show ?case
    using Cons.IH [of t] spawn_inv [OF Cons.prems] by simp
qed simp

lemma sup_message_inv:
  assumes inv: "sup_inv s" and t: "sup_Receive msg s = Done t"
  shows "sup_inv t"
proof -
  have rc: "sup_receiveCommand msg s = Done t"
    using inv t by (simp add: sup_Receive_def sup_inv_def)
  have fwd: "sup_inv t" if "sup_forward f msg s = Done t" for f
    using that get_inv [OF inv, of f] by (auto simp: sup_forward_def split: prod.splits option.splits)
  have create: "sup_inv t" if "sup_create f msg s = Done t" for f
  proof (cases "spawnGraphActor f s")
    case (Pair r u)
    then have "sup_inv u"
      using spawn_inv [OF inv] by blast
    then have "sup_inv (handleActiveGraph f v)" if "sup_PersistReceive (GraphCreatedEvent f '''' None) u = Done v" for v
      using that by (rule persist_inv) (auto simp: handleActiveGraph_def active_step_def child_path_def)
    then show ?thesis
      using that Pair \<open>sup_inv u\<close> by (auto simp: sup_create_def bind_res_eq_Done split: option.splits)
  qed
  have deact: "sup_inv t" if "sup_deactivate f s = Done t" for f
  proof -
    have "sup_inv (handleInactiveGraph f v)" if "sup_PersistReceive (GraphCompletedEvent f '''' None) s = Done v" for v
      using inv that by (rule persist_inv) (auto simp: handleInactiveGraph_def active_step_def child_path_def)
    then show ?thesis
      using that inv by (auto simp: sup_deactivate_def bind_res_eq_Done split: option.splits if_splits)
  qed
  show ?thesis
    using rc fwd create deact inv respawn_inv [OF inv]
    by (auto simp: sup_receiveCommand_def respawn_def split: SupMessage.splits Command.splits)
qed

lemma child_stopped_inv:
  assumes "sup_inv s" and "child_stopped pid s = Done t"
  shows "sup_inv t"
proof -
  let ?s = "s\<lparr>registry := removeAll pid (registry s), children_pids := removeAll pid (children_pids s)\<rparr>"
  have "sup_inv ?s"
    using assms(1) unfolding sup_inv_def by (auto simp: distinct_removeAll child_path_def)
  then show ?thesis
    using assms(2) sup_message_inv by (simp add: child_stopped_def)
qed

section \<open>Reachable states\<close>

definition fresh_supervisor :: "graphSupervisor \<Rightarrow> bool" where
  "fresh_supervisor s \<longleftrightarrow>
     activeGraphs s = [] \<and> children_pids s = [] \<and> written (supMixin s) = [] \<and> eventIndex (supMixin s) = 0 \<and>
     \<not> recovering (supMixin s) \<and> snapshotInterval (supMixin s) \<noteq> 0"

inductive sup_reachable :: "graphSupervisor \<Rightarrow> bool" where
  sup_start: "fresh_supervisor s \<Longrightarrow> sup_reachable s"
| sup_step: "sup_reachable s \<Longrightarrow> sup_Receive msg s = Done t \<Longrightarrow> sup_reachable t"
| sup_child: "sup_reachable s \<Longrightarrow> child_stopped pid s = Done t \<Longrightarrow> sup_reachable t"

lemma fresh_supervisor_inv: "fresh_supervisor s \<Longrightarrow> sup_inv s"
  by (simp add: fresh_supervisor_def sup_inv_def active_of_def)

theorem sup_reachable_inv: "sup_reachable s \<Longrightarrow> sup_inv s"
  by (induction rule: sup_reachable.induct)
     (auto intro: sup_message_inv child_stopped_inv fresh_supervisor_inv)

section \<open>Replay\<close>

definition replay_event :: "Event \<Rightarrow> graphSupervisor \<Rightarrow> graphSupervisor" where
  "replay_event e s =
     (case e of
        GraphCreatedEvent f fn ts \<Rightarrow> handleActiveGraph f s
      | GraphCompletedEvent f fn ts \<Rightarrow> handleInactiveGraph f s
      | _ \<Rightarrow> s)"

lemma sup_replay_one_eq:
  assumes "recovering (supMixin s)"
  shows "sup_replay_one (i, e) s =
    Done ((replay_event e s)\<lparr>supMixin := (supMixin s)\<lparr>eventIndex := i + 1\<rparr>\<rparr>)"
  using assms
  by (cases e) (simp_all add: sup_replay_one_def sup_Receive_def sup_receiveEvent_def replay_event_def
      handleActiveGraph_def handleInactiveGraph_def)

lemma replay_event_fields [simp]:
  "activeGraphs (replay_event e s) = active_step e (activeGraphs s)" "supMixin (replay_event e s) = supMixin s"
  "children_pids (replay_event e s) = children_pids s" "registry (replay_event e s) = registry s"
  "selfId (replay_event e s) = selfId s" "activeOrder (replay_event e s) = activeOrder s"
  by (cases e; simp add: replay_event_def active_step_def handleActiveGraph_def handleInactiveGraph_def)+

lemma sup_replay:
  assumes "recovering (supMixin s)"
  shows "\<exists>t. fold_res sup_replay_one ies s = Done t \<and>
    activeGraphs t = fold active_step (map snd ies) (activeGraphs s) \<and>
    supMixin t = (supMixin s)\<lparr>eventIndex := (if ies = [] then eventIndex (supMixin s) else fst (last ies) + 1)\<rparr> \<and>
    children_pids t = children_pids s \<and> registry t = registry s \<and> selfId t = selfId s \<and> activeOrder t = activeOrder s"
  using assms
proof (induction ies arbitrary: s)
  case (Cons ie ies)
  obtain i e where ie: "ie = (i, e)"
    by fastforce
  show ?case
    using Cons.IH [of "(replay_event e s)\<lparr>supMixin := (supMixin s)\<lparr>eventIndex := i + 1\<rparr>\<rparr>"] Cons.prems
    by (auto simp: ie sup_replay_one_eq)
qed simp

lemma respawn_children:
  assumes "distinct fs" and "\<forall>f \<in> set fs. child_path s f \<notin> set (registry s)"
  shows "(let t = fold (\<lambda>flowID s. snd (spawnGraphActor flowID s)) fs s in
    children_pids t = children_pids s @ map (child_path s) fs \<and> activeGraphs t = activeGraphs s \<and>
    supMixin t = supMixin s)"
  using assms
proof (induction fs arbitrary: s)
  case (Cons f fs)
  let ?t = "s\<lparr>registry := child_path s f # registry s, children_pids := children_pids s @ [child_path s f]\<rparr>"
  have sp: "snd (spawnGraphActor f s) = ?t"
    using Cons.prems(2) by (simp add: spawnGraphActor_def SpawnNamed_def)
  have "child_path s f' \<noteq> child_path s f" if "f' \<in> set fs" for f'
    using that Cons.prems(1) by (auto simp: child_path_def)
  then have ok: "distinct fs" "\<forall>f' \<in> set fs. child_path ?t f' \<notin> set (registry ?t)"
    using Cons.prems by auto
  show ?case
    using Cons.IH [OF ok] by (simp add: sp Let_def)
qed simp

lemma active_of_distinct: "distinct (active_of es)"
  by (induction es rule: rev_induct)
     (auto simp: active_of_snoc active_step_def distinct_removeAll active_of_def split: Event.splits)

section \<open>Properties\<close>

text \<open>C37: The set of active flows is what the supervisor's journal says: the flows with a created event
  after which there is no completed event. Its events are numbered from 0 without gaps.\<close>

theorem supervisor_journal_determines_active:
  assumes "sup_reachable s"
  shows "activeGraphs s = active_of (map snd (written (supMixin s))) \<and>
    map fst (written (supMixin s)) = map int [0..<length (written (supMixin s))]"
  using sup_reachable_inv [OF assms] by (simp add: sup_inv_def)

text \<open>C38: A supervisor that restarts knows its flows again. Replaying the journal of a reachable
  supervisor restores the set of active flows and the event index, and starts exactly one
  graph actor for each active flow, if none of their names is taken.\<close>

theorem supervisor_recovers:
  assumes "sup_reachable s" and "fresh_supervisor r"
    and "\<forall>f \<in> set (activeGraphs s). child_path r f \<notin> set (registry r)"
  shows "\<exists>t. sup_init (written (supMixin s)) r = Done t \<and> activeGraphs t = activeGraphs s \<and>
    eventIndex (supMixin t) = eventIndex (supMixin s) \<and> \<not> recovering (supMixin t) \<and>
    mset (children_pids t) = mset (map (child_path r) (activeGraphs s))"
proof -
  let ?ws = "written (supMixin s)"
  let ?r = "r\<lparr>supMixin := mixin_start (supMixin r)\<rparr>"
  have inv: "activeGraphs s = active_of (map snd ?ws)" "map fst ?ws = map int [0..<length ?ws]"
      "eventIndex (supMixin s) = int (length ?ws)"
    using sup_reachable_inv [OF assms(1)] by (simp_all add: sup_inv_def)
  have "recovering (supMixin ?r)"
    by (simp add: mixin_start_def)
  from sup_replay [OF this, of ?ws] obtain u where u: "fold_res sup_replay_one ?ws ?r = Done u"
      "activeGraphs u = activeGraphs s" "children_pids u = []" "registry u = registry r" "selfId u = selfId r"
      "supMixin u = (mixin_start (supMixin r))\<lparr>eventIndex := (if ?ws = [] then 0 else fst (last ?ws) + 1)\<rparr>"
    using inv(1) assms(2) by (auto simp: fresh_supervisor_def active_of_def mixin_start_def)
  have idx: "(if ?ws = [] then 0 else fst (last ?ws) + 1) = eventIndex (supMixin s)"
    using inv(2,3) by (cases ?ws rule: rev_cases) simp_all
  let ?u = "u\<lparr>supMixin := (supMixin u)\<lparr>recovering := False\<rparr>\<rparr>"
  let ?fs = "go_range (activeOrder ?u) (activeGraphs ?u)"
  have path: "child_path ?u = child_path r"
    by (simp add: child_path_def u(5) fun_eq_iff)
  have d: "distinct (activeGraphs s)"
    using inv(1) active_of_distinct by simp
  then have fs: "distinct ?fs" "set ?fs = set (activeGraphs s)"
    using u(2) by simp_all
  have "\<forall>f \<in> set ?fs. child_path ?u f \<notin> set (registry ?u)"
    using assms(3) fs(2) u(4) path by simp
  note spawned = respawn_children [OF fs(1) this, unfolded Let_def]
  have "mset ?fs = mset (activeGraphs s)"
    using fs d by (simp add: set_eq_iff_mset_eq_distinct [symmetric])
  then have "mset (children_pids (respawn ?u)) = mset (map (child_path r) (activeGraphs s))"
    using spawned path u(3) by (simp add: respawn_def)
  moreover have "sup_init ?ws r = Done (respawn ?u)"
    by (simp add: sup_init_def u(1) sup_Receive_def sup_receiveCommand_def)
  ultimately show ?thesis
    using spawned u idx by (simp add: respawn_def)
qed

text \<open>A message for a flow goes to that flow's actor and no other. A supervisor never has two children
  for one flow; it passes a message on to the child named after the flow, which it starts if there
  is none, and it answers that the flow is not found only while an actor of that name that is not its
  child is still running.\<close>

theorem supervisor_forwards:
  assumes "sup_reachable s" and "sup_forward f msg s = Done t"
  shows "distinct (children_pids t) \<and>
    (if child_path s f \<in> set (registry s) \<and> child_path s f \<notin> set (children_pids s)
     then t = sup_send (SupRespond (ErrorResponse (NewGraphNotFoundError f))) s
     else supOutbox t = supOutbox s @ [ChildRequest (child_path s f) msg] \<and>
       child_path s f \<in> set (children_pids t))"
proof -
  note inv = sup_reachable_inv [OF assms(1)]
  have "distinct (children_pids t)"
    using get_inv [OF inv, of f] assms(2)
    by (auto simp: sup_forward_def sup_inv_def sup_send_def split: prod.splits option.splits)
  moreover have "child_path s f \<in> set (registry s)" if "child_path s f \<in> set (children_pids s)"
    using inv that by (auto simp: sup_inv_def)
  ultimately show ?thesis
    using assms(2) findChild_None [of f s]
    by (cases "findChild f s")
       (auto simp: sup_forward_def getGraphActor_def spawnGraphActor_def SpawnNamed_def sup_send_def
         dest: findChild_Some)
qed

text \<open>The supervisor recovers a flow's identifier from the name of its actor, for every identifier
  that is not empty and does not contain the supervisor's own name followed by a slash.\<close>

theorem getFlowID_child_path:
  assumes "flow \<noteq> ''''" and "\<forall>i < length flow. \<not> has_prefix (drop i flow) (selfId s @ ''/'')"
  shows "getFlowID (selfId s) (child_path s flow) = Some flow"
proof -
  let ?sep = "selfId s @ ''/''"
  have "strings_Split (?sep @ flow) ?sep = ['''', flow]"
    using split_prefix [of ?sep flow] split_from_none [of flow ?sep "''''"] assms(2) by auto
  then show ?thesis
    using assms(1) by (simp add: getFlowID_def child_path_def)
qed

section \<open>Concrete runs\<close>

definition demo_supervisor :: graphSupervisor where
  "demo_supervisor = NewGraphSupervisor ''supervisor-0''
     \<lparr>eventIndex = 0, snapshotInterval = 100, recovering = False, snapshotRequested = False, written = [],
      storeFault = (\<lambda>_. None)\<rparr> [''executor'', ''supervisor-0''] []"

fun sup_done :: "graphSupervisor res \<Rightarrow> bool" where
  "sup_done (Done s) = True"
| "sup_done _ = False"

fun sup_state :: "graphSupervisor res \<Rightarrow> graphSupervisor" where
  "sup_state (Done s) = s"
| "sup_state (Panic p s) = s"
| "sup_state NoFuel = demo_supervisor"

lemma sup_doneE: "sup_done r \<Longrightarrow> r = Done (sup_state r)"
  by (cases r) simp_all

definition two_flows :: graphSupervisor where
  "two_flows = sup_state (fold_res sup_Receive
     [SupCommand (CreateGraphRequest ''f'' ''fn''), SupCommand (CreateGraphRequest ''g'' ''fn''),
      SupCommand (DeactivateGraphRequest ''f'')] demo_supervisor)"

lemma sup_reachable_fold: "sup_reachable s \<Longrightarrow> fold_res sup_Receive ms s = Done t \<Longrightarrow> sup_reachable t"
  by (induction ms arbitrary: s) (auto simp: bind_res_eq_Done intro: sup_step)

lemma demo_supervisor_fresh: "fresh_supervisor demo_supervisor"
  by (simp add: fresh_supervisor_def demo_supervisor_def NewGraphSupervisor_def)

lemma two_flows_reachable: "sup_reachable two_flows"
proof -
  have "sup_done (fold_res sup_Receive
     [SupCommand (CreateGraphRequest ''f'' ''fn''), SupCommand (CreateGraphRequest ''g'' ''fn''),
      SupCommand (DeactivateGraphRequest ''f'')] demo_supervisor)"
    by code_simp
  from sup_doneE [OF this] show ?thesis
    unfolding two_flows_def by (rule sup_reachable_fold [OF sup_start [OF demo_supervisor_fresh]])
qed

lemma two_flows_active: "activeGraphs two_flows = [''g'']"
  by code_simp

theorem supervisor_journal_determines_active_witness:
  "active_of (map snd (written (supMixin two_flows))) = [''g'']"
  using supervisor_journal_determines_active [OF two_flows_reachable] two_flows_active by simp

theorem supervisor_recovers_witness:
  "\<exists>t. sup_init (written (supMixin two_flows)) demo_supervisor = Done t \<and> activeGraphs t = [''g''] \<and>
     children_pids t = [''supervisor-0/g'']"
proof -
  have "\<forall>f \<in> set (activeGraphs two_flows). child_path demo_supervisor f \<notin> set (registry demo_supervisor)"
    by (simp add: two_flows_active child_path_def demo_supervisor_def NewGraphSupervisor_def)
  from supervisor_recovers [OF two_flows_reachable demo_supervisor_fresh this] show ?thesis
    by (auto simp: two_flows_active child_path_def demo_supervisor_def NewGraphSupervisor_def)
qed

theorem supervisor_forwards_witness:
  "\<exists>t. sup_forward ''g'' (SupCommand (CommitGraphRequest ''g'')) two_flows = Done t \<and>
     ChildRequest ''supervisor-0/g'' (SupCommand (CommitGraphRequest ''g'')) \<in> set (supOutbox t)"
proof -
  define t where "t = sup_state (sup_forward ''g'' (SupCommand (CommitGraphRequest ''g'')) two_flows)"
  have "sup_done (sup_forward ''g'' (SupCommand (CommitGraphRequest ''g'')) two_flows)"
    and p: "child_path two_flows ''g'' = ''supervisor-0/g''" "''supervisor-0/g'' \<in> set (children_pids two_flows)"
    by code_simp+
  then have t: "sup_forward ''g'' (SupCommand (CommitGraphRequest ''g'')) two_flows = Done t"
    unfolding t_def by (intro sup_doneE)
  from supervisor_forwards [OF two_flows_reachable t] show ?thesis
    using t p by simp
qed

theorem getFlowID_child_path_witness:
  "getFlowID ''supervisor-0'' (child_path demo_supervisor ''g'') = Some ''g''"
  using getFlowID_child_path [of "''g''" demo_supervisor]
  by (simp add: demo_supervisor_def NewGraphSupervisor_def has_prefix_def)

text \<open>The gauge of active graphs drifts. When the actor of an active flow has stopped (after a panic, say)
  and a client creates the flow again, the gauge counts the flow twice although the set of active
  flows has it once; after the flow is deactivated the gauge stays one too high.\<close>

theorem gauge_drifts:
  "(let s = sup_state (sup_Receive (SupCommand (CreateGraphRequest ''f'' ''fn'')) demo_supervisor);
        s = sup_state (child_stopped ''supervisor-0/f'' s);
        s = sup_state (sup_Receive (SupCommand (CreateGraphRequest ''f'' ''fn'')) s);
        s = sup_state (sup_Receive (SupCommand (DeactivateGraphRequest ''f'')) s)
    in activeGraphs s = [] \<and> gauge s = 1)"
  by code_simp

end
