(* ===== verification/Request_Validation.thy ===== *)
theory Request_Validation
  imports Actor_Replies Actor_Properties
begin

text \<open>
  The checks on the fields of requests that the API server runs before any handler: the
  \<^verbatim>\<open>Validate\<close> methods of \<^verbatim>\<open>src/model/model.validator.pb.go\<close> and the interceptor that
  \<^verbatim>\<open>NewAPIServer\<close> of \<^verbatim>\<open>src/server/server.go\<close> installs. They establish what the graph actor relies on: a
  validated request cannot make it panic.
\<close>

section \<open>Errors with the path to a field\<close>

datatype fieldError = FieldErr (fieldStack: "string list") (nestedErr: string)

fun FieldError :: "string \<Rightarrow> string + fieldError \<Rightarrow> fieldError" where
  "FieldError fieldName (Inl message) = FieldErr [fieldName] message"
| "FieldError fieldName (Inr (FieldErr fs message)) = FieldErr (fieldName # fs) message"

fun strings_Join :: "string list \<Rightarrow> string \<Rightarrow> string" where
  "strings_Join [] sep = ''''"
| "strings_Join [s] sep = s"
| "strings_Join (s # ss) sep = s @ sep @ strings_Join ss sep"

definition fieldError_Error :: "fieldError \<Rightarrow> string" where
  "fieldError_Error e = ''invalid field '' @ strings_Join (fieldStack e) ''.'' @ '': '' @ nestedErr e"

text \<open>The three kinds of check on a field: a string must not be empty, a number must be greater than a
  bound, a message must be valid itself (\<open>check_field\<close>).\<close>

definition not_empty :: "string \<Rightarrow> string \<Rightarrow> fieldError option" where
  "not_empty fieldName v =
     (if v = '''' then Some (FieldError fieldName (Inl (''value '' @ [CHR 0x27] @ v @ [CHR 0x27] @ '' must not be an empty string'')))
      else None)"

definition greater :: "string \<Rightarrow> int \<Rightarrow> int \<Rightarrow> fieldError option" where
  "greater fieldName bound v =
     (if \<not> v > bound
      then Some (FieldError fieldName (Inl (''value '' @ [CHR 0x27] @ itoa_int v @ [CHR 0x27] @
             '' must be greater than '' @ [CHR 0x27] @ itoa_int bound @ [CHR 0x27])))
      else None)"

definition check_field :: "string \<Rightarrow> ('a \<Rightarrow> fieldError option) \<Rightarrow> 'a \<Rightarrow> fieldError option" where
  "check_field fieldName validate v = map_option (FieldError fieldName \<circ> Inr) (validate v)"

definition optional :: "('a \<Rightarrow> fieldError option) \<Rightarrow> 'a option \<Rightarrow> fieldError option" where
  "optional check v = Option.bind v check"

definition required :: "string \<Rightarrow> ('a \<Rightarrow> fieldError option) \<Rightarrow> 'a option \<Rightarrow> fieldError option" where
  "required fieldName check v =
     (case v of None \<Rightarrow> Some (FieldError fieldName (Inl ''message must exist'')) | Some m \<Rightarrow> check m)"

text \<open>The first check that fails decides.\<close>

fun first_error :: "fieldError option list \<Rightarrow> fieldError option" where
  "first_error [] = None"
| "first_error (None # es) = first_error es"
| "first_error (Some e # es) = Some e"

lemma first_error_None [simp]: "first_error es = None \<longleftrightarrow> set es \<subseteq> {None}"
  by (induction es rule: first_error.induct) auto

lemma check_None [simp]:
  "not_empty n v = None \<longleftrightarrow> v \<noteq> ''''" "greater n b i = None \<longleftrightarrow> b < i"
  "check_field n f a = None \<longleftrightarrow> f a = None"
  "required n f m = None \<longleftrightarrow> (\<exists>x. m = Some x \<and> f x = None)"
  by (auto simp: not_empty_def greater_def check_field_def required_def split: option.splits)

section \<open>Values\<close>

definition Validate_BlobDatum :: "BlobDatum \<Rightarrow> fieldError option" where
  "Validate_BlobDatum b =
     first_error [not_empty ''BlobId'' (BlobId b), not_empty ''ContentType'' (ContentType b), greater ''Length'' 0 (Length b)]"

definition Validate_HTTPHeader :: "HTTPHeader \<Rightarrow> fieldError option" where
  "Validate_HTTPHeader h = first_error [not_empty ''Key'' (HeaderKey h), not_empty ''Value'' (HeaderValue h)]"

definition Validate_HTTPReqDatum :: "HTTPReqDatum \<Rightarrow> fieldError option" where
  "Validate_HTTPReqDatum d =
     first_error (optional (check_field ''Body'' Validate_BlobDatum) (ReqBody d) #
       map (check_field ''Headers'' Validate_HTTPHeader) (ReqHeaders d))"

definition Validate_HTTPRespDatum :: "HTTPRespDatum \<Rightarrow> fieldError option" where
  "Validate_HTTPRespDatum d =
     first_error (optional (check_field ''Body'' Validate_BlobDatum) (RespBody d) #
       map (check_field ''Headers'' Validate_HTTPHeader) (RespHeaders d) @ [greater ''StatusCode'' 0 (RespStatusCode d)])"

definition Validate_StageRefDatum :: "StageRefDatum \<Rightarrow> fieldError option" where
  "Validate_StageRefDatum d = not_empty ''StageId'' (RefStageId d)"

definition Validate_Datum :: "Datum \<Rightarrow> fieldError option" where
  "Validate_Datum d =
     (case Val d of
        Some (Datum_Blob b) \<Rightarrow> check_field ''Blob'' Validate_BlobDatum b
      | Some (Datum_StageRef r) \<Rightarrow> check_field ''StageRef'' Validate_StageRefDatum r
      | Some (Datum_HttpReq r) \<Rightarrow> check_field ''HttpReq'' Validate_HTTPReqDatum r
      | Some (Datum_HttpResp r) \<Rightarrow> check_field ''HttpResp'' Validate_HTTPRespDatum r
      | _ \<Rightarrow> None)"

definition Validate_CompletionResult :: "CompletionResult \<Rightarrow> fieldError option" where
  "Validate_CompletionResult r = required ''Datum'' (check_field ''Datum'' Validate_Datum) (ResultDatum r)"

section \<open>Requests\<close>

text \<open>The pattern \<^verbatim>\<open>^([a-zA-Z0-9_.\-]{1,255})?$\<close>, which the empty string matches.\<close>

definition function_chars :: string where
  "function_chars = ''abcdefghijklmnopqrstuvwxyzABCDEFGHIJKLMNOPQRSTUVWXYZ0123456789_.-''"

definition function_id_matches :: "string \<Rightarrow> bool" where
  "function_id_matches s \<longleftrightarrow> length s \<le> 255 \<and> list_all (\<lambda>c. c \<in> set function_chars) s"

definition check_function_id :: "string \<Rightarrow> fieldError option" where
  "check_function_id s =
     (if \<not> function_id_matches s then Some (FieldError ''FunctionId'' (Inl ''function id must be specified'')) else None)"

definition Validate :: "Command \<Rightarrow> fieldError option" where
  "Validate cmd =
     (case cmd of
        AddStageRequest f op cl deps loc caller \<Rightarrow>
          first_error [not_empty ''FlowId'' f, optional (check_field ''Closure'' Validate_BlobDatum) cl]
      | CompleteStageExternallyRequest f sid v loc caller \<Rightarrow>
          first_error [not_empty ''FlowId'' f, not_empty ''StageId'' sid,
            required ''Value'' (check_field ''Value'' Validate_CompletionResult) v]
      | AddCompletedValueStageRequest f v loc caller \<Rightarrow>
          first_error [not_empty ''FlowId'' f, required ''Value'' (check_field ''Value'' Validate_CompletionResult) v]
      | AddDelayStageRequest f ms loc caller \<Rightarrow>
          first_error [not_empty ''FlowId'' f, greater ''DelayMs'' (- 1) ms]
      | AddInvokeFunctionStageRequest f fn arg loc caller \<Rightarrow>
          first_error [not_empty ''FlowId'' f, check_function_id fn,
            required ''Arg'' (check_field ''Arg'' Validate_HTTPReqDatum) arg]
      | CommitGraphRequest f \<Rightarrow> not_empty ''FlowId'' f
      | CompleteDelayStageRequest f sid r \<Rightarrow>
          first_error [not_empty ''FlowId'' f, not_empty ''StageId'' sid,
            optional (check_field ''Result'' Validate_CompletionResult) r]
      | DeactivateGraphRequest f \<Rightarrow> not_empty ''FlowId'' f
      | CreateGraphRequest f fn \<Rightarrow> check_function_id fn
      | FaasInvocationResponse f sid fn r call \<Rightarrow> optional (check_field ''Result'' Validate_CompletionResult) r
      | GetGraphStateRequest f \<Rightarrow> not_empty ''FlowId'' f
      | AwaitStageResultRequest f sid timeout \<Rightarrow>
          first_error [not_empty ''FlowId'' f, not_empty ''StageId'' sid, greater ''TimeoutMs'' (- 1) timeout]
      | OtherCommand f \<Rightarrow> None)"

text \<open>The interceptor: an invalid request is answered \<^verbatim>\<open>InvalidArgument\<close>, \<open>handler\<close> handles the others.\<close>

definition UnaryServerInterceptor ::
  "(Command \<Rightarrow> (service_error, 'a) outcome) \<Rightarrow> Command \<Rightarrow> (service_error, 'a) outcome" where
  "UnaryServerInterceptor handler req =
     (case Validate req of
        Some err \<Rightarrow> Failed (ServiceError (StatusError Code_InvalidArgument (fieldError_Error err)))
      | None \<Rightarrow> handler req)"

section \<open>A validated request cannot make the actor panic\<close>

lemma validated_applies:
  assumes "is_request cmd \<or> (\<exists>f sid t. cmd = AwaitStageResultRequest f sid t)" and "Validate cmd = None"
  shows "cmd_applies cmd s"
  using assms by (cases cmd) (auto simp: cmd_applies_def Validate_def Validate_CompletionResult_def)

lemma validated_processed:
  assumes "reachable s" and "hasGraph s" and "reliable (mixin s)" and "Validate cmd = None"
    and "is_request cmd \<or> (\<exists>f sid t. cmd = AwaitStageResultRequest f sid t)"
  shows "\<exists>t. receiveCommand cmd s = Done t \<and> (is_request cmd \<longrightarrow> (\<exists>r. replies t = replies s @ [r]))"
proof -
  have "returns True (receiveCommand cmd s)"
    using reachable_facts [OF assms(1,2)] assms(3) validated_applies [OF assms(5,4)]
    by (intro receiveCommand_returns) (simp_all add: good_def)
  then obtain t where "receiveCommand cmd s = Done t"
    using returns_strictD by blast
  then show ?thesis
    using command_answers [OF reachable_inv [OF assms(1)], of cmd] by (auto simp: answering_def answers_def)
qed

text \<open>C7: With a store that does not fail, a request of a client that passed the validation of the API
  server never makes the flow's actor panic, in any state of the flow: it is processed to its end,
  and if it is one that is answered at once, exactly one answer is sent.\<close>

theorem validated_request_is_processed:
  assumes "reachable s" and "hasGraph s" and "reliable (mixin s)" and "Validate cmd = None"
    and "is_request cmd \<or> (\<exists>f sid t. cmd = AwaitStageResultRequest f sid t)"
  shows "\<exists>t. receiveCommand cmd s = Done t \<and> (is_request cmd \<longrightarrow> (\<exists>r. replies t = replies s @ [r]))"
  using assms by (rule validated_processed)

definition demo_invoke :: Command where
  "demo_invoke = AddInvokeFunctionStageRequest ''flow'' ''app'' (Some \<lparr>ReqBody = None, ReqHeaders = [], ReqMethod = Method_post\<rparr>) '''' ''''"

theorem validated_request_is_processed_witness:
  "\<exists>t r. receiveCommand demo_invoke committed = Done t \<and> replies t = replies committed @ [r]"
proof -
  have "Validate demo_invoke = None" "is_request demo_invoke"
    by code_simp+
  then show ?thesis
    using validated_request_is_processed [OF demo_reachable(2) demo_hasGraph(2) demo_reliable(2), of demo_invoke] by blast
qed

end
