(* ===== verification/Blob_Store.thy ===== *)
theory Blob_Store
  imports Sharding Flow_Model
begin

text \<open>
  The stores for user data of \<^verbatim>\<open>src/blobs\<close>: in memory (\<^verbatim>\<open>inmem_blob_store.go\<close>) and in an SQL database
  (\<^verbatim>\<open>sql_blob_store.go\<close>), the contract both meet (\<^verbatim>\<open>blobs.go\<close>), and the HTTP handlers in front of them
  (\<^verbatim>\<open>blobapi.go\<close>). A reader that is read to its end is its content, \<open>None\<close> if reading it fails.
\<close>

record Blob =
  ID_blob :: string
  ContentType_blob :: string
  Length_blob :: int

datatype blob_error = ErrBlobNotFound | ErrReadInput | ErrBlobID uuid_error | ErrDatabase

section \<open>The in-memory store\<close>

record inMemBlobStore =
  blobs :: "(string \<times> string) list"
  count :: nat

definition NewInMemBlobStore :: inMemBlobStore where
  "NewInMemBlobStore = \<lparr>blobs = [], count = 0\<rparr>"

definition inmem_Read :: "string \<Rightarrow> string \<Rightarrow> inMemBlobStore \<Rightarrow> blob_error + string" where
  "inmem_Read flowID blobID s = (case map_of (blobs s) blobID of None \<Rightarrow> Inl ErrBlobNotFound | Some b \<Rightarrow> Inr b)"

definition inmem_Create ::
  "string \<Rightarrow> string \<Rightarrow> string option \<Rightarrow> inMemBlobStore \<Rightarrow> (blob_error + Blob) \<times> inMemBlobStore" where
  "inmem_Create flowID contentType data s =
     (let i = itoa (count s); s = s\<lparr>count := count s + 1\<rparr> in
      case data of
        None \<Rightarrow> (Inl ErrReadInput, s)
      | Some d \<Rightarrow>
          (Inr \<lparr>ID_blob = i, ContentType_blob = contentType, Length_blob = int (length d)\<rparr>,
           s\<lparr>blobs := AList.update i d (blobs s)\<rparr>))"

section \<open>The SQL store\<close>

record BlobRow =
  blobPrefix :: string
  blobId :: string
  blobData :: string

text \<open>\<open>randoms\<close> are the coming reads of the random source, \<open>blobFault\<close> says which of the coming
  statements fail. The identifier is the primary key of the table, so inserting an existing
  one fails.\<close>

record sqlBlobStore =
  blobRows :: "BlobRow list"
  randoms :: "nat \<Rightarrow> UUID option"
  blobFault :: "nat \<Rightarrow> bool"

definition NewSQLBlobStore :: "(nat \<Rightarrow> UUID option) \<Rightarrow> (nat \<Rightarrow> bool) \<Rightarrow> sqlBlobStore" where
  "NewSQLBlobStore rs faults = \<lparr>blobRows = [], randoms = rs, blobFault = faults\<rparr>"

definition next_random :: "sqlBlobStore \<Rightarrow> sqlBlobStore" where
  "next_random s = s\<lparr>randoms := (\<lambda>n. randoms s (Suc n))\<rparr>"

definition blob_insert :: "BlobRow \<Rightarrow> sqlBlobStore \<Rightarrow> bool \<times> sqlBlobStore" where
  "blob_insert row s =
     (let s' = s\<lparr>blobFault := (\<lambda>n. blobFault s (Suc n))\<rparr> in
      if blobFault s 0 \<or> blobId row \<in> set (map blobId (blobRows s)) then (False, s')
      else (True, s'\<lparr>blobRows := blobRows s @ [row]\<rparr>))"

definition sqlblob_Create ::
  "string \<Rightarrow> string \<Rightarrow> string option \<Rightarrow> sqlBlobStore \<Rightarrow> (blob_error + Blob) \<times> sqlBlobStore" where
  "sqlblob_Create prefix contentType input s =
     (case uuid_NewRandom (randoms s 0) of
        Inl err \<Rightarrow> (Inl (ErrBlobID err), next_random s)
      | Inr u \<Rightarrow>
          (case input of
             None \<Rightarrow> (Inl ErrReadInput, next_random s)
           | Some d \<Rightarrow>
               (case blob_insert \<lparr>blobPrefix = prefix, blobId = uuid_String u, blobData = d\<rparr> (next_random s) of
                  (False, s') \<Rightarrow> (Inl ErrDatabase, s')
                | (True, s') \<Rightarrow>
                    (Inr \<lparr>ID_blob = uuid_String u, ContentType_blob = contentType, Length_blob = int (length d)\<rparr>, s'))))"

definition sqlblob_Read :: "string \<Rightarrow> string \<Rightarrow> sqlBlobStore \<Rightarrow> blob_error + string" where
  "sqlblob_Read flowID i s =
     (if blobFault s 0 then Inl ErrDatabase
      else case List.find (\<lambda>r. blobId r = i) (blobRows s) of
             None \<Rightarrow> Inl ErrBlobNotFound
           | Some r \<Rightarrow> Inr (blobData r))"

section \<open>The HTTP handlers\<close>

datatype blob_reply = BlobCreated Blob | BlobContent string | BlobInterrupted string | Aborted nat

text \<open>\<open>create\<close> and \<open>read\<close> are the operations of the store.\<close>

definition createBlob ::
  "(string \<Rightarrow> string \<Rightarrow> string option \<Rightarrow> 's \<Rightarrow> (blob_error + Blob) \<times> 's) \<Rightarrow>
   string \<Rightarrow> string \<Rightarrow> string option \<Rightarrow> 's \<Rightarrow> blob_reply \<times> 's" where
  "createBlob create contentType prefix body s =
     (if contentType = '''' then (Aborted 400, s)
      else case create prefix contentType body s of
             (Inl err, s') \<Rightarrow> (Aborted 500, s')
           | (Inr blob, s') \<Rightarrow> (BlobCreated blob, s'))"

text \<open>The content is written to the client while it is read. \<open>limit\<close> is the number of bytes that can be written before the
  connection fails, if it does: the handler aborts the request then, when the status 200 and a part of the content have gone out.\<close>

definition getBlob ::
  "(string \<Rightarrow> string \<Rightarrow> 's \<Rightarrow> blob_error + string) \<Rightarrow> string \<Rightarrow> string \<Rightarrow> nat option \<Rightarrow> 's \<Rightarrow> blob_reply" where
  "getBlob read prefix i limit s =
     (case read prefix i s of
        Inl ErrBlobNotFound \<Rightarrow> Aborted 404
      | Inl err \<Rightarrow> Aborted 500
      | Inr d \<Rightarrow>
          (case limit of
             None \<Rightarrow> BlobContent d
           | Some n \<Rightarrow> if length d \<le> n then BlobContent d else BlobInterrupted (take n d)))"

text \<open>The blob as a value of a flow, \<^verbatim>\<open>src/model/mixins.go\<close>.\<close>

definition BlobDatumFromBlobStoreBlob :: "Blob \<Rightarrow> BlobDatum" where
  "BlobDatumFromBlobStoreBlob b = \<lparr>BlobId = ID_blob b, ContentType = ContentType_blob b, Length = Length_blob b\<rparr>"

section \<open>The contract of a blob store\<close>

locale blob_store =
  fixes create :: "string \<Rightarrow> string \<Rightarrow> string option \<Rightarrow> 's \<Rightarrow> (blob_error + Blob) \<times> 's"
    and read :: "string \<Rightarrow> string \<Rightarrow> 's \<Rightarrow> blob_error + string"
    and inv :: "'s \<Rightarrow> bool"
  assumes create_reads: "inv s \<Longrightarrow> create p ct (Some d) s = (Inr b, s') \<Longrightarrow>
      ContentType_blob b = ct \<and> Length_blob b = int (length d) \<and> read q (ID_blob b) s' = Inr d"
    and create_keeps: "inv s \<Longrightarrow> create p ct input s = (r, s') \<Longrightarrow> read q i s = Inr d \<Longrightarrow> read q i s' = Inr d"
    and create_inv: "inv s \<Longrightarrow> create p ct input s = (r, s') \<Longrightarrow> inv s'"
    and create_input: "create p ct None s \<noteq> (Inr b, s')"
begin

text \<open>Any number of creations later a blob is still what it was.\<close>

lemma fold_keeps:
  assumes "inv s" and "read q i s = Inr d"
  shows "inv (fold (\<lambda>(p, ct, input) s. snd (create p ct input s)) cs s) \<and>
    read q i (fold (\<lambda>(p, ct, input) s. snd (create p ct input s)) cs s) = Inr d"
  using assms
proof (induction cs arbitrary: s)
  case (Cons c cs)
  obtain p ct input where c: "c = (p, ct, input)"
    by (cases c)
  obtain r s' where s': "create p ct input s = (r, s')"
    by fastforce
  then show ?case
    using Cons.IH [of s'] create_inv [OF Cons.prems(1) s'] create_keeps [OF Cons.prems(1) s' Cons.prems(2)]
    by (simp add: c)
qed simp

lemma fold_inv: "inv s \<Longrightarrow> inv (fold (\<lambda>(p, ct, input) s. snd (create p ct input s)) cs s)"
proof (induction cs arbitrary: s)
  case (Cons c cs)
  then show ?case
    using create_inv [OF Cons.prems surjective_pairing] by (simp add: case_prod_beta)
qed simp

lemma api_roundtrip:
  assumes "inv s" and "createBlob create ct p body s = (BlobCreated b, s')"
  shows "\<exists>d. body = Some d \<and> ContentType_blob b = ct \<and> Length_blob b = int (length d) \<and>
    getBlob read q (ID_blob b) None (fold (\<lambda>(p, ct, input) s. snd (create p ct input s)) cs s') = BlobContent d"
proof -
  obtain d where d: "body = Some d" "create p ct (Some d) s = (Inr b, s')"
    using assms(2) create_input by (cases body) (auto simp: createBlob_def split: if_splits prod.splits sum.splits)
  note created = create_reads [OF assms(1) d(2), of q]
  with fold_keeps [OF create_inv [OF assms(1) d(2)], of q "ID_blob b" d cs] show ?thesis
    using d(1) by (auto simp: getBlob_def)
qed

end

section \<open>Both stores meet it\<close>

definition inmem_blobs_ok :: "inMemBlobStore \<Rightarrow> bool" where
  "inmem_blobs_ok s \<longleftrightarrow> set (map fst (blobs s)) \<subseteq> itoa ` {..<count s}"

interpretation inmem_blobs: blob_store inmem_Create inmem_Read inmem_blobs_ok
proof unfold_locales
  fix s q i d p ct input r s'
  assume *: "inmem_blobs_ok s" "inmem_Create p ct input s = (r, s')" "inmem_Read q i s = Inr d"
  have "i \<in> set (map fst (blobs s))"
    using *(3) by (auto simp: inmem_Read_def split: option.splits dest: map_of_in_keys)
  then have "i \<noteq> itoa (count s)"
    using *(1) by (auto simp: inmem_blobs_ok_def itoa_inj)
  then show "inmem_Read q i s' = Inr d"
    using *(2,3) by (auto simp: inmem_Create_def inmem_Read_def Let_def update_conv split: option.splits)
next
  fix s p ct input r s'
  assume *: "inmem_blobs_ok s" "inmem_Create p ct input s = (r, s')"
  have keys: "set (map fst (AList.update k d al)) \<subseteq> insert k (set (map fst al))" for k d and al :: "(string \<times> string) list"
    by (induction al) auto
  have "itoa ` {..<Suc (count s)} = insert (itoa (count s)) (itoa ` {..<count s})"
    by (simp add: lessThan_Suc)
  moreover have "count s' = Suc (count s)"
    and "set (map fst (blobs s')) \<subseteq> insert (itoa (count s)) (set (map fst (blobs s)))"
    using *(2) keys [of "itoa (count s)" _ "blobs s"]
    by (cases input; auto simp: inmem_Create_def Let_def simp del: set_map)+
  ultimately show "inmem_blobs_ok s'"
    using *(1) unfolding inmem_blobs_ok_def by auto
qed (auto simp: inmem_Create_def inmem_Read_def Let_def update_conv)

definition sql_blobs_ok :: "sqlBlobStore \<Rightarrow> bool" where
  "sql_blobs_ok s \<longleftrightarrow> (\<forall>n. \<not> blobFault s n)"

lemma find_append: "List.find P (xs @ ys) = (case List.find P xs of None \<Rightarrow> List.find P ys | Some x \<Rightarrow> Some x)"
  by (induction xs) auto

lemma find_fresh: "k \<notin> blobId ` set rows \<Longrightarrow> List.find (\<lambda>r. blobId r = k) rows = None"
  by (auto simp: find_None_iff)

interpretation sql_blobs: blob_store sqlblob_Create sqlblob_Read sql_blobs_ok
proof unfold_locales
  fix s p ct d b s' q
  assume "sql_blobs_ok s" "sqlblob_Create p ct (Some d) s = (Inr b, s')"
  then show "ContentType_blob b = ct \<and> Length_blob b = int (length d) \<and> sqlblob_Read q (ID_blob b) s' = Inr d"
    by (auto simp: sqlblob_Create_def sqlblob_Read_def blob_insert_def next_random_def sql_blobs_ok_def Let_def
        find_append find_fresh split: sum.splits if_splits option.splits)
next
  fix s q i d p ct input r s'
  assume "sql_blobs_ok s" "sqlblob_Create p ct input s = (r, s')" "sqlblob_Read q i s = Inr d"
  then show "sqlblob_Read q i s' = Inr d"
    by (auto simp: sqlblob_Create_def sqlblob_Read_def blob_insert_def next_random_def sql_blobs_ok_def Let_def
        find_append split: sum.splits if_splits option.splits)
qed (auto simp: sqlblob_Create_def blob_insert_def next_random_def sql_blobs_ok_def Let_def
      split: sum.splits if_splits option.splits)

section \<open>What is stored can be fetched\<close>

text \<open>A blob that the in-memory store accepted over HTTP has the content type of the request and
  the length of its body, and every later fetch of its identifier, under any prefix and after any
  further creations, successful or not, answers that body.\<close>

theorem inmem_blob_roundtrip:
  assumes "createBlob inmem_Create ct p body (fold (\<lambda>(p, ct, input) s. snd (inmem_Create p ct input s)) before NewInMemBlobStore)
    = (BlobCreated b, s)"
  shows "\<exists>d. body = Some d \<and> ContentType_blob b = ct \<and> Length_blob b = int (length d) \<and>
    getBlob inmem_Read q (ID_blob b) None (fold (\<lambda>(p, ct, input) s. snd (inmem_Create p ct input s)) after s) = BlobContent d"
  by (rule inmem_blobs.api_roundtrip [OF inmem_blobs.fold_inv assms])
    (simp add: inmem_blobs_ok_def NewInMemBlobStore_def)

theorem inmem_blob_roundtrip_witness:
  "\<exists>d. Some ''payload'' = Some d \<and> ContentType_blob \<lparr>ID_blob = ''1'', ContentType_blob = ''text/plain'', Length_blob = 7\<rparr> = ''text/plain'' \<and>
    Length_blob \<lparr>ID_blob = ''1'', ContentType_blob = ''text/plain'', Length_blob = 7\<rparr> = int (length d) \<and>
    getBlob inmem_Read ''p'' (ID_blob \<lparr>ID_blob = ''1'', ContentType_blob = ''text/plain'', Length_blob = 7\<rparr>) None
      (fold (\<lambda>(p, ct, input) s. snd (inmem_Create p ct input s)) [(''p'', ''c'', Some ''x'')]
        \<lparr>blobs = [(''0'', ''x''), (''1'', ''payload'')], count = 2\<rparr>) = BlobContent d"
  by (rule inmem_blob_roundtrip [where before = "[(''p'', ''c'', Some ''x'')]" and p = "''p''"]) code_simp

text \<open>The same of the SQL store, as long as no statement fails, and whatever identifiers the random
  source gives: a repeated one makes the creation fail, it never replaces a blob.\<close>

theorem sql_blob_roundtrip:
  assumes "\<And>n. \<not> faults n"
    and "createBlob sqlblob_Create ct p body
      (fold (\<lambda>(p, ct, input) s. snd (sqlblob_Create p ct input s)) before (NewSQLBlobStore rs faults)) = (BlobCreated b, s)"
  shows "\<exists>d. body = Some d \<and> ContentType_blob b = ct \<and> Length_blob b = int (length d) \<and>
    getBlob sqlblob_Read q (ID_blob b) None (fold (\<lambda>(p, ct, input) s. snd (sqlblob_Create p ct input s)) after s) = BlobContent d"
  by (rule sql_blobs.api_roundtrip [OF sql_blobs.fold_inv assms(2)])
    (simp add: sql_blobs_ok_def NewSQLBlobStore_def assms(1))

definition demo_random :: "nat \<Rightarrow> UUID option" where
  "demo_random n = Some (replicate 16 (of_nat n))"

theorem sql_blob_roundtrip_witness:
  "\<exists>b s. createBlob sqlblob_Create ''text/plain'' ''p'' (Some ''payload'') (NewSQLBlobStore demo_random (\<lambda>_. False)) = (BlobCreated b, s) \<and>
    getBlob sqlblob_Read ''p'' (ID_blob b) None (snd (sqlblob_Create ''p'' ''c'' (Some ''x'') s)) = BlobContent ''payload''"
proof -
  obtain b s where created: "createBlob sqlblob_Create ''text/plain'' ''p'' (Some ''payload'')
      (NewSQLBlobStore demo_random (\<lambda>_. False)) = (BlobCreated b, s)"
    by (simp add: createBlob_def sqlblob_Create_def NewSQLBlobStore_def demo_random_def uuid_NewRandom_def blob_insert_def
        next_random_def)
  have "getBlob sqlblob_Read ''p'' (ID_blob b) None (snd (sqlblob_Create ''p'' ''c'' (Some ''x'') s)) = BlobContent ''payload''"
    using sql_blob_roundtrip [of "\<lambda>_. False" "''text/plain''" "''p''" "Some ''payload''" "[]" demo_random b s "''p''"
        "[(''p'', ''c'', Some ''x'')]"] created by simp
  with created show ?thesis
    by blast
qed

end
