(* ===== verification/Executor.thy ===== *)
theory Executor
  imports Blob_Store Flow_Api
begin

text \<open>
  The executor of \<^verbatim>\<open>src/actor/executor.go\<close>: it turns the invocation messages of the graph actors
  into HTTP requests to the functions platform and the HTTP responses into the answers that
  complete stages. The platform (\<open>call\<close>, the client's \<^verbatim>\<open>Do\<close>: \<open>None\<close> is an error), the JSON codec
  (\<open>marshal\<close>, \<open>unmarshal\<close>), the parser of URLs (\<open>url_ok\<close>) and the operations of the blob store are
  parameters. The handlers run in goroutines that nobody recovers: \<open>Inl\<close> is a panic, which ends
  the process.
\<close>

section \<open>HTTP messages\<close>

text \<open>\<^verbatim>\<open>http.Header\<close>: a map from names to lists of values; the order of the list is the order in which
  \<^verbatim>\<open>range\<close> happens to visit it.\<close>

type_synonym header = "(string \<times> string list) list"

record HttpRequest =
  reqMethod :: string
  reqURL :: string
  reqHeader :: header
  reqBody :: string

text \<open>\<open>rspBody\<close> is \<open>None\<close> if reading the body fails.\<close>

record HttpResponse =
  StatusCode :: int
  rspHeader :: header
  rspBody :: "string option"

definition token_chars :: string where
  "token_chars = ''abcdefghijklmnopqrstuvwxyzABCDEFGHIJKLMNOPQRSTUVWXYZ0123456789!#$%&'*+-.^_|~'' @ [char_of (96::nat)]"

definition is_token :: "string \<Rightarrow> bool" where
  "is_token s \<longleftrightarrow> list_all (\<lambda>c. c \<in> set token_chars) s"

text \<open>The first letter and every letter after a hyphen is upper case, all others are lower case.\<close>

fun canonical_from :: "bool \<Rightarrow> string \<Rightarrow> string" where
  "canonical_from upper [] = []"
| "canonical_from upper (c # s) = (if upper then ToUpper [c] else ToLower [c]) @ canonical_from (c = CHR ''-'') s"

definition CanonicalMIMEHeaderKey :: "string \<Rightarrow> string" where
  "CanonicalMIMEHeaderKey s = (if is_token s then canonical_from True s else s)"

definition header_values_of :: "header \<Rightarrow> string \<Rightarrow> string list" where
  "header_values_of h k = (case map_of h (CanonicalMIMEHeaderKey k) of None \<Rightarrow> [] | Some vs \<Rightarrow> vs)"

definition header_Get :: "header \<Rightarrow> string \<Rightarrow> string" where
  "header_Get h k = (case header_values_of h k of [] \<Rightarrow> '''' | v # _ \<Rightarrow> v)"

definition header_Set :: "string \<Rightarrow> string \<Rightarrow> header \<Rightarrow> header" where
  "header_Set k v h = AList.update (CanonicalMIMEHeaderKey k) [v] h"

definition header_Add :: "string \<Rightarrow> string \<Rightarrow> header \<Rightarrow> header" where
  "header_Add k v h = AList.update (CanonicalMIMEHeaderKey k) (header_values_of h k @ [v]) h"

text \<open>\<^verbatim>\<open>http.NewRequest\<close>: no method means \<^verbatim>\<open>GET\<close>; a method that is not a token and a URL that does not
  parse are errors, and then the request is nil.\<close>

definition http_NewRequest :: "(string \<Rightarrow> bool) \<Rightarrow> string \<Rightarrow> string \<Rightarrow> string \<Rightarrow> HttpRequest option" where
  "http_NewRequest url_ok m url body =
     (let m = (if m = '''' then ''GET'' else m) in
      if is_token m \<and> url_ok url
      then Some \<lparr>reqMethod = m, reqURL = url, reqHeader = [], reqBody = body\<rparr> else None)"

section \<open>Invoking a stage\<close>

text \<open>What a handler does besides answering: it moves the gauge of active calls and calls the
  platform.\<close>

datatype exec_effect = ActiveCalls int | CallFunction HttpRequest

record RuntimeInvokeStageRequest =
  RtFlowId :: flow_id
  RtStageId :: stage_id
  RtArgs :: "CompletionResult list"
  RtClosure :: "BlobDatum option"

definition HeaderFlowID :: string where "HeaderFlowID = ''Fnproject-FlowId''"

definition HeaderStageRef :: string where "HeaderStageRef = ''Fnproject-Stageid''"

definition fnCallIDHeader :: string where "fnCallIDHeader = ''Fn_call_id''"

definition successfulResponse :: "HttpResponse \<Rightarrow> bool" where
  "successfulResponse resp \<longleftrightarrow> StatusCode resp \<ge> 200 \<and> StatusCode resp < 400"

definition stageFailed ::
  "function_id \<Rightarrow> flow_id \<Rightarrow> stage_id \<Rightarrow> ErrorDatumType \<Rightarrow> string \<Rightarrow> string \<Rightarrow> Command" where
  "stageFailed fn f sid errorType errorMessage callID =
     FaasInvocationResponse f sid fn (Some (NewInternalErrorResult errorType errorMessage)) callID"

text \<open>The answer to a response of the platform. \<open>unmarshal\<close> is \<open>None\<close> on an error, and the result it
  reads may be missing.\<close>

definition stage_response ::
  "(string \<Rightarrow> CompletionResult option option) \<Rightarrow> function_id \<Rightarrow> flow_id \<Rightarrow> stage_id \<Rightarrow> HttpResponse \<Rightarrow> Command" where
  "stage_response unmarshal fn f sid resp =
     (let callID = header_Get (rspHeader resp) fnCallIDHeader in
      if \<not> successfulResponse resp then
        (if StatusCode resp = 504
         then FaasInvocationResponse f sid fn (Some (NewInternalErrorResult Err_stage_timeout ''stage timed out'')) callID
         else stageFailed fn f sid Err_stage_failed
                (''Invalid http response from functions platform code '' @ itoa_int (StatusCode resp)) callID)
      else case Option.bind (rspBody resp) unmarshal of
             None \<Rightarrow> stageFailed fn f sid Err_invalid_stage_response ''Failed to read result from functions service'' callID
           | Some None \<Rightarrow> stageFailed fn f sid Err_invalid_stage_response ''Empty result from functions service'' callID
           | Some (Some r) \<Rightarrow> FaasInvocationResponse f sid fn (Some r) callID)"

definition HandleInvokeStage ::
  "(RuntimeInvokeStageRequest \<Rightarrow> string option) \<Rightarrow> (string \<Rightarrow> CompletionResult option option) \<Rightarrow> (string \<Rightarrow> bool) \<Rightarrow>
   (HttpRequest \<Rightarrow> HttpResponse option) \<Rightarrow> string \<Rightarrow>
   function_id \<Rightarrow> flow_id \<Rightarrow> stage_id \<Rightarrow> CompletionResult list \<Rightarrow> BlobDatum option \<Rightarrow>
   panic_reason + (Command \<times> exec_effect list)" where
  "HandleInvokeStage marshal unmarshal url_ok call faasAddr fn f sid args cl =
     (case marshal \<lparr>RtFlowId = f, RtStageId = sid, RtArgs = args, RtClosure = cl\<rparr> of
        None \<Rightarrow> Inr (stageFailed fn f sid Err_stage_failed
                       ''Could not marshal the runtime invoke stage request message.'' '''', [])
      | Some buf \<Rightarrow>
          (case http_NewRequest url_ok ''POST'' (faasAddr @ ''/'' @ fn) buf of
             None \<Rightarrow> Inl NilDereference
           | Some req \<Rightarrow>
               (let req = req\<lparr>reqHeader := header_Set HeaderStageRef sid
                     (header_Set HeaderFlowID f (header_Set ''Content-type'' ''application/json'' (reqHeader req)))\<rparr>;
                    effects = [ActiveCalls 1, CallFunction req, ActiveCalls (- 1)]
                in case call req of
                     None \<Rightarrow>
                       Inr (stageFailed fn f sid Err_stage_failed
                         ''HTTP error on stage invocation: Can the flow service talk to the functions server?'' '''', effects)
                   | Some resp \<Rightarrow> Inr (stage_response unmarshal fn f sid resp, effects))))"

section \<open>Invoking a function\<close>

definition invokeFailed :: "function_id \<Rightarrow> flow_id \<Rightarrow> stage_id \<Rightarrow> string \<Rightarrow> string \<Rightarrow> Command" where
  "invokeFailed fn f sid errorMessage callID =
     FaasInvocationResponse f sid fn (Some (NewInternalErrorResult Err_function_invoke_failed errorMessage)) callID"

text \<open>The headers of a response but its content type, one entry for each value.\<close>

definition response_headers :: "header \<Rightarrow> HTTPHeader list" where
  "response_headers h =
     concat (map (\<lambda>(k, vs). if CanonicalMIMEHeaderKey k = ''Content-Type'' then [] else map (HTTPHeader k) vs) h)"

definition int32 :: "int \<Rightarrow> int" where
  "int32 x = (x + 2 ^ 31) mod 2 ^ 32 - 2 ^ 31"

text \<open>The body of a response becomes a blob; \<open>s\<close> is the state of the blob store.\<close>

definition function_response ::
  "(string \<Rightarrow> string \<Rightarrow> string option \<Rightarrow> 's \<Rightarrow> (blob_error + Blob) \<times> 's) \<Rightarrow>
   function_id \<Rightarrow> flow_id \<Rightarrow> stage_id \<Rightarrow> HttpResponse \<Rightarrow> 's \<Rightarrow> Command \<times> 's" where
  "function_response create fn f sid resp s =
     (let callID = header_Get (rspHeader resp) fnCallIDHeader;
          contentType = (let ct = header_Get (rspHeader resp) ''Content-type'' in
            if ct = '''' then ''application/octet-stream'' else ct)
      in case create f contentType (rspBody resp) s of
           (Inl err, s') \<Rightarrow> (invokeFailed fn f sid ''Failed to persist HTTP response data'' callID, s')
         | (Inr blob, s') \<Rightarrow>
             (FaasInvocationResponse f sid fn
                (Some \<lparr>Successful = successfulResponse resp,
                       ResultDatum = Some (Datum (Some (Datum_HttpResp
                         \<lparr>RespBody = Some (BlobDatumFromBlobStoreBlob blob),
                          RespHeaders = response_headers (rspHeader resp),
                          RespStatusCode = int32 (StatusCode resp)\<rparr>)))\<rparr>) callID, s'))"

text \<open>The request for the platform, or the message of the failure to make one.\<close>

definition function_request ::
  "(string \<Rightarrow> string \<Rightarrow> 's \<Rightarrow> blob_error + string) \<Rightarrow> (string \<Rightarrow> bool) \<Rightarrow> string \<Rightarrow> flow_id \<Rightarrow> HTTPReqDatum \<Rightarrow> 's \<Rightarrow>
   string + HttpRequest" where
  "function_request read url_ok url f datum s =
     (case (case ReqBody datum of None \<Rightarrow> Inr '''' | Some b \<Rightarrow> read f (BlobId b) s) of
        Inl err \<Rightarrow> Inl ''Failed to read data for invocation''
      | Inr body \<Rightarrow>
          (case http_NewRequest url_ok (ToUpper (ToUpper (HTTPMethod_name (ReqMethod datum)))) url body of
             None \<Rightarrow> Inl ''Failed to create HTTP request''
           | Some req \<Rightarrow>
               (let h = (case ReqBody datum of None \<Rightarrow> reqHeader req
                         | Some b \<Rightarrow> header_Set ''Content-Type'' (ContentType b) (reqHeader req))
                in Inr (req\<lparr>reqHeader := fold (\<lambda>x. header_Add (HeaderKey x) (HeaderValue x)) (ReqHeaders datum) h\<rparr>))))"

definition HandleInvokeFunction ::
  "(string \<Rightarrow> string \<Rightarrow> string option \<Rightarrow> 's \<Rightarrow> (blob_error + Blob) \<times> 's) \<Rightarrow> (string \<Rightarrow> string \<Rightarrow> 's \<Rightarrow> blob_error + string) \<Rightarrow>
   (string \<Rightarrow> bool) \<Rightarrow> (HttpRequest \<Rightarrow> HttpResponse option) \<Rightarrow> string \<Rightarrow>
   function_id \<Rightarrow> flow_id \<Rightarrow> stage_id \<Rightarrow> HTTPReqDatum option \<Rightarrow> 's \<Rightarrow>
   panic_reason + (Command \<times> exec_effect list \<times> 's)" where
  "HandleInvokeFunction create read url_ok call faasAddr fn f sid arg s =
     (case arg of
        None \<Rightarrow> Inl NilDereference
      | Some datum \<Rightarrow>
          (case function_request read url_ok (faasAddr @ ''/'' @ fn) f datum s of
             Inl message \<Rightarrow> Inr (invokeFailed fn f sid message '''', [], s)
           | Inr req \<Rightarrow>
               (let effects = [ActiveCalls 1, CallFunction req, ActiveCalls (- 1)]
                in case call req of
                     None \<Rightarrow> Inr (invokeFailed fn f sid ''Failed to call function'' '''', effects, s)
                   | Some resp \<Rightarrow>
                       (case function_response create fn f sid resp s of
                          (answer, s') \<Rightarrow> Inr (answer, effects, s')))))"

text \<open>\<^verbatim>\<open>Receive\<close>: the answer goes to the sender; other messages are ignored.\<close>

definition exec_Receive ::
  "(RuntimeInvokeStageRequest \<Rightarrow> string option) \<Rightarrow> (string \<Rightarrow> CompletionResult option option) \<Rightarrow>
   (string \<Rightarrow> string \<Rightarrow> string option \<Rightarrow> 's \<Rightarrow> (blob_error + Blob) \<times> 's) \<Rightarrow> (string \<Rightarrow> string \<Rightarrow> 's \<Rightarrow> blob_error + string) \<Rightarrow>
   (string \<Rightarrow> bool) \<Rightarrow> (HttpRequest \<Rightarrow> HttpResponse option) \<Rightarrow> string \<Rightarrow>
   Effect \<Rightarrow> 's \<Rightarrow> panic_reason + (Command option \<times> exec_effect list \<times> 's)" where
  "exec_Receive marshal unmarshal create read url_ok call faasAddr msg s =
     (case msg of
        InvokeStageRequest fn f sid args cl \<Rightarrow>
          map_sum id (\<lambda>(answer, effects). (Some answer, effects, s))
            (HandleInvokeStage marshal unmarshal url_ok call faasAddr fn f sid args cl)
      | InvokeFunctionRequest f sid fn arg \<Rightarrow>
          map_sum id (\<lambda>(answer, effects, s). (Some answer, effects, s))
            (HandleInvokeFunction create read url_ok call faasAddr fn f sid arg s)
      | _ \<Rightarrow> Inr (None, [], s))"

section \<open>Every invocation is answered\<close>

lemma http_NewRequest_URL: "http_NewRequest url_ok m url body = Some req \<Longrightarrow> reqURL req = url \<and> reqBody req = body"
  by (auto simp: http_NewRequest_def Let_def split: if_splits)

lemma is_token_POST [simp]: "is_token ''POST''"
  by code_simp

lemma stage_response_answers:
  "\<exists>r c. stage_response unmarshal fn f sid resp = FaasInvocationResponse f sid fn (Some r) c \<and>
     (Successful r \<longrightarrow> successfulResponse resp)"
  by (auto simp: stage_response_def stageFailed_def Let_def split: option.splits)

lemma function_response_answers:
  "\<exists>r c s'. function_response create fn f sid resp s = (FaasInvocationResponse f sid fn (Some r) c, s') \<and>
     (Successful r \<longrightarrow> successfulResponse resp)"
  by (auto simp: function_response_def invokeFailed_def Let_def split: prod.splits sum.splits)

text \<open>The answer of an invocation: its gauge is back where it was, the function was called at most
  once, and success is the platform's.\<close>

definition answers_invocation ::
  "(HttpRequest \<Rightarrow> HttpResponse option) \<Rightarrow> string \<Rightarrow> CompletionResult \<Rightarrow> exec_effect list \<Rightarrow> bool" where
  "answers_invocation call url r effects \<longleftrightarrow>
     (effects = [] \<and> \<not> Successful r \<or>
      (\<exists>req. effects = [ActiveCalls 1, CallFunction req, ActiveCalls (- 1)] \<and> reqURL req = url \<and>
         (Successful r \<longrightarrow> (\<exists>resp. call req = Some resp \<and> successfulResponse resp))))"

lemma HandleInvokeStage_answers:
  assumes "url_ok (faasAddr @ ''/'' @ fn)"
  shows "\<exists>r c effects. HandleInvokeStage marshal unmarshal url_ok call faasAddr fn f sid args cl =
      Inr (FaasInvocationResponse f sid fn (Some r) c, effects) \<and> answers_invocation call (faasAddr @ ''/'' @ fn) r effects"
proof -
  have "http_NewRequest url_ok ''POST'' (faasAddr @ ''/'' @ fn) buf =
      Some \<lparr>reqMethod = ''POST'', reqURL = faasAddr @ ''/'' @ fn, reqHeader = [], reqBody = buf\<rparr>" for buf
    using assms by (simp add: http_NewRequest_def)
  then show ?thesis
    using stage_response_answers [of unmarshal fn f sid]
    by (fastforce simp: HandleInvokeStage_def stageFailed_def answers_invocation_def Let_def split: option.splits)
qed

lemma function_request_URL: "function_request read url_ok url f datum s = Inr req \<Longrightarrow> reqURL req = url"
  by (auto simp: function_request_def Let_def dest: http_NewRequest_URL split: sum.splits option.splits)

lemma HandleInvokeFunction_answers:
  "\<exists>r c effects s'. HandleInvokeFunction create read url_ok call faasAddr fn f sid (Some arg) s =
      Inr (FaasInvocationResponse f sid fn (Some r) c, effects, s') \<and> answers_invocation call (faasAddr @ ''/'' @ fn) r effects"
proof (cases "function_request read url_ok (faasAddr @ ''/'' @ fn) f arg s")
  case (Inl message)
  then show ?thesis
    by (simp add: HandleInvokeFunction_def invokeFailed_def answers_invocation_def)
next
  case (Inr req)
  show ?thesis
  proof (cases "call req")
    case None
    then show ?thesis
      using Inr function_request_URL [OF Inr] by (simp add: HandleInvokeFunction_def invokeFailed_def answers_invocation_def)
  next
    case (Some resp)
    then show ?thesis
      using Inr function_request_URL [OF Inr] function_response_answers [of create fn f sid resp s]
      by (auto simp: HandleInvokeFunction_def answers_invocation_def)
  qed
qed

text \<open>Every invocation that a flow requests is answered, whatever the platform, the codec and the blob
  store do: the answer names the flow, the stage and the function of the request and carries a
  result; the result is successful only if the platform answered with a status from 200 to 399; the
  function is called at most once, at its own URL, and the gauge of active calls ends where it was.\<close>

theorem executor_answers:
  assumes "msg = InvokeStageRequest fn f sid args cl \<and> url_ok (faasAddr @ ''/'' @ fn) \<or>
    msg = InvokeFunctionRequest f sid fn (Some arg)"
  shows "\<exists>r c effects s'. exec_Receive marshal unmarshal create read url_ok call faasAddr msg s =
      Inr (Some (FaasInvocationResponse f sid fn (Some r) c), effects, s') \<and>
    (effects = [] \<and> \<not> Successful r \<or>
     (\<exists>req. effects = [ActiveCalls 1, CallFunction req, ActiveCalls (- 1)] \<and> reqURL req = faasAddr @ ''/'' @ fn \<and>
        (Successful r \<longrightarrow> (\<exists>resp. call req = Some resp \<and> 200 \<le> StatusCode resp \<and> StatusCode resp < 400))))"
  using assms HandleInvokeStage_answers [of url_ok faasAddr fn marshal unmarshal call f sid args cl]
    HandleInvokeFunction_answers [of create read url_ok call faasAddr fn f sid arg s]
  by (fastforce simp: exec_Receive_def answers_invocation_def successfulResponse_def)

definition demo_call :: "HttpRequest \<Rightarrow> HttpResponse option" where
  "demo_call req =
     (if reqURL req = ''http://fn/app'' then Some \<lparr>StatusCode = 200, rspHeader = [(''Fn_call_id'', [''c1''])], rspBody = Some ''out''\<rparr>
      else None)"

definition demo_arg :: HTTPReqDatum where
  "demo_arg = \<lparr>ReqBody = None, ReqHeaders = [], ReqMethod = Method_post\<rparr>"

theorem executor_answers_witness:
  "\<exists>r c effects s'. exec_Receive (\<lambda>_. None) (\<lambda>_. None) inmem_Create inmem_Read (\<lambda>_. True) demo_call ''http://fn''
      (InvokeFunctionRequest ''flow'' ''0'' ''app'' (Some demo_arg)) NewInMemBlobStore =
      Inr (Some (FaasInvocationResponse ''flow'' ''0'' ''app'' (Some r) c), effects, s') \<and> Successful r"
proof -
  have run: "exec_Receive (\<lambda>_. None) (\<lambda>_. None) inmem_Create inmem_Read (\<lambda>_. True) demo_call ''http://fn''
      (InvokeFunctionRequest ''flow'' ''0'' ''app'' (Some demo_arg)) NewInMemBlobStore =
    Inr (Some (FaasInvocationResponse ''flow'' ''0'' ''app''
      (Some \<lparr>Successful = True, ResultDatum = Some (Datum (Some (Datum_HttpResp
        \<lparr>RespBody = Some \<lparr>BlobId = ''0'', ContentType = ''application/octet-stream'', Length = 3\<rparr>,
         RespHeaders = [HTTPHeader ''Fn_call_id'' ''c1''], RespStatusCode = 200\<rparr>)))\<rparr>) ''c1''),
      [ActiveCalls 1, CallFunction \<lparr>reqMethod = ''POST'', reqURL = ''http://fn/app'', reqHeader = [], reqBody = ''''\<rparr>,
       ActiveCalls (- 1)], \<lparr>blobs = [(''0'', ''out'')], count = 1\<rparr>)"
    by code_simp
  show ?thesis
    using executor_answers [of "InvokeFunctionRequest ''flow'' ''0'' ''app'' (Some demo_arg)" "''app''" "''flow''" "''0''" _ _
        "\<lambda>_. True" "''http://fn''" demo_arg "\<lambda>_. None" "\<lambda>_. None" inmem_Create inmem_Read demo_call NewInMemBlobStore] run
    by simp
qed

text \<open>The only way in which an invocation ends the process: the executor ignores the error of
  \<^verbatim>\<open>http.NewRequest\<close> when it invokes a stage, so a URL that does not parse, and a function invocation
  without an argument, dereference nil in a goroutine that nobody recovers.\<close>

theorem executor_crashes_iff:
  "exec_Receive marshal unmarshal create read url_ok call faasAddr msg s = Inl p \<longleftrightarrow>
     p = NilDereference \<and>
     ((\<exists>fn f sid args cl. msg = InvokeStageRequest fn f sid args cl \<and> \<not> url_ok (faasAddr @ ''/'' @ fn) \<and>
         marshal \<lparr>RtFlowId = f, RtStageId = sid, RtArgs = args, RtClosure = cl\<rparr> \<noteq> None) \<or>
      (\<exists>f sid fn. msg = InvokeFunctionRequest f sid fn None))"
proof (cases msg)
  case (InvokeStageRequest fn f sid args cl)
  then show ?thesis
    by (cases "marshal \<lparr>RtFlowId = f, RtStageId = sid, RtArgs = args, RtClosure = cl\<rparr>"; cases "url_ok (faasAddr @ ''/'' @ fn)")
      (auto simp: exec_Receive_def HandleInvokeStage_def http_NewRequest_def Let_def split: option.splits)
next
  case (InvokeFunctionRequest f sid fn arg)
  then show ?thesis
    using HandleInvokeFunction_answers [of create read url_ok call faasAddr fn f sid "the arg" s]
    by (cases arg) (auto simp: exec_Receive_def HandleInvokeFunction_def)
qed (auto simp: exec_Receive_def)

section \<open>Data passes unchanged\<close>

context blob_store
begin

text \<open>The body of a function's response is what a later invocation that is given the result's blob
  sends as its own body.\<close>

lemma response_feeds_request:
  assumes "inv s" and "function_response create fn f sid resp s = (FaasInvocationResponse f sid fn (Some r) c, s')"
    and "ResultDatum r = Some (Datum (Some (Datum_HttpResp rd)))"
    and "function_request read url_ok url g arg (fold (\<lambda>(p, ct, input) s. snd (create p ct input s)) cs s') = Inr req"
    and "ReqBody arg = RespBody rd"
  shows "rspBody resp = Some (reqBody req) \<and> RespStatusCode rd = int32 (StatusCode resp)"
proof -
  obtain ct blob where made: "create f ct (rspBody resp) s = (Inr blob, s')"
      and rd: "RespBody rd = Some (BlobDatumFromBlobStoreBlob blob)" "RespStatusCode rd = int32 (StatusCode resp)"
    using assms(2,3)
    by (auto simp: function_response_def invokeFailed_def NewInternalErrorResult_def Let_def split: prod.splits sum.splits)
  obtain d where d: "rspBody resp = Some d"
    using made create_input by (cases "rspBody resp") auto
  have "read g (ID_blob blob) (fold (\<lambda>(p, ct, input) s. snd (create p ct input s)) cs s') = Inr d"
    using fold_keeps [OF create_inv [OF assms(1) made], of g "ID_blob blob" d cs] create_reads [OF assms(1), of f ct d blob s' g]
      made d by simp
  then have "reqBody req = d"
    using assms(4,5) rd(1)
    by (auto simp: function_request_def BlobDatumFromBlobStoreBlob_def Let_def dest: http_NewRequest_URL split: option.splits)
  with d rd(2) show ?thesis
    by simp
qed

lemma function_feeds_function:
  assumes "inv s"
    and "exec_Receive m u create read url_ok call addr (InvokeFunctionRequest f sid fn arg) s = Inr (Some answer, effects, s')"
    and "answer = FaasInvocationResponse f sid fn (Some r) c" and "ResultDatum r = Some (Datum (Some (Datum_HttpResp rd)))"
    and "exec_Receive m u create read url_ok call addr (InvokeFunctionRequest g k h (Some arg'))
      (fold (\<lambda>(p, ct, input) s. snd (create p ct input s)) cs s') = Inr (answer', effects', s'')"
    and "ReqBody arg' = RespBody rd" and "CallFunction req' \<in> set effects'"
  shows "\<exists>req resp. CallFunction req \<in> set effects \<and> call req = Some resp \<and> rspBody resp = Some (reqBody req') \<and>
    RespStatusCode rd = int32 (StatusCode resp)"
proof -
  obtain req resp where call: "CallFunction req \<in> set effects" "call req = Some resp"
      and rsp: "function_response create fn f sid resp s = (answer, s')"
    using assms(2-4)
    by (auto simp: exec_Receive_def HandleInvokeFunction_def invokeFailed_def NewInternalErrorResult_def Let_def
        split: option.splits sum.splits prod.splits)
  have "function_request read url_ok (addr @ ''/'' @ h) g arg' (fold (\<lambda>(p, ct, input) s. snd (create p ct input s)) cs s') = Inr req'"
    using assms(5,7)
    by (auto simp: exec_Receive_def HandleInvokeFunction_def Let_def split: option.splits sum.splits prod.splits)
  from response_feeds_request [OF assms(1) rsp [unfolded assms(3)] assms(4) this assms(6)] call show ?thesis
    by auto
qed

end

text \<open>C32: The body of a function's response reaches the next function byte by byte. The first
  invocation's answer carries a blob; an invocation that is later given that blob sends to the
  platform exactly what the first function returned, whatever else was stored in between, and the
  answer has the status of the response.\<close>

theorem function_data_preserved:
  assumes "\<And>n. \<not> faults n"
    and "exec_Receive m u sqlblob_Create sqlblob_Read url_ok call addr (InvokeFunctionRequest f sid fn arg)
      (fold (\<lambda>(p, ct, input) s. snd (sqlblob_Create p ct input s)) before (NewSQLBlobStore rs faults)) = Inr (Some answer, effects, s)"
    and "answer = FaasInvocationResponse f sid fn (Some r) c" and "ResultDatum r = Some (Datum (Some (Datum_HttpResp rd)))"
    and "exec_Receive m u sqlblob_Create sqlblob_Read url_ok call addr (InvokeFunctionRequest g k h (Some arg'))
      (fold (\<lambda>(p, ct, input) s. snd (sqlblob_Create p ct input s)) after s) = Inr (answer', effects', s')"
    and "ReqBody arg' = RespBody rd" and "CallFunction req' \<in> set effects'"
  shows "\<exists>req resp. CallFunction req \<in> set effects \<and> call req = Some resp \<and> rspBody resp = Some (reqBody req') \<and>
    RespStatusCode rd = int32 (StatusCode resp)"
proof -
  have "sql_blobs_ok (NewSQLBlobStore rs faults)"
    using assms(1) by (simp add: sql_blobs_ok_def NewSQLBlobStore_def)
  from sql_blobs.function_feeds_function [OF sql_blobs.fold_inv [OF this] assms(2-7)] show ?thesis .
qed


lemma demo_request:
  "function_request read (\<lambda>_. True) ''http://fn/app'' f demo_arg s =
     Inr \<lparr>reqMethod = ''POST'', reqURL = ''http://fn/app'', reqHeader = [], reqBody = ''''\<rparr>"
proof -
  have "ToUpper (ToUpper ''post'') = ''POST''"
    by code_simp
  then show ?thesis
    by (simp add: function_request_def demo_arg_def http_NewRequest_def)
qed

lemma demo_headers:
  "header_Get [(''Fn_call_id'', [''c1''])] fnCallIDHeader = ''c1''" "header_Get [(''Fn_call_id'', [''c1''])] ''Content-type'' = ''''"
  "response_headers [(''Fn_call_id'', [''c1''])] = [HTTPHeader ''Fn_call_id'' ''c1'']"
  by code_simp+

theorem function_data_preserved_witness:
  "\<exists>rd effects s answer' effects' s' req' req resp.
     exec_Receive (\<lambda>_. None) (\<lambda>_. None) sqlblob_Create sqlblob_Read (\<lambda>_. True) demo_call ''http://fn''
       (InvokeFunctionRequest ''flow'' ''0'' ''app'' (Some demo_arg)) (NewSQLBlobStore demo_random (\<lambda>_. False)) =
       Inr (Some (FaasInvocationResponse ''flow'' ''0'' ''app''
         (Some \<lparr>Successful = True, ResultDatum = Some (Datum (Some (Datum_HttpResp rd)))\<rparr>) ''c1''), effects, s) \<and>
     exec_Receive (\<lambda>_. None) (\<lambda>_. None) sqlblob_Create sqlblob_Read (\<lambda>_. True) demo_call ''http://fn''
       (InvokeFunctionRequest ''flow'' ''1'' ''app'' (Some (demo_arg\<lparr>ReqBody := RespBody rd\<rparr>))) s = Inr (answer', effects', s') \<and>
     CallFunction req' \<in> set effects' \<and> CallFunction req \<in> set effects \<and> demo_call req = Some resp \<and>
     rspBody resp = Some (reqBody req') \<and> RespStatusCode rd = int32 (StatusCode resp)"
proof -
  let ?run = "exec_Receive (\<lambda>_. None) (\<lambda>_. None) sqlblob_Create sqlblob_Read (\<lambda>_. True) demo_call ''http://fn''"
  obtain b s effects where first: "?run (InvokeFunctionRequest ''flow'' ''0'' ''app'' (Some demo_arg)) (NewSQLBlobStore demo_random (\<lambda>_. False)) =
      Inr (Some (FaasInvocationResponse ''flow'' ''0'' ''app'' (Some \<lparr>Successful = True, ResultDatum = Some (Datum (Some (Datum_HttpResp
        \<lparr>RespBody = Some b, RespHeaders = [HTTPHeader ''Fn_call_id'' ''c1''], RespStatusCode = 200\<rparr>)))\<rparr>) ''c1''), effects, s)"
      and stored: "sqlblob_Read ''flow'' (BlobId b) s = Inr ''out''"
    by (simp add: exec_Receive_def HandleInvokeFunction_def demo_request function_response_def demo_call_def demo_headers
        sqlblob_Create_def NewSQLBlobStore_def demo_random_def uuid_NewRandom_def blob_insert_def next_random_def
        successfulResponse_def int32_def BlobDatumFromBlobStoreBlob_def sqlblob_Read_def)
  let ?arg = "demo_arg\<lparr>ReqBody := Some b\<rparr>"
  obtain req' where req': "function_request sqlblob_Read (\<lambda>_. True) ''http://fn/app'' ''flow'' ?arg s = Inr req'"
  proof -
    have "ToUpper (ToUpper ''post'') = ''POST''"
      by code_simp
    with stored that show ?thesis
      by (simp add: function_request_def demo_arg_def http_NewRequest_def)
  qed
  then obtain answer' effects' s' where second: "?run (InvokeFunctionRequest ''flow'' ''1'' ''app'' (Some ?arg)) s = Inr (answer', effects', s')"
      and called: "CallFunction req' \<in> set effects'"
    using function_request_URL [OF req']
    by (cases "function_response sqlblob_Create ''app'' ''flow'' ''1'' (the (demo_call req')) s")
      (simp add: exec_Receive_def HandleInvokeFunction_def demo_call_def)
  let ?rd = "\<lparr>RespBody = Some b, RespHeaders = [HTTPHeader ''Fn_call_id'' ''c1''], RespStatusCode = 200\<rparr>"
  let ?r = "\<lparr>Successful = True, ResultDatum = Some (Datum (Some (Datum_HttpResp ?rd)))\<rparr>"
  have passed: "?run (InvokeFunctionRequest ''flow'' ''1'' ''app'' (Some (demo_arg\<lparr>ReqBody := RespBody ?rd\<rparr>))) s =
      Inr (answer', effects', s')"
    using second by simp
  obtain req resp where "CallFunction req \<in> set effects" "demo_call req = Some resp" "rspBody resp = Some (reqBody req')"
      "RespStatusCode ?rd = int32 (StatusCode resp)"
    using function_data_preserved [where faults = "\<lambda>_. False" and before = "[]" and after = "[]" and r = ?r and rd = ?rd
        and req' = req', simplified fold_simps id_apply, OF _ first refl _ passed _ called] by auto
  with first passed called show ?thesis
    by (intro exI conjI) assumption+
qed

end
