(* ===== verification/Invocation_Safety.thy ===== *)
theory Invocation_Safety
  imports Request_Validation Executor
begin

text \<open>
  The graph actor and the executor together: what validated requests make a flow's actor send to
  the executor never ends the process, and each invocation comes back as an answer to the flow.
\<close>

fun invocation_ok :: "Effect \<Rightarrow> bool" where
  "invocation_ok (InvokeStageRequest fn f sid args cl) = function_id_matches fn"
| "invocation_ok (InvokeFunctionRequest f sid fn arg) = (function_id_matches fn \<and> arg \<noteq> None)"
| "invocation_ok _ = True"

definition sound :: "graphActor \<Rightarrow> bool" where
  "sound s \<longleftrightarrow> function_id_matches (FunctionID s) \<and> list_all invocation_ok (outbox s)"

lemma background_ok: "background fn x \<Longrightarrow> function_id_matches fn \<Longrightarrow> invocation_ok x"
  by (cases x) auto

lemma quiet_sound: "quiet s t \<Longrightarrow> sound s \<Longrightarrow> sound t"
  by (auto simp: quiet_def sound_def list_all_iff intro: background_ok)

lemma sound_send [simp]: "sound (send x s) \<longleftrightarrow> sound s \<and> invocation_ok x"
  by (auto simp: sound_def send_def)

lemma sound_simps [simp]: "sound (next_order s) = sound s" "sound (scheduleDelay f k t s) = sound s"
  by (auto simp: sound_def next_order_def scheduleDelay_def send_def tick_def Let_def)

lemma sound_bind:
  assumes "keeps (=) quiet s r" and "sound s" and "\<And>u. wf_graph u \<Longrightarrow> sound u \<Longrightarrow> res_done sound (f u)"
  shows "res_done sound (bind_res r f)"
  using assms by (cases r) (auto intro: quiet_sound)

lemma sound_keeps: "keeps (=) quiet s r \<Longrightarrow> sound s \<Longrightarrow> res_done sound r"
  by (cases r) (auto intro: quiet_sound)

lemma process_sound:
  assumes "wf_graph s" and "flow_inv s" and "sound s" and "is_request cmd \<Longrightarrow> Validate cmd = None"
    and "\<not> is_CreateGraphRequest cmd"
  shows "res_done sound (process_cmd cmd s)"
proof -
  have [simp]: "keeps (=) quiet s (Done s)"
    using assms(1) by simp
  have arg: "function_id_matches fn \<and> arg \<noteq> None" if "cmd = AddInvokeFunctionStageRequest f fn arg loc caller" for f fn arg loc caller
    using assms(4) that by (auto simp: Validate_def check_function_id_def split: if_splits)
  show ?thesis
    using assms(1-3,5)
    by (cases cmd)
       (auto simp: cmd_defs createExternalState_def cmd_CompleteDelayStage_def
        intro!: sound_bind quiet_rules dest: arg intro: quiet_emit_other sound_keeps [OF quiet_emit_other] split: option.splits)
qed

section \<open>Flows that are driven by validated requests\<close>

text \<open>The states of a flow's actor whose clients' requests all passed the validation; answers of the
  executor, timers and system messages come in between in any order.\<close>

inductive validated_run :: "graphActor \<Rightarrow> bool" where
  run_start: "fresh_actor s \<Longrightarrow> outbox s = [] \<Longrightarrow> validated_run s"
| run_step: "validated_run s \<Longrightarrow> (\<And>cmd. msg = MsgCommand cmd \<Longrightarrow> is_request cmd \<Longrightarrow> Validate cmd = None) \<Longrightarrow>
    Receive msg s = Done t \<Longrightarrow> validated_run t"

definition guarded :: "graphActor \<Rightarrow> bool" where
  "guarded s \<longleftrightarrow> actor_inv s \<and> list_all invocation_ok (outbox s) \<and> (hasGraph s \<longrightarrow> function_id_matches (FunctionID s))"

lemma guarded_sound: "guarded s \<Longrightarrow> hasGraph s \<Longrightarrow> sound s"
  by (simp add: guarded_def sound_def)

lemma guarded_sends [simp]: "list_all invocation_ok (outbox (send x s)) \<longleftrightarrow> list_all invocation_ok (outbox s) \<and> invocation_ok x"
  by (auto simp: send_def)

lemma command_sound:
  assumes "guarded s" and "is_request cmd \<Longrightarrow> Validate cmd = None" and "receiveCommand cmd s = Done t"
  shows "list_all invocation_ok (outbox t) \<and> (hasGraph t \<longrightarrow> function_id_matches (FunctionID t))"
proof (cases "hasGraph s")
  case True
  have s: "wf_graph s" "flow_inv s" "sound s"
    using assms(1) True guarded_sound by (auto simp: guarded_def actor_inv_def)
  have "res_done sound (process_cmd cmd s)" if "\<not> is_CreateGraphRequest cmd"
    using process_sound [OF s assms(2) that] by blast
  then have "sound t"
    using assms(3) True s(3) by (cases cmd)
      (auto simp: receiveCommand_def validateCmd_def split: validation.splits)
  then show ?thesis
    by (simp add: sound_def)
next
  case False
  have fn: "function_id_matches fn" if "cmd = CreateGraphRequest f fn" for f fn
    using assms(2) that by (auto simp: Validate_def check_function_id_def split: if_splits)
  show ?thesis
    using assms(1,3) False fn
    by (cases cmd)
       (auto simp: guarded_def receiveCommand_def validateCmd_def process_cmd_def cmd_CreateGraph_def
        actor_PersistReceive_def bind_res_eq_Done split: res.splits)
qed

lemma message_guarded:
  assumes "guarded s" and "\<And>cmd. msg = MsgCommand cmd \<Longrightarrow> is_request cmd \<Longrightarrow> Validate cmd = None"
    and "Receive msg s = Done t"
  shows "guarded t"
proof -
  have inv: "actor_inv s" "\<not> recovering (mixin s)"
    using assms(1) by (simp_all add: guarded_def actor_inv_def)
  have rec: "sound u" if "hasGraph s" "Recover (actorListener (call_depth s)) s = Done u" for u
    using replies.keeps_Recover [of s "call_depth s"] that guarded_sound [OF assms(1)] inv(1)
    by (auto simp: actor_inv_def intro: quiet_sound)
  have "list_all invocation_ok (outbox t) \<and> (hasGraph t \<longrightarrow> function_id_matches (FunctionID t))"
  proof (cases msg)
    case (MsgEvent e)
    then show ?thesis
      using assms(3) inv(2) command_sound [OF assms(1), of "OtherCommand (EvtFlowId e)" t] by (simp add: Receive_def)
  next
    case (MsgCommand cmd)
    then show ?thesis
      using assms(3) inv(2) command_sound [OF assms(1) assms(2)] by (simp add: Receive_def)
  next
    case (MsgSystem m)
    then show ?thesis
      using assms(1,3) inv(2) rec
      by (cases m) (auto simp: Receive_def receiveMessage_def guarded_def bind_res_eq_Done sound_def split: if_splits)
  qed
  then show ?thesis
    using message_inv [OF inv(1) assms(3)] by (simp add: guarded_def)
qed

lemma validated_run_guarded: "validated_run s \<Longrightarrow> guarded s"
proof (induction rule: validated_run.induct)
  case (run_start s)
  then show ?case
    using fresh_actor_inv by (simp add: guarded_def fresh_actor_def)
next
  case (run_step s msg t)
  then show ?case
    using message_guarded by blast
qed

text \<open>C6: Nothing that clients get past the validation of the API server can end the process through the
  executor. If URLs made of the configured address and a validated function name parse, then in every
  state of a flow each message its actor sent to the executor is handled without a panic, and each
  invocation is answered with a result for the stage that asked for it.\<close>

theorem validated_invocations_answered:
  assumes "validated_run s" and "\<And>fn. function_id_matches fn \<Longrightarrow> url_ok (faasAddr @ ''/'' @ fn)" and "msg \<in> set (outbox s)"
  shows "\<exists>answer effects store'. exec_Receive marshal unmarshal create read url_ok call faasAddr msg store = Inr (answer, effects, store') \<and>
    (\<forall>fn f sid args cl arg. msg = InvokeStageRequest fn f sid args cl \<or> msg = InvokeFunctionRequest f sid fn arg \<longrightarrow>
      (\<exists>r c. answer = Some (FaasInvocationResponse f sid fn (Some r) c)))"
proof -
  have ok: "invocation_ok msg"
    using validated_run_guarded [OF assms(1)] assms(3) by (auto simp: guarded_def list_all_iff)
  show ?thesis
  proof (cases msg)
    case (InvokeStageRequest fn f sid args cl)
    then show ?thesis
      using ok assms(2) HandleInvokeStage_answers [of url_ok faasAddr fn marshal unmarshal call f sid args cl]
      by (auto simp: exec_Receive_def)
  next
    case (InvokeFunctionRequest f sid fn arg)
    then obtain a where "arg = Some a"
      using ok by auto
    then show ?thesis
      using InvokeFunctionRequest HandleInvokeFunction_answers [of create read url_ok call faasAddr fn f sid a store]
      by (auto simp: exec_Receive_def)
  qed (auto simp: exec_Receive_def)
qed

definition demo_messages :: "Message list" where
  "demo_messages = map MsgCommand [CreateGraphRequest ''flow'' ''app'', demo_invoke]"

lemma validated_fold:
  assumes "validated_run s" and "\<And>cmd. MsgCommand cmd \<in> set ms \<Longrightarrow> Validate cmd = None" and "fold_res Receive ms s = Done t"
  shows "validated_run t"
  using assms
proof (induction ms arbitrary: s)
  case (Cons m ms)
  then obtain u where u: "Receive m s = Done u" "fold_res Receive ms u = Done t"
    by (auto simp: bind_res_eq_Done)
  then show ?case
    using Cons.IH [OF run_step [OF Cons.prems(1) _ u(1)]] Cons.prems(2) by simp
qed simp

theorem validated_invocations_answered_witness:
  "\<exists>t answer effects store'. fold_res Receive demo_messages new_actor = Done t \<and>
     InvokeFunctionRequest ''flow'' ''0'' ''app'' (Some \<lparr>ReqBody = None, ReqHeaders = [], ReqMethod = Method_post\<rparr>) \<in> set (outbox t) \<and>
     exec_Receive (\<lambda>_. None) (\<lambda>_. None) inmem_Create inmem_Read (list_all (\<lambda>c. c \<noteq> CHR ''%'')) demo_call ''http://fn''
       (InvokeFunctionRequest ''flow'' ''0'' ''app'' (Some \<lparr>ReqBody = None, ReqHeaders = [], ReqMethod = Method_post\<rparr>)) NewInMemBlobStore
       = Inr (answer, effects, store')"
proof -
  let ?t = "run demo_messages new_actor"
  let ?msg = "InvokeFunctionRequest ''flow'' ''0'' ''app'' (Some \<lparr>ReqBody = None, ReqHeaders = [], ReqMethod = Method_post\<rparr>)"
  have "is_done (fold_res Receive demo_messages new_actor)" and valid: "list_all (\<lambda>m. case m of MsgCommand c \<Rightarrow> Validate c = None | _ \<Rightarrow> True) demo_messages"
      and msg: "?msg \<in> set (outbox ?t)"
    by code_simp+
  then have t: "fold_res Receive demo_messages new_actor = Done ?t"
    unfolding run_def by (intro is_done_state)
  have "validated_run new_actor"
    by (rule run_start [OF new_actor_fresh]) (simp add: new_actor_def)
  then have "validated_run ?t"
    by (rule validated_fold [OF _ _ t]) (use valid in \<open>auto simp: list_all_iff split: Message.splits\<close>)
  moreover have "list_all (\<lambda>c. c \<noteq> CHR ''%'') (''http://fn'' @ ''/'' @ fn)" if "function_id_matches fn" for fn
  proof -
    have "CHR ''%'' \<notin> set function_chars"
      by code_simp
    with that show ?thesis
      by (auto simp: function_id_matches_def list_all_iff)
  qed
  ultimately obtain answer effects store' where
    "exec_Receive (\<lambda>_. None) (\<lambda>_. None) inmem_Create inmem_Read (list_all (\<lambda>c. c \<noteq> CHR ''%'')) demo_call ''http://fn'' ?msg
       NewInMemBlobStore = Inr (answer, effects, store')"
    using validated_invocations_answered [OF _ _ msg, where url_ok = "list_all (\<lambda>c. c \<noteq> CHR ''%'')" and faasAddr = "''http://fn''"
        and marshal = "\<lambda>_. None" and unmarshal = "\<lambda>_. None" and create = inmem_Create and read = inmem_Read
        and call = demo_call and store = NewInMemBlobStore] by blast
  with t msg show ?thesis
    by blast
qed

end
