(* ===== verification/Backoff.thy ===== *)
theory Backoff
  imports Flow_Prelude
begin

text \<open>
  What happens to a graph actor that panics: the decider of \<^verbatim>\<open>src/actor/supervisor.go\<close> and the strategy
  of \<^verbatim>\<open>src/actor/strategy.go\<close>, with the restart statistics the actor library keeps for each actor.
  Times are nanoseconds; \<open>None\<close> is Go's zero time.
\<close>

datatype Directive = ResumeDirective | RestartDirective | StopDirective | EscalateDirective

definition graphDecider :: "panic_reason \<Rightarrow> Directive" where
  "graphDecider reason =
     (case reason of
        ErrPersistenceFailed \<Rightarrow> RestartDirective
      | ErrReadingEvents \<Rightarrow> RestartDirective
      | ErrPersistingSnapshot \<Rightarrow> ResumeDirective
      | _ \<Rightarrow> StopDirective)"

section \<open>Restart statistics\<close>

record RestartStatistics =
  FailureCount :: int
  LastFailureTime :: "int option"

definition new_stats :: RestartStatistics where
  "new_stats = \<lparr>FailureCount = 0, LastFailureTime = None\<rparr>"

definition rs_Fail :: "RestartStatistics \<Rightarrow> RestartStatistics" where
  "rs_Fail rs = rs\<lparr>FailureCount := int64 (FailureCount rs + 1)\<rparr>"

definition rs_Reset :: "RestartStatistics \<Rightarrow> RestartStatistics" where
  "rs_Reset rs = rs\<lparr>FailureCount := 0\<rparr>"

definition rs_Restart :: "int \<Rightarrow> RestartStatistics \<Rightarrow> RestartStatistics" where
  "rs_Restart now rs = rs\<lparr>LastFailureTime := Some now\<rparr>"

text \<open>The time since the zero time saturates at the longest duration, which is not within any.\<close>

definition IsWithinDuration :: "int \<Rightarrow> int \<Rightarrow> RestartStatistics \<Rightarrow> bool" where
  "IsWithinDuration now withinDuration rs =
     (case LastFailureTime rs of None \<Rightarrow> False | Some t \<Rightarrow> now - t < withinDuration)"

section \<open>The strategy\<close>

record exponentialBackoffStrategy =
  backoffWindow :: int
  initialBackoff :: int
  decider :: "panic_reason \<Rightarrow> Directive"

definition NewExponentialBackoffStrategy :: "int \<Rightarrow> int \<Rightarrow> (panic_reason \<Rightarrow> Directive) \<Rightarrow> exponentialBackoffStrategy" where
  "NewExponentialBackoffStrategy window initial d = \<lparr>backoffWindow = window, initialBackoff = initial, decider = d\<rparr>"

definition graphStrategy :: exponentialBackoffStrategy where
  "graphStrategy = NewExponentialBackoffStrategy (60 * 10 ^ 9) (100 * 10 ^ 6) graphDecider"

datatype supervision =
    PublishFailure Directive
  | ResumeChildren
  | StopChildren
  | RestartChildrenAfter int
  | EscalateFailure panic_reason

definition setFailureCount :: "exponentialBackoffStrategy \<Rightarrow> int \<Rightarrow> RestartStatistics \<Rightarrow> RestartStatistics" where
  "setFailureCount st now rs =
     (let rs = rs_Fail rs in if IsWithinDuration now (backoffWindow st) rs then rs else rs_Reset rs)"

text \<open>\<open>noise\<close> is the random number, which is below 500.\<close>

definition handleRestart ::
  "exponentialBackoffStrategy \<Rightarrow> int \<Rightarrow> int \<Rightarrow> RestartStatistics \<Rightarrow> supervision list \<times> RestartStatistics" where
  "handleRestart st now noise rs =
     (let rs = setFailureCount st now rs; backoff = int64 (FailureCount rs * initialBackoff st)
      in ([RestartChildrenAfter (int64 (backoff + noise))], rs))"

definition HandleFailure ::
  "exponentialBackoffStrategy \<Rightarrow> panic_reason \<Rightarrow> int \<Rightarrow> int \<Rightarrow> RestartStatistics \<Rightarrow> supervision list \<times> RestartStatistics" where
  "HandleFailure st reason now noise rs =
     (case decider st reason of
        ResumeDirective \<Rightarrow> ([PublishFailure ResumeDirective, ResumeChildren], rs)
      | RestartDirective \<Rightarrow> handleRestart st now noise rs
      | StopDirective \<Rightarrow> ([PublishFailure StopDirective, StopChildren], rs)
      | EscalateDirective \<Rightarrow> ([EscalateFailure reason], rs))"

section \<open>A sequence of failures\<close>

text \<open>A failure: its reason, its time, the noise, and the time at which the restart that follows it
  completes, if it does: the actor library records that time after the restarted actor has
  handled \<^verbatim>\<open>Started\<close>, so not if the actor panics while it replays its journal.\<close>

record failure =
  failReason :: panic_reason
  failTime :: int
  failNoise :: int
  restartedAt :: "int option"

fun failures :: "exponentialBackoffStrategy \<Rightarrow> failure list \<Rightarrow> RestartStatistics \<Rightarrow> supervision list \<times> RestartStatistics" where
  "failures st [] rs = ([], rs)"
| "failures st (f # fs) rs =
     (case HandleFailure st (failReason f) (failTime f) (failNoise f) rs of
        (xs, rs') \<Rightarrow>
          (case failures st fs (case restartedAt f of None \<Rightarrow> rs' | Some t \<Rightarrow> rs_Restart t rs') of
             (ys, rs'') \<Rightarrow> (xs @ ys, rs'')))"

definition restartable :: "failure \<Rightarrow> bool" where
  "restartable f \<longleftrightarrow> failReason f \<in> {ErrPersistenceFailed, ErrReadingEvents} \<and> 0 \<le> failNoise f \<and> failNoise f < 500"

lemma HandleFailure_restartable:
  "restartable f \<Longrightarrow> HandleFailure graphStrategy (failReason f) now noise rs = handleRestart graphStrategy now noise rs"
  by (auto simp: restartable_def HandleFailure_def graphStrategy_def NewExponentialBackoffStrategy_def graphDecider_def)

lemma stats_simps [simp]:
  "LastFailureTime (rs_Reset rs) = LastFailureTime rs" "LastFailureTime (rs_Fail rs) = LastFailureTime rs"
  "FailureCount (rs_Reset rs) = 0" "FailureCount (rs_Restart t rs) = FailureCount rs" "LastFailureTime (rs_Restart t rs) = Some t"
  "LastFailureTime new_stats = None" "FailureCount new_stats = 0"
  by (simp_all add: rs_Reset_def rs_Fail_def rs_Restart_def new_stats_def)

lemma first_failure:
  assumes "LastFailureTime rs = None" and "restartable f"
  shows "handleRestart graphStrategy now (failNoise f) rs = ([RestartChildrenAfter (failNoise f)], rs_Reset (rs_Fail rs))"
  using assms by (simp add: handleRestart_def setFailureCount_def IsWithinDuration_def Let_def restartable_def int64_id)

lemma failed_start_delays:
  assumes "\<And>f. f \<in> set fs \<Longrightarrow> restartable f \<and> restartedAt f = None" and "LastFailureTime rs = None"
  shows "fst (failures graphStrategy fs rs) = map (RestartChildrenAfter \<circ> failNoise) fs"
  using assms
proof (induction fs arbitrary: rs)
  case (Cons f fs)
  then show ?case
    using Cons.IH [of "rs_Reset (rs_Fail rs)"] by (simp add: HandleFailure_restartable first_failure case_prod_beta)
qed simp

text \<open>C40: An actor whose journal cannot be read is restarted without any delay to speak of. As long as no
  restart completes, because replaying fails, every one of the scheduled restarts is less than 500
  nanoseconds away, however many failures there were: the strategy measures its window from the last
  completed restart, and resets the failure count if there was none.\<close>

theorem failed_starts_never_back_off:
  assumes "\<And>f. f \<in> set fs \<Longrightarrow> restartable f \<and> restartedAt f = None"
  shows "\<exists>delays. fst (failures graphStrategy fs new_stats) = map RestartChildrenAfter delays \<and>
    length delays = length fs \<and> (\<forall>d \<in> set delays. 0 \<le> d \<and> d < 500)"
proof (intro exI conjI)
  show "fst (failures graphStrategy fs new_stats) = map RestartChildrenAfter (map failNoise fs)"
    using failed_start_delays [OF assms] by simp
  show "\<forall>d \<in> set (map failNoise fs). 0 \<le> d \<and> d < 500"
    using assms by (auto simp: restartable_def)
qed simp

theorem failed_starts_never_back_off_witness:
  "\<exists>delays. fst (failures graphStrategy (replicate 20
       \<lparr>failReason = ErrReadingEvents, failTime = 5, failNoise = 7, restartedAt = None\<rparr>) new_stats) = map RestartChildrenAfter delays \<and>
     length delays = 20 \<and> (\<forall>d \<in> set delays. 0 \<le> d \<and> d < 500)"
  using failed_starts_never_back_off [of "replicate 20 \<lparr>failReason = ErrReadingEvents, failTime = 5, failNoise = 7, restartedAt = None\<rparr>"]
  by (auto simp: restartable_def simp del: failures.simps)

text \<open>Each failure comes less than a minute after the last restart.\<close>

fun in_quick_succession :: "int \<Rightarrow> failure list \<Rightarrow> bool" where
  "in_quick_succession prev [] = True"
| "in_quick_succession prev (f # fs) =
     (restartable f \<and> failTime f - prev < 60 * 10 ^ 9 \<and>
      (case restartedAt f of None \<Rightarrow> False | Some t \<Rightarrow> in_quick_succession t fs))"

lemma later_failure:
  assumes "LastFailureTime rs = Some t" and "restartable f" and "now - t < 60 * 10 ^ 9"
    and "0 \<le> FailureCount rs" and "FailureCount rs < 10 ^ 9"
  shows "handleRestart graphStrategy now (failNoise f) rs =
    ([RestartChildrenAfter ((FailureCount rs + 1) * (100 * 10 ^ 6) + failNoise f)], rs_Fail rs)"
proof -
  have "FailureCount (rs_Fail rs) = FailureCount rs + 1"
    using assms(4,5) by (simp add: rs_Fail_def int64_id)
  moreover have "int64 ((FailureCount rs + 1) * 100000000) = (FailureCount rs + 1) * 100000000"
    using assms(4,5) by (intro int64_id) simp_all
  moreover have "int64 ((FailureCount rs + 1) * 100000000 + failNoise f) = (FailureCount rs + 1) * 100000000 + failNoise f"
    using assms(2,4,5) by (intro int64_id) (simp_all add: restartable_def)
  ultimately show ?thesis
    using assms(1,3)
    by (simp add: handleRestart_def setFailureCount_def IsWithinDuration_def Let_def graphStrategy_def
        NewExponentialBackoffStrategy_def)
qed

lemma later_failures:
  assumes "in_quick_succession t fs" and "LastFailureTime rs = Some t" and "0 \<le> FailureCount rs"
    and "FailureCount rs + int (length fs) \<le> 10 ^ 9"
  shows "fst (failures graphStrategy fs rs) =
    map (\<lambda>i. RestartChildrenAfter ((FailureCount rs + 1 + int i) * (100 * 10 ^ 6) + failNoise (fs ! i))) [0..<length fs]"
  using assms
proof (induction fs arbitrary: t rs)
  case (Cons f fs)
  then obtain t' where t': "restartedAt f = Some t'" "in_quick_succession t' fs"
    by (auto split: option.splits)
  have fail: "FailureCount (rs_Fail rs) = FailureCount rs + 1"
    using Cons.prems(3,4) by (simp add: rs_Fail_def int64_id)
  have "fst (failures graphStrategy fs (rs_Restart t' (rs_Fail rs))) =
      map (\<lambda>i. RestartChildrenAfter ((FailureCount rs + 1 + 1 + int i) * (100 * 10 ^ 6) + failNoise (fs ! i))) [0..<length fs]"
    using Cons.IH [OF t'(2), of "rs_Restart t' (rs_Fail rs)"] Cons.prems(3,4) fail by simp
  then show ?case
    using Cons.prems t'(1) later_failure [OF Cons.prems(2), of f "failTime f"]
    by (simp add: HandleFailure_restartable case_prod_beta map_upt_Suc algebra_simps del: upt_Suc)
qed simp

text \<open>The delay of a restart grows linearly, although the strategy is called exponential: of failures
  that each come within a minute after the last restart, the first is followed by a restart after less
  than 500 nanoseconds, and the \<open>i\<close>-th after that by a restart after \<open>i\<close> times 100 milliseconds and a
  noise of less than 500 nanoseconds.\<close>

theorem restart_delay_is_linear:
  assumes "restartable f" and "restartedAt f = Some t" and "in_quick_succession t fs" and "length fs \<le> 10 ^ 9"
  shows "fst (failures graphStrategy (f # fs) new_stats) =
    map (\<lambda>i. RestartChildrenAfter (int i * (100 * 10 ^ 6) + failNoise ((f # fs) ! i))) [0..<length (f # fs)]"
proof -
  have "fst (failures graphStrategy fs (rs_Restart t (rs_Reset (rs_Fail new_stats)))) =
      map (\<lambda>i. RestartChildrenAfter ((1 + int i) * (100 * 10 ^ 6) + failNoise (fs ! i))) [0..<length fs]"
    using later_failures [OF assms(3), of "rs_Restart t (rs_Reset (rs_Fail new_stats))"] assms(4) by simp
  then show ?thesis
    using assms(1,2) first_failure [OF _ assms(1), of new_stats "failTime f"]
    by (simp add: HandleFailure_restartable case_prod_beta map_upt_Suc del: upt_Suc)
qed

theorem restart_delay_is_linear_witness:
  "fst (failures graphStrategy
     [\<lparr>failReason = ErrPersistenceFailed, failTime = 5, failNoise = 7, restartedAt = Some 20\<rparr>,
      \<lparr>failReason = ErrPersistenceFailed, failTime = 30, failNoise = 8, restartedAt = Some 200000030\<rparr>] new_stats) =
   [RestartChildrenAfter 7, RestartChildrenAfter 100000008]"
  using restart_delay_is_linear [of "\<lparr>failReason = ErrPersistenceFailed, failTime = 5, failNoise = 7, restartedAt = Some 20\<rparr>" 20
      "[\<lparr>failReason = ErrPersistenceFailed, failTime = 30, failNoise = 8, restartedAt = Some 200000030\<rparr>]"]
  by (simp add: restartable_def upt_rec)

end
