(* ===== verification/Lifecycle_Merge.thy ===== *)
theory Lifecycle_Merge
  imports Cluster "HOL-Library.Sublist"
begin

text \<open>
  The proxy's lifecycle stream (\<^verbatim>\<open>StreamLifecycle\<close> of \<^verbatim>\<open>src/cluster/cluster_proxy.go\<close>), which merges the streams of
  all nodes: one goroutine for each client receives events and hands them over an unbuffered channel
  to the loop that sends them. The steps of the goroutines and of the loop are taken in any order.
\<close>

text \<open>\<open>held i\<close> is the event that goroutine \<open>i\<close> offers to the loop, \<open>receiving i\<close> says whether it still runs;
  \<open>sending\<close> is the event that the loop has taken and for which its call of \<^verbatim>\<open>stream.Send\<close> has not returned yet.
  \<open>mergeSent\<close> records what was sent. Events are kept with the client they came from.\<close>

record 'e merge_stream =
  clientCount :: nat
  held :: "nat \<Rightarrow> 'e option"
  receiving :: "nat \<Rightarrow> bool"
  errorsChan :: "service_error list"
  sending :: "(nat \<times> 'e) option"
  mergeSent :: "(nat \<times> 'e) list"
  mergeResult :: "service_error option option"

definition new_merge :: "nat \<Rightarrow> 'e merge_stream" where
  "new_merge n = \<lparr>clientCount = n, held = (\<lambda>_. None), receiving = (\<lambda>i. i < n), errorsChan = [], sending = None, mergeSent = [],
     mergeResult = None\<rparr>"

datatype 'e merge_action =
    Received nat 'e
  | ReceiveFailed nat service_error
  | Quit nat
  | TakeEvent nat
  | SendReturned bool
  | TakeError
  | ClientClosed

text \<open>One step, or \<open>None\<close> if it cannot be taken. The channel of errors has a place for each client. A
  goroutine goes on to its next event as soon as the loop has taken the last one, while the loop
  waits in \<^verbatim>\<open>stream.Send\<close> and selects nothing else. A goroutine that offers an event quits when the loop has returned.\<close>

definition at_select :: "'e merge_stream \<Rightarrow> bool" where
  "at_select st \<longleftrightarrow> mergeResult st = None \<and> sending st = None"


fun merge_step :: "'e merge_action \<Rightarrow> 'e merge_stream \<Rightarrow> 'e merge_stream option" where
  "merge_step (Received i e) st =
     (if receiving st i \<and> held st i = None then Some (st\<lparr>held := (held st)(i := Some e)\<rparr>) else None)"
| "merge_step (ReceiveFailed i err) st =
     (if receiving st i \<and> held st i = None \<and> length (errorsChan st) < clientCount st
      then Some (st\<lparr>receiving := (receiving st)(i := False), errorsChan := errorsChan st @ [err]\<rparr>) else None)"
| "merge_step (Quit i) st =
     (if receiving st i \<and> held st i \<noteq> None \<and> mergeResult st \<noteq> None
      then Some (st\<lparr>receiving := (receiving st)(i := False), held := (held st)(i := None)\<rparr>) else None)"
| "merge_step (TakeEvent i) st =
     (case held st i of
        None \<Rightarrow> None
      | Some e \<Rightarrow> if at_select st then Some (st\<lparr>held := (held st)(i := None), sending := Some (i, e)\<rparr>) else None)"
| "merge_step (SendReturned ok) st =
     (case sending st of
        None \<Rightarrow> None
      | Some e \<Rightarrow>
          if ok then Some (st\<lparr>sending := None, mergeSent := mergeSent st @ [e]\<rparr>)
          else Some (st\<lparr>sending := None, mergeResult := Some (Some SendFailed)\<rparr>))"
| "merge_step TakeError st =
     (case errorsChan st of
        [] \<Rightarrow> None
      | err # errs \<Rightarrow> if at_select st then Some (st\<lparr>errorsChan := errs, mergeResult := Some (Some err)\<rparr>) else None)"
| "merge_step ClientClosed st = (if at_select st then Some (st\<lparr>mergeResult := Some None\<rparr>) else None)"

fun proxy_StreamLifecycle :: "'e merge_action list \<Rightarrow> 'e merge_stream \<Rightarrow> 'e merge_stream option" where
  "proxy_StreamLifecycle [] st = Some st"
| "proxy_StreamLifecycle (a # as) st = Option.bind (merge_step a st) (proxy_StreamLifecycle as)"

section \<open>What the client sees of each node\<close>

fun received_from :: "nat \<Rightarrow> 'e merge_action list \<Rightarrow> 'e list" where
  "received_from i [] = []"
| "received_from i (Received j e # as) = (if i = j then e # received_from i as else received_from i as)"
| "received_from i (a # as) = received_from i as"

definition sent_from :: "nat \<Rightarrow> 'e merge_stream \<Rightarrow> 'e list" where
  "sent_from i st = map snd (filter (\<lambda>(j, e). j = i) (mergeSent st))"

definition on_the_way :: "nat \<Rightarrow> 'e merge_stream \<Rightarrow> 'e list" where
  "on_the_way i st =
     (case sending st of None \<Rightarrow> [] | Some (j, e) \<Rightarrow> if j = i then [e] else []) @
     (case held st i of None \<Rightarrow> [] | Some e \<Rightarrow> [e])"

text \<open>While the loop runs what was received is what was sent, what is being sent and what is offered; the
  errors and the goroutines that still run fit into the channel together.\<close>

definition alive :: "(nat \<Rightarrow> bool) \<Rightarrow> nat" where
  "alive running = card {i. running i}"

definition merge_inv :: "nat \<Rightarrow> (nat \<Rightarrow> 'e list) \<Rightarrow> 'e merge_stream \<Rightarrow> bool" where
  "merge_inv n recv st \<longleftrightarrow>
     clientCount st = n \<and> (\<forall>i. held st i \<noteq> None \<longrightarrow> receiving st i) \<and> (\<forall>i. receiving st i \<longrightarrow> i < n) \<and>
     length (errorsChan st) + alive (receiving st) \<le> n \<and>
     (\<forall>i. prefix (sent_from i st) (recv i)) \<and>
     (mergeResult st \<noteq> None \<longrightarrow> sending st = None) \<and>
     (mergeResult st = None \<longrightarrow> (\<forall>i. recv i = sent_from i st @ on_the_way i st))"

lemma merge_inv_new: "merge_inv n (\<lambda>_. []) (new_merge n)"
proof -
  have "{i. i < n} = {..<n}"
    by auto
  then show ?thesis
    by (simp add: merge_inv_def new_merge_def sent_from_def on_the_way_def alive_def)
qed

lemma card_receiving:
  assumes "merge_inv n recv st" and "receiving st i"
  shows "alive ((receiving st)(i := False)) < alive (receiving st)"
  unfolding alive_def
proof (rule psubset_card_mono)
  show "finite {j. receiving st j}"
    by (rule finite_subset [of _ "{..<n}"]) (use assms(1) in \<open>auto simp: merge_inv_def\<close>)
  show "{j. ((receiving st)(i := False)) j} \<subset> {j. receiving st j}"
    using assms(2) by (auto simp: psubset_eq set_eq_iff split: if_splits)
qed

lemma merge_step_inv:
  assumes inv: "merge_inv n recv st" and step: "merge_step a st = Some st'"
  shows "merge_inv n (\<lambda>i. recv i @ received_from i [a]) st'"
proof (cases a)
  case (Received k e)
  then show ?thesis
    using inv step by (auto simp: merge_inv_def sent_from_def on_the_way_def intro: prefix_prefix split: if_splits)
next
  case (ReceiveFailed k err)
  then have "receiving st k"
    using step by (simp split: if_splits)
  then show ?thesis
    using inv step ReceiveFailed card_receiving [OF inv, of k]
    by (auto simp: merge_inv_def sent_from_def on_the_way_def split: if_splits)
next
  case (Quit k)
  then have "receiving st k"
    using step by (simp split: if_splits)
  then show ?thesis
    using inv step Quit card_receiving [OF inv, of k]
    by (auto simp: merge_inv_def sent_from_def on_the_way_def split: if_splits)
next
  case (TakeEvent k)
  then obtain e where "held st k = Some e" "mergeResult st = None" "sending st = None"
    using step by (auto simp: at_select_def split: option.splits if_splits)
  then show ?thesis
    using inv step TakeEvent
    by (auto simp: merge_inv_def sent_from_def on_the_way_def at_select_def split: option.splits if_splits)
next
  case (SendReturned ok)
  then obtain k e where s: "sending st = Some (k, e)" "mergeResult st = None"
    using step inv by (auto simp: merge_inv_def split: option.splits if_splits)
  have "sent_from i (st\<lparr>sending := None, mergeSent := mergeSent st @ [(k, e)]\<rparr>) = sent_from i st @ (if k = i then [e] else [])" for i
    by (simp add: sent_from_def)
  then show ?thesis
    using inv step SendReturned s
    by (cases ok) (auto simp: merge_inv_def sent_from_def on_the_way_def split: option.splits)
next
  case TakeError
  then show ?thesis
    using inv step by (auto simp: merge_inv_def sent_from_def at_select_def split: list.splits if_splits)
next
  case ClientClosed
  then show ?thesis
    using inv step by (auto simp: merge_inv_def sent_from_def at_select_def split: if_splits)
qed

lemma received_from_Cons: "received_from i (a # as) = received_from i [a] @ received_from i as"
  by (cases a) simp_all

lemma merge_run_inv:
  assumes "merge_inv n recv st" and "proxy_StreamLifecycle as st = Some st'"
  shows "merge_inv n (\<lambda>i. recv i @ received_from i as) st'"
  using assms
proof (induction as arbitrary: recv st)
  case (Cons a as)
  then obtain u where "merge_step a st = Some u" "proxy_StreamLifecycle as u = Some st'"
    by (auto simp: bind_eq_Some_conv)
  with Cons.IH [OF merge_step_inv [OF Cons.prems(1)]] show ?case
    unfolding received_from_Cons [of _ a as] by simp
qed simp

text \<open>C31: The lifecycle stream of a cluster keeps the order of each node's events and loses none while it
  runs: at every moment what the client was sent from a node is a prefix of what the node delivered, and as long
  as the stream has not ended all of it but what is on its way, which are at most two events: the one that
  the loop is sending and the one that the node's goroutine offers next. And no node's error is ever
  stuck in a full channel.\<close>

theorem merge_keeps_node_order:
  assumes "proxy_StreamLifecycle as (new_merge n) = Some st"
  shows "prefix (sent_from i st) (received_from i as) \<and>
    (mergeResult st = None \<longrightarrow> received_from i as = sent_from i st @ on_the_way i st \<and> length (on_the_way i st) \<le> 2) \<and>
    (receiving st i \<and> held st i = None \<longrightarrow> merge_step (ReceiveFailed i err) st \<noteq> None)"
proof -
  have inv: "merge_inv n (\<lambda>i. received_from i as) st"
    using merge_run_inv [OF merge_inv_new assms] by simp
  have "length (errorsChan st) < n" if "receiving st i"
    using card_receiving [OF inv that] inv by (simp add: merge_inv_def)
  moreover have "length (on_the_way i st) \<le> 2"
    by (simp add: on_the_way_def split: option.split)
  ultimately show ?thesis
    using inv by (auto simp: merge_inv_def)
qed

theorem merge_keeps_node_order_witness:
  "\<exists>st. proxy_StreamLifecycle [Received 0 ''a'', Received 1 ''b'', TakeEvent 1, SendReturned True, TakeEvent 0, Received 0 ''c'',
       Received 1 ''d'', SendReturned True, TakeEvent 0, Received 0 ''e''] (new_merge 2) = Some st \<and>
     sent_from 0 st = [''a''] \<and> [''a'', ''c'', ''e''] = sent_from 0 st @ on_the_way 0 st"
proof -
  let ?as = "[Received 0 ''a'', Received 1 ''b'', TakeEvent 1, SendReturned True, TakeEvent 0, Received 0 ''c'',
       Received 1 ''d'', SendReturned True, TakeEvent 0, Received 0 ''e'']"
  obtain st where st: "proxy_StreamLifecycle ?as (new_merge 2) = Some st" "sent_from 0 st = [''a'']" "mergeResult st = None"
    by (simp add: new_merge_def sent_from_def at_select_def)
  from merge_keeps_node_order [OF st(1), of 0] st show ?thesis
    by simp
qed

end
