(* ===== verification/Message_Validation.thy ===== *)
theory Message_Validation
  imports Invocation_Safety
begin

text \<open>
  The other \<^verbatim>\<open>Validate\<close> methods of \<^verbatim>\<open>src/model/model.validator.pb.go\<close>: those of events, of the messages to the executor and
  to the functions platform, and of answers. Nothing calls them: the interceptor validates the requests of clients only.
  The theory shows what would happen if the messages that the service itself makes were held against them.
\<close>

section \<open>Events and answers\<close>

text \<open>Timestamps have no validator.\<close>

definition Validate_Event :: "Event \<Rightarrow> fieldError option" where
  "Validate_Event e =
     (case e of
        StageAddedEvent f sid op cl deps ts loc caller \<Rightarrow> optional (check_field ''Closure'' Validate_BlobDatum) cl
      | StageCompletedEvent f sid r ts \<Rightarrow> optional (check_field ''Result'' Validate_CompletionResult) r
      | FaasInvocationCompletedEvent f sid r ts call \<Rightarrow> optional (check_field ''Result'' Validate_CompletionResult) r
      | _ \<Rightarrow> None)"

fun event_field :: "Event \<Rightarrow> string" where
  "event_field (GraphCreatedEvent f fn ts) = ''GraphCreated''"
| "event_field (GraphCommittedEvent f ts) = ''GraphCommitted''"
| "event_field (GraphTerminatingEvent f fn st ts) = ''GraphTerminating''"
| "event_field (GraphCompletedEvent f fn ts) = ''GraphCompleted''"
| "event_field (DelayScheduledEvent f sid t ts) = ''DelayScheduled''"
| "event_field (StageAddedEvent f sid op cl deps ts loc caller) = ''StageAdded''"
| "event_field (StageCompletedEvent f sid r ts) = ''StageCompleted''"
| "event_field (StageComposedEvent f sid c ts) = ''StageComposed''"
| "event_field (FaasInvocationStartedEvent f sid ts fn) = ''FaasInvocationStarted''"
| "event_field (FaasInvocationCompletedEvent f sid r ts call) = ''FaasInvocationCompleted''"

definition Validate_GraphLifecycleEvent :: "GraphLifecycleEvent \<Rightarrow> fieldError option" where
  "Validate_GraphLifecycleEvent e =
     (case LifeVal e of
        GraphCreatedEvent f fn ts \<Rightarrow> check_field (event_field (LifeVal e)) Validate_Event (LifeVal e)
      | GraphCompletedEvent f fn ts \<Rightarrow> check_field (event_field (LifeVal e)) Validate_Event (LifeVal e)
      | _ \<Rightarrow> None)"

definition Validate_GraphStreamEvent :: "GraphStreamEvent \<Rightarrow> fieldError option" where
  "Validate_GraphStreamEvent e = check_field (event_field (StreamVal e)) Validate_Event (StreamVal e)"

definition Validate_AwaitStageResultResponse :: "CompletionResult option \<Rightarrow> fieldError option" where
  "Validate_AwaitStageResultResponse r = optional (check_field ''Result'' Validate_CompletionResult) r"

definition Validate_RuntimeInvokeStageResponse :: "CompletionResult option \<Rightarrow> fieldError option" where
  "Validate_RuntimeInvokeStageResponse r = optional (check_field ''Result'' Validate_CompletionResult) r"

section \<open>Messages to the executor and to the platform\<close>

text \<open>The pattern \<^verbatim>\<open>^(\.|[a-zA-Z0-9_\-]{1,255})(/[a-zA-Z0-9_/\-]{0,255})(\?.*)?$\<close>: the first slash ends the first
  group and the first question mark after it the second; a dot does not match a line feed.\<close>

definition app_chars :: string where
  "app_chars = ''abcdefghijklmnopqrstuvwxyzABCDEFGHIJKLMNOPQRSTUVWXYZ0123456789_-''"

definition invoke_id_matches :: "string \<Rightarrow> bool" where
  "invoke_id_matches s \<longleftrightarrow>
     (let app = takeWhile (\<lambda>c. c \<noteq> CHR ''/'') s; rest = dropWhile (\<lambda>c. c \<noteq> CHR ''/'') s;
          path = takeWhile (\<lambda>c. c \<noteq> CHR ''?'') (tl rest); query = dropWhile (\<lambda>c. c \<noteq> CHR ''?'') (tl rest)
      in (app = ''.'' \<or> 1 \<le> length app \<and> length app \<le> 255 \<and> list_all (\<lambda>c. c \<in> set app_chars) app) \<and>
         rest \<noteq> [] \<and> length path \<le> 255 \<and> list_all (\<lambda>c. c \<in> set app_chars \<or> c = CHR ''/'') path \<and>
         (query = [] \<or> CHR 0x0A \<notin> set query))"

definition check_invoke_id :: "string \<Rightarrow> string \<Rightarrow> fieldError option" where
  "check_invoke_id message s = (if invoke_id_matches s then None else Some (FieldError ''FunctionId'' (Inl message)))"

definition Validate_InvokeFunctionRequest ::
  "flow_id \<Rightarrow> stage_id \<Rightarrow> function_id \<Rightarrow> HTTPReqDatum option \<Rightarrow> fieldError option" where
  "Validate_InvokeFunctionRequest f sid fn arg =
     first_error [not_empty ''FlowId'' f, not_empty ''StageId'' sid, check_invoke_id ''invalid function id'' fn,
       required ''Arg'' (check_field ''Arg'' Validate_HTTPReqDatum) arg]"

definition conforming_message :: "string \<Rightarrow> string" where
  "conforming_message v =
     (let q = [CHR 0x27]; dq = [CHR 0x22]; b = [CHR 0x5C, CHR 0x5C] in
      ''value '' @ q @ v @ q @ '' must be a string conforming to regex '' @ dq @
      ''^('' @ b @ ''.|[a-zA-Z0-9_'' @ b @ ''-]{1,255})(/[a-zA-Z0-9_/'' @ b @ ''-]{0,255})('' @ b @ ''?.*)?$'' @ dq)"

definition Validate_InvokeStageRequest ::
  "function_id \<Rightarrow> flow_id \<Rightarrow> stage_id \<Rightarrow> CompletionResult list \<Rightarrow> BlobDatum option \<Rightarrow> fieldError option" where
  "Validate_InvokeStageRequest fn f sid args cl =
     first_error ([not_empty ''FlowId'' f, not_empty ''StageId'' sid,
         check_invoke_id (conforming_message fn) fn] @
       map (check_field ''Args'' Validate_CompletionResult) args @
       [required ''Closure'' (check_field ''Closure'' Validate_BlobDatum) cl])"

definition Validate_RuntimeInvokeStageRequest :: "RuntimeInvokeStageRequest \<Rightarrow> fieldError option" where
  "Validate_RuntimeInvokeStageRequest r =
     first_error ([not_empty ''FlowId'' (RtFlowId r), not_empty ''StageId'' (RtStageId r)] @
       map (check_field ''Args'' Validate_CompletionResult) (RtArgs r) @
       [required ''Closure'' (check_field ''Closure'' Validate_BlobDatum) (RtClosure r)])"

section \<open>The service's own messages\<close>

text \<open>No function identifier that the API accepts is one that the messages to the executor may carry: the first has no slash,
  the second must have one.\<close>

lemma function_ids_disjoint:
  assumes "function_id_matches fn"
  shows "\<not> invoke_id_matches fn"
proof -
  have "CHR ''/'' \<notin> set function_chars"
    by (simp add: function_chars_def)
  then have "\<forall>c \<in> set fn. c \<noteq> CHR ''/''"
    using assms by (auto simp: function_id_matches_def list_all_iff)
  then have "dropWhile (\<lambda>c. c \<noteq> CHR ''/'') fn = []"
    by simp
  then show ?thesis
    by (simp add: invoke_id_matches_def Let_def)
qed

fun Validate_invocation :: "Effect \<Rightarrow> fieldError option" where
  "Validate_invocation (InvokeStageRequest fn f sid args cl) = Validate_InvokeStageRequest fn f sid args cl"
| "Validate_invocation (InvokeFunctionRequest f sid fn arg) = Validate_InvokeFunctionRequest f sid fn arg"
| "Validate_invocation _ = None"

fun is_invocation :: "Effect \<Rightarrow> bool" where
  "is_invocation (InvokeStageRequest fn f sid args cl) = True"
| "is_invocation (InvokeFunctionRequest f sid fn arg) = True"
| "is_invocation _ = False"

text \<open>Every message to the executor in a flow whose clients' requests were validated fails its own validator: the pattern
  of function identifiers was changed for the requests of clients and not for these messages.\<close>

theorem executor_messages_invalid:
  assumes "validated_run s" and "x \<in> set (outbox s)" and "is_invocation x"
  shows "Validate_invocation x \<noteq> None"
proof -
  have "invocation_ok x"
    using validated_run_guarded [OF assms(1)] assms(2) by (auto simp: guarded_def list_all_iff)
  then show ?thesis
    using assms(3) function_ids_disjoint
    by (cases x) (auto simp: Validate_InvokeStageRequest_def Validate_InvokeFunctionRequest_def check_invoke_id_def)
qed

text \<open>A function that answers without a body completes its stage with a result that the service would not accept from a client: its
  body is a blob of length 0.\<close>

lemma empty_body_invalid:
  assumes "Val d = Some (Datum_HttpResp resp)" and "RespBody resp = Some b" and "Length b = 0"
  shows "Validate_CompletionResult \<lparr>Successful = ok, ResultDatum = Some d\<rparr> \<noteq> None"
  using assms
  by (auto simp: Validate_CompletionResult_def Validate_Datum_def Validate_HTTPRespDatum_def Validate_BlobDatum_def optional_def)

end
