(* ===== verification/Api_Document.thy ===== *)
theory Api_Document
  imports Service_Prelude
begin

text \<open>
  The embedded API document of \<^verbatim>\<open>src/model/swagger_file.go\<close>: the table and the tree of embedded files and their
  lookups. The compressed bytes and the decompression are arguments.
\<close>

section \<open>Reading embedded data\<close>

text \<open>How the decompression of some bytes ends: the reader cannot be made, the copy fails, closing the reader fails,
  or all goes well.\<close>

datatype gunzip = OpenFailed string | CopyFailed string | CloseFailed string string | Unzipped string

text \<open>Go returns bytes and an error. An error of \<^verbatim>\<open>Close\<close> is noticed, but it is the copy's error, \<^verbatim>\<open>nil\<close>, that is returned.\<close>

definition bindataRead :: "(string \<Rightarrow> gunzip) \<Rightarrow> string \<Rightarrow> string \<Rightarrow> string \<times> string option" where
  "bindataRead gz data name =
     (case gz data of
        OpenFailed err \<Rightarrow> ('''', Some (''Read '' @ name @ '': '' @ err))
      | CopyFailed err \<Rightarrow> ('''', Some (''Read '' @ name @ '': '' @ err))
      | CloseFailed content err \<Rightarrow> ('''', None)
      | Unzipped content \<Rightarrow> (content, None))"

record bindataFileInfo =
  fileName :: string
  fileSize :: int
  fileMode :: nat
  fileModTime :: int

record asset =
  assetBytes :: string
  assetInfo :: bindataFileInfo
  assetDigest :: "nat list"

definition modelModelSwaggerJsonBytes :: "(string \<Rightarrow> gunzip) \<Rightarrow> string \<Rightarrow> string \<times> string option" where
  "modelModelSwaggerJsonBytes gz document = bindataRead gz document ''model/model.swagger.json''"

definition modelModelSwaggerJson :: "(string \<Rightarrow> gunzip) \<Rightarrow> string \<Rightarrow> string + asset" where
  "modelModelSwaggerJson gz document =
     (case modelModelSwaggerJsonBytes gz document of
        (_, Some err) \<Rightarrow> Inl err
      | (content, None) \<Rightarrow> Inr
          \<lparr>assetBytes = content,
           assetInfo = \<lparr>fileName = ''model/model.swagger.json'', fileSize = 0, fileMode = 0, fileModTime = 0\<rparr>,
           assetDigest = [0xd4, 0x5c, 0x78, 0x16, 0x7e, 0x45, 0xa4, 0xf0, 0x54, 0xb5, 0xa7, 0xa, 0xc4, 0x2d, 0x8e, 0x1e,
             0x77, 0x8d, 0x44, 0xff, 0xf, 0x46, 0xa3, 0xbc, 0x9f, 0x8c, 0x82, 0xc5, 0xb1, 0x9d, 0x81, 0x12]\<rparr>)"

section \<open>The table of assets\<close>

type_synonym asset_table = "(string \<times> (string + asset)) list"

definition bindata :: "(string \<Rightarrow> gunzip) \<Rightarrow> string \<Rightarrow> asset_table" where
  "bindata gz document = [(''model/model.swagger.json'', modelModelSwaggerJson gz document)]"

definition canonical_name :: "string \<Rightarrow> string" where
  "canonical_name name = map (\<lambda>c. if c = CHR 0x5C then CHR ''/'' else c) name"

definition Asset :: "asset_table \<Rightarrow> string \<Rightarrow> string + string" where
  "Asset table name =
     (case map_of table (canonical_name name) of
        Some (Inl err) \<Rightarrow> Inl (''Asset '' @ name @ '' can't read by error: '' @ err)
      | Some (Inr a) \<Rightarrow> Inr (assetBytes a)
      | None \<Rightarrow> Inl (''Asset '' @ name @ '' not found''))"

definition AssetString :: "asset_table \<Rightarrow> string \<Rightarrow> string + string" where
  "AssetString table name = Asset table name"

definition MustAsset :: "asset_table \<Rightarrow> string \<Rightarrow> (unit, string) outcome" where
  "MustAsset table name =
     (case Asset table name of
        Inl err \<Rightarrow> Panicked (PanicMessage (''asset: Asset('' @ name @ ''): '' @ err))
      | Inr a \<Rightarrow> Returned a)"

definition AssetInfo :: "asset_table \<Rightarrow> string \<Rightarrow> string + bindataFileInfo" where
  "AssetInfo table name =
     (case map_of table (canonical_name name) of
        Some (Inl err) \<Rightarrow> Inl (''AssetInfo '' @ name @ '' can't read by error: '' @ err)
      | Some (Inr a) \<Rightarrow> Inr (assetInfo a)
      | None \<Rightarrow> Inl (''AssetInfo '' @ name @ '' not found''))"

definition AssetDigest :: "asset_table \<Rightarrow> string \<Rightarrow> string + nat list" where
  "AssetDigest table name =
     (case map_of table (canonical_name name) of
        Some (Inl err) \<Rightarrow> Inl (''AssetDigest '' @ name @ '' can't read by error: '' @ err)
      | Some (Inr a) \<Rightarrow> Inr (assetDigest a)
      | None \<Rightarrow> Inl (''AssetDigest '' @ name @ '' not found''))"

fun Digests :: "asset_table \<Rightarrow> string + (string \<times> nat list) list" where
  "Digests [] = Inr []"
| "Digests ((name, Inl err) # table) = Inl err"
| "Digests ((name, Inr a) # table) =
     (case Digests table of Inl err \<Rightarrow> Inl err | Inr mp \<Rightarrow> Inr ((name, assetDigest a) # mp))"

definition AssetNames :: "asset_table \<Rightarrow> string list" where
  "AssetNames table = map fst table"

section \<open>The tree of directories\<close>

text \<open>A node has a function if it is a file.\<close>

datatype bintree = Bintree (Func: bool) (Children: "(string \<times> bintree) list")

definition the_bintree :: bintree where
  "the_bintree = Bintree False [(''model'', Bintree False [(''model.swagger.json'', Bintree True [])])]"

fun walk_tree :: "string list \<Rightarrow> bintree \<Rightarrow> bintree option" where
  "walk_tree [] node = Some node"
| "walk_tree (p # ps) node = (case map_of (Children node) p of None \<Rightarrow> None | Some node \<Rightarrow> walk_tree ps node)"

definition AssetDir :: "bintree \<Rightarrow> string \<Rightarrow> string + string list" where
  "AssetDir tree name =
     (case (if length name \<noteq> 0 then walk_tree (strings_Split (canonical_name name) ''/'') tree else Some tree) of
        None \<Rightarrow> Inl (''Asset '' @ name @ '' not found'')
      | Some node \<Rightarrow>
          if Func node then Inl (''Asset '' @ name @ '' not found'') else Inr (map fst (Children node)))"

section \<open>Table and tree agree\<close>

text \<open>The files of a tree, by their paths.\<close>

fun tree_files :: "bintree \<Rightarrow> string list list" where
  "tree_files (Bintree f cs) = (if f then [[]] else []) @ concat (map (\<lambda>(n, t). map ((#) n) (tree_files t)) cs)"

lemma split_swagger_name: "strings_Split ''model/model.swagger.json'' ''/'' = [''model'', ''model.swagger.json'']"
  by code_simp

lemma table_is_tree: "map (\<lambda>name. strings_Split name ''/'') (AssetNames (bindata gz document)) = tree_files the_bintree"
  by (simp add: AssetNames_def bindata_def the_bintree_def split_swagger_name)

text \<open>No name is both a file and a directory.\<close>

theorem asset_is_no_directory:
  assumes "map_of (bindata gz document) (canonical_name name) \<noteq> None"
  shows "\<exists>err. AssetDir the_bintree name = Inl err"
proof -
  have c: "canonical_name name = ''model/model.swagger.json''"
    using assms by (auto simp: bindata_def split: if_splits)
  then have "name \<noteq> []"
    by (auto simp: canonical_name_def)
  then show ?thesis
    using c by (simp add: AssetDir_def split_swagger_name the_bintree_def)
qed

text \<open>The document is found; it is empty, without any error, if the reader of the compressed data cannot be closed.\<close>

lemma Asset_document:
  "Asset (bindata gz document) ''model/model.swagger.json'' =
     (case gz document of
        Unzipped content \<Rightarrow> Inr content
      | CloseFailed content err \<Rightarrow> Inr ''''
      | OpenFailed err \<Rightarrow> Inl (''Asset model/model.swagger.json can't read by error: Read model/model.swagger.json: '' @ err)
      | CopyFailed err \<Rightarrow> Inl (''Asset model/model.swagger.json can't read by error: Read model/model.swagger.json: '' @ err))"
  by (simp add: Asset_def bindata_def canonical_name_def modelModelSwaggerJson_def modelModelSwaggerJsonBytes_def bindataRead_def
      split: gunzip.split)

end
