(* ===== verification/Rest_Gateway.thy ===== *)
theory Rest_Gateway
  imports Request_Validation
begin

text \<open>
  The REST gateway: the generated handlers of \<^verbatim>\<open>src/model/model.pb.gw.go\<close>, the path patterns they are
  registered under, and the dispatch of the gateway library (\<^verbatim>\<open>runtime/mux.go\<close>, \<^verbatim>\<open>runtime/pattern.go\<close>).
  The decoding of JSON bodies, of numbers in a query and of the gateway's own headers are arguments.
\<close>

section \<open>Patterns\<close>

datatype op = OpNop | OpPush | OpLitPush nat | OpPushM | OpConcatN nat | OpCapture nat

record Pattern =
  ops :: "op list"
  pool :: "string list"
  vars :: "string list"
  tailLen :: nat
  verb :: string

text \<open>\<^verbatim>\<open>NewPattern\<close> on pairs of an operation code and an operand: \<open>stack\<close> is the depth of the stack, \<open>pushM\<close>
  says whether a deep wildcard was seen. An error is \<open>None\<close>.\<close>

fun typed_ops :: "string list \<Rightarrow> nat list \<Rightarrow> nat \<Rightarrow> bool \<Rightarrow> nat \<Rightarrow> string list \<Rightarrow> (op list \<times> nat \<times> string list) option" where
  "typed_ops pl [] stack pushM tn vs = Some ([], tn, vs)"
| "typed_ops pl [c] stack pushM tn vs = None"
| "typed_ops pl (c # n # cs) stack pushM tn vs =
     (if c = 0 then typed_ops pl cs stack pushM tn vs
      else if c = 1 then
        map_option (\<lambda>(os, r). (OpPush # os, r)) (typed_ops pl cs (stack + 1) pushM (if pushM then tn + 1 else tn) vs)
      else if c = 2 then
        (if length pl \<le> n then None
         else map_option (\<lambda>(os, r). (OpLitPush n # os, r)) (typed_ops pl cs (stack + 1) pushM (if pushM then tn + 1 else tn) vs))
      else if c = 3 then
        (if pushM then None else map_option (\<lambda>(os, r). (OpPushM # os, r)) (typed_ops pl cs (stack + 1) True tn vs))
      else if c = 4 then
        (if n = 0 \<or> stack < n then None
         else map_option (\<lambda>(os, r). (OpConcatN n # os, r)) (typed_ops pl cs (stack - n + 1) pushM tn vs))
      else if c = 5 then
        (if length pl \<le> n \<or> stack = 0 then None
         else map_option (\<lambda>(os, r). (OpCapture (length vs) # os, r)) (typed_ops pl cs (stack - 1) pushM tn (vs @ [pl ! n])))
      else None)"

definition NewPattern :: "nat list \<Rightarrow> string list \<Rightarrow> string \<Rightarrow> Pattern option" where
  "NewPattern codes pl v =
     map_option (\<lambda>(os, tn, vs). \<lparr>ops = os, pool = pl, vars = vs, tailLen = tn, verb = v\<rparr>) (typed_ops pl codes 0 False 0 [])"

text \<open>The operations on the components that are still to be read; \<open>captured\<close> has a place for each
  variable.\<close>

fun run_ops :: "Pattern \<Rightarrow> op list \<Rightarrow> string list \<Rightarrow> string list \<Rightarrow> string list \<Rightarrow> string list option" where
  "run_ops p [] rest stack captured = (if rest \<noteq> [] then None else Some captured)"
| "run_ops p (OpNop # os) rest stack captured = run_ops p os rest stack captured"
| "run_ops p (OpPush # os) rest stack captured =
     (case rest of [] \<Rightarrow> None | c # cs \<Rightarrow> run_ops p os cs (stack @ [c]) captured)"
| "run_ops p (OpLitPush n # os) rest stack captured =
     (case rest of [] \<Rightarrow> None | c # cs \<Rightarrow> if c \<noteq> pool p ! n then None else run_ops p os cs (stack @ [c]) captured)"
| "run_ops p (OpPushM # os) rest stack captured =
     (if length rest < tailLen p then None
      else let k = length rest - tailLen p in
        run_ops p os (drop k rest) (stack @ [strings_Join (take k rest) ''/'']) captured)"
| "run_ops p (OpConcatN n # os) rest stack captured =
     (let l = length stack - n in run_ops p os rest (take l stack @ [strings_Join (drop l stack) ''/'']) captured)"
| "run_ops p (OpCapture n # os) rest stack captured =
     run_ops p os rest (butlast stack) (captured[n := last stack])"

definition Match :: "Pattern \<Rightarrow> string list \<Rightarrow> string \<Rightarrow> (string \<times> string) list option" where
  "Match p components v =
     (if verb p \<noteq> v then None
      else map_option (\<lambda>captured. fold (\<lambda>(k, x). AList.update k x) (zip (vars p) captured) [])
             (run_ops p (ops p) components [] (replicate (length (vars p)) '''')))"

section \<open>The routes\<close>

datatype route =
    R_CreateGraph | R_AddStage | R_AddValueStage | R_AddInvokeFunction | R_AddDelay | R_AwaitStageResult
  | R_CompleteStageExternally | R_Commit | R_GetGraphState | R_StreamLifecycle | R_StreamEvents

fun pattern_FlowService :: "route \<Rightarrow> Pattern" where
  "pattern_FlowService R_CreateGraph = the (NewPattern [2, 0, 2, 1] [''v1'', ''flows''] '''')"
| "pattern_FlowService R_AddStage =
     the (NewPattern [2, 0, 2, 1, 1, 0, 4, 1, 5, 2, 2, 3] [''v1'', ''flows'', ''flow_id'', ''stage''] '''')"
| "pattern_FlowService R_AddValueStage =
     the (NewPattern [2, 0, 2, 1, 1, 0, 4, 1, 5, 2, 2, 3] [''v1'', ''flows'', ''flow_id'', ''value''] '''')"
| "pattern_FlowService R_AddInvokeFunction =
     the (NewPattern [2, 0, 2, 1, 1, 0, 4, 1, 5, 2, 2, 3] [''v1'', ''flows'', ''flow_id'', ''invoke''] '''')"
| "pattern_FlowService R_AddDelay =
     the (NewPattern [2, 0, 2, 1, 1, 0, 4, 1, 5, 2, 2, 3] [''v1'', ''flows'', ''flow_id'', ''delay''] '''')"
| "pattern_FlowService R_AwaitStageResult =
     the (NewPattern [2, 0, 2, 1, 1, 0, 4, 1, 5, 2, 2, 3, 1, 0, 4, 1, 5, 4, 2, 5]
       [''v1'', ''flows'', ''flow_id'', ''stages'', ''stage_id'', ''await''] '''')"
| "pattern_FlowService R_CompleteStageExternally =
     the (NewPattern [2, 0, 2, 1, 1, 0, 4, 1, 5, 2, 2, 3, 1, 0, 4, 1, 5, 4, 2, 5]
       [''v1'', ''flows'', ''flow_id'', ''stages'', ''stage_id'', ''complete''] '''')"
| "pattern_FlowService R_Commit =
     the (NewPattern [2, 0, 2, 1, 1, 0, 4, 1, 5, 2, 2, 3] [''v1'', ''flows'', ''flow_id'', ''commit''] '''')"
| "pattern_FlowService R_GetGraphState =
     the (NewPattern [2, 0, 2, 1, 1, 0, 4, 1, 5, 2] [''v1'', ''flows'', ''flow_id''] '''')"
| "pattern_FlowService R_StreamLifecycle = the (NewPattern [2, 0, 2, 1] [''v1'', ''stream''] '''')"
| "pattern_FlowService R_StreamEvents =
     the (NewPattern [2, 0, 2, 1, 1, 0, 4, 1, 5, 2, 2, 3] [''v1'', ''flows'', ''flow_id'', ''stream''] '''')"

section \<open>Requests\<close>

datatype gateway_call = Call Command | CallStreamLifecycle | CallStreamEvents flow_id nat

text \<open>Decoders of the bodies give the text of an error, or all fields of a message: those that the body leaves
  out have their default, and the handlers accept the end of the body as a message. \<open>conv_Int32\<close> and \<open>conv_Uint64\<close> read
  numbers. \<open>other_field\<close> gives the error of setting a field that the message does not declare (one of the
  bookkeeping fields of generated structs), \<open>AnnotateContext\<close> that of the request's headers.\<close>

record gateway_codec =
  dec_CreateGraph :: "string \<Rightarrow> string + (flow_id \<times> function_id)"
  dec_AddStage :: "string \<Rightarrow> string + (flow_id \<times> CompletionOperation \<times> BlobDatum option \<times> stage_id list \<times> string \<times> string)"
  dec_AddValueStage :: "string \<Rightarrow> string + (flow_id \<times> CompletionResult option \<times> string \<times> string)"
  dec_AddInvokeFunction :: "string \<Rightarrow> string + (flow_id \<times> function_id \<times> HTTPReqDatum option \<times> string \<times> string)"
  dec_AddDelay :: "string \<Rightarrow> string + (flow_id \<times> int \<times> string \<times> string)"
  dec_CompleteStageExternally :: "string \<Rightarrow> string + (flow_id \<times> stage_id \<times> CompletionResult option \<times> string \<times> string)"
  conv_Int32 :: "string \<Rightarrow> string + int"
  conv_Uint64 :: "string \<Rightarrow> string + nat"
  other_field :: "string list \<Rightarrow> string list \<Rightarrow> string option"
  AnnotateContext :: "(string \<Rightarrow> string) \<Rightarrow> error option"

text \<open>\<open>rqQuery\<close> lists the query parameters with their values in the order in which the gateway visits them.\<close>

record rest_request =
  rqMethod :: string
  rqPath :: string
  rqQuery :: "(string \<times> string list) list"
  rqBody :: string
  rqHeader :: "string \<Rightarrow> string"
  rqForm_ok :: bool

definition invalid_argument :: "string \<Rightarrow> error" where
  "invalid_argument message = StatusError Code_InvalidArgument message"

definition decode_body :: "(string \<Rightarrow> string + 'm) \<Rightarrow> rest_request \<Rightarrow> error + 'm" where
  "decode_body dec req = (case dec (rqBody req) of Inl err \<Rightarrow> Inl (invalid_argument err) | Inr m \<Rightarrow> Inr m)"

definition path_param :: "string \<Rightarrow> (string \<times> string) list \<Rightarrow> error + string" where
  "path_param name pathParams =
     (case map_of pathParams name of
        None \<Rightarrow> Inl (invalid_argument (''missing parameter '' @ name))
      | Some val \<Rightarrow> Inr val)"

fun bind_sum :: "'e + 'a \<Rightarrow> ('a \<Rightarrow> 'e + 'b) \<Rightarrow> 'e + 'b" where
  "bind_sum (Inl e) f = Inl e"
| "bind_sum (Inr a) f = f a"

subsection \<open>Query parameters\<close>

text \<open>The set of field names that a query must not set, as the double array that is searched.\<close>

record DoubleArray =
  Encoding :: "(string \<times> nat) list"
  Base :: "nat list"
  Check :: "nat list"

fun walk :: "DoubleArray \<Rightarrow> string list \<Rightarrow> nat \<Rightarrow> nat" where
  "walk da [] i = i"
| "walk da (t # ts) i =
     (case map_of (Encoding da) t of
        None \<Rightarrow> i
      | Some code \<Rightarrow>
          (let j = Base da ! i + code in
           if length (Check da) \<le> j \<or> Check da ! j \<noteq> i + 1 then i else walk da ts j))"

definition HasCommonPrefix :: "DoubleArray \<Rightarrow> string list \<Rightarrow> bool" where
  "HasCommonPrefix da path =
     (if Base da = [] then False
      else let i = walk da path 0; j = Base da ! i + length (Encoding da) in
        \<not> (length (Check da) \<le> j \<or> Check da ! j \<noteq> i + 1))"

text \<open>\<open>setters\<close> finds the setter of a field by its name in the protocol or in JSON; all fields of the messages that
  take a query are scalars.\<close>

definition populateFieldValueFromPath ::
  "gateway_codec \<Rightarrow> (string \<Rightarrow> (string \<Rightarrow> 'm \<Rightarrow> string + 'm) option) \<Rightarrow> string list \<Rightarrow> string list \<Rightarrow> 'm \<Rightarrow> string + 'm" where
  "populateFieldValueFromPath c setters fieldPath values m =
     (case setters (hd fieldPath) of
        None \<Rightarrow> (case other_field c fieldPath values of None \<Rightarrow> Inr m | Some err \<Rightarrow> Inl err)
      | Some populateField \<Rightarrow>
          if length fieldPath \<noteq> 1
          then Inl (''unexpected nested field '' @ fieldPath ! 1 @ '' in '' @ hd fieldPath)
          else case values of
                 [] \<Rightarrow> Inl (''no value of field: '' @ strings_Join fieldPath ''.'')
               | v # _ \<Rightarrow> populateField v m)"

fun PopulateQueryParameters ::
  "gateway_codec \<Rightarrow> (string \<Rightarrow> (string \<Rightarrow> 'm \<Rightarrow> string + 'm) option) \<Rightarrow> DoubleArray \<Rightarrow> (string \<times> string list) list \<Rightarrow> 'm \<Rightarrow> string + 'm" where
  "PopulateQueryParameters c setters da [] m = Inr m"
| "PopulateQueryParameters c setters da ((key, values) # query) m =
     (let fieldPath = strings_Split key ''.'' in
      if HasCommonPrefix da fieldPath then PopulateQueryParameters c setters da query m
      else bind_sum (populateFieldValueFromPath c setters fieldPath values m) (PopulateQueryParameters c setters da query))"

definition fields_AwaitStageResult ::
  "gateway_codec \<Rightarrow> string \<Rightarrow> (string \<Rightarrow> flow_id \<times> stage_id \<times> int \<Rightarrow> string + flow_id \<times> stage_id \<times> int) option" where
  "fields_AwaitStageResult c name =
     (if name = ''flow_id'' \<or> name = ''flowId'' then Some (\<lambda>v (f, sid, ms). Inr (v, sid, ms))
      else if name = ''stage_id'' \<or> name = ''stageId'' then Some (\<lambda>v (f, sid, ms). Inr (f, v, ms))
      else if name = ''timeout_ms'' \<or> name = ''timeoutMs''
      then Some (\<lambda>v (f, sid, ms). bind_sum (conv_Int32 c v) (\<lambda>ms. Inr (f, sid, ms)))
      else None)"

definition fields_StreamEvents ::
  "gateway_codec \<Rightarrow> string \<Rightarrow> (string \<Rightarrow> flow_id \<times> nat \<Rightarrow> string + flow_id \<times> nat) option" where
  "fields_StreamEvents c name =
     (if name = ''flow_id'' \<or> name = ''flowId'' then Some (\<lambda>v (f, seq). Inr (v, seq))
      else if name = ''from_seq'' \<or> name = ''fromSeq''
      then Some (\<lambda>v (f, seq). bind_sum (conv_Uint64 c v) (\<lambda>seq. Inr (f, seq)))
      else None)"

definition filter_AwaitStageResult :: DoubleArray where
  "filter_AwaitStageResult =
     \<lparr>Encoding = [(''flow_id'', 0), (''stage_id'', 1)], Base = [1, 1, 2, 0, 0], Check = [0, 1, 1, 2, 3]\<rparr>"

definition filter_StreamEvents :: DoubleArray where
  "filter_StreamEvents = \<lparr>Encoding = [(''flow_id'', 0)], Base = [1, 1, 0], Check = [0, 1, 2]\<rparr>"

definition query_param :: "string + 'm \<Rightarrow> error + 'm" where
  "query_param r = (case r of Inl err \<Rightarrow> Inl (invalid_argument err) | Inr m \<Rightarrow> Inr m)"

subsection \<open>One function for each method\<close>

definition request_CreateGraph :: "gateway_codec \<Rightarrow> rest_request \<Rightarrow> (string \<times> string) list \<Rightarrow> error + gateway_call" where
  "request_CreateGraph c req pathParams =
     bind_sum (decode_body (dec_CreateGraph c) req) (\<lambda>(f, fn). Inr (Call (CreateGraphRequest f fn)))"

definition request_AddStage :: "gateway_codec \<Rightarrow> rest_request \<Rightarrow> (string \<times> string) list \<Rightarrow> error + gateway_call" where
  "request_AddStage c req pathParams =
     bind_sum (decode_body (dec_AddStage c) req) (\<lambda>(_, op, cl, deps, loc, caller).
     bind_sum (path_param ''flow_id'' pathParams) (\<lambda>f. Inr (Call (AddStageRequest f op cl deps loc caller))))"

definition request_AddValueStage :: "gateway_codec \<Rightarrow> rest_request \<Rightarrow> (string \<times> string) list \<Rightarrow> error + gateway_call" where
  "request_AddValueStage c req pathParams =
     bind_sum (decode_body (dec_AddValueStage c) req) (\<lambda>(_, v, loc, caller).
     bind_sum (path_param ''flow_id'' pathParams) (\<lambda>f. Inr (Call (AddCompletedValueStageRequest f v loc caller))))"

definition request_AddInvokeFunction :: "gateway_codec \<Rightarrow> rest_request \<Rightarrow> (string \<times> string) list \<Rightarrow> error + gateway_call" where
  "request_AddInvokeFunction c req pathParams =
     bind_sum (decode_body (dec_AddInvokeFunction c) req) (\<lambda>(_, fn, arg, loc, caller).
     bind_sum (path_param ''flow_id'' pathParams) (\<lambda>f. Inr (Call (AddInvokeFunctionStageRequest f fn arg loc caller))))"

definition request_AddDelay :: "gateway_codec \<Rightarrow> rest_request \<Rightarrow> (string \<times> string) list \<Rightarrow> error + gateway_call" where
  "request_AddDelay c req pathParams =
     bind_sum (decode_body (dec_AddDelay c) req) (\<lambda>(_, ms, loc, caller).
     bind_sum (path_param ''flow_id'' pathParams) (\<lambda>f. Inr (Call (AddDelayStageRequest f ms loc caller))))"

definition request_AwaitStageResult :: "gateway_codec \<Rightarrow> rest_request \<Rightarrow> (string \<times> string) list \<Rightarrow> error + gateway_call" where
  "request_AwaitStageResult c req pathParams =
     bind_sum (path_param ''flow_id'' pathParams) (\<lambda>f.
     bind_sum (path_param ''stage_id'' pathParams) (\<lambda>sid.
     bind_sum (query_param (PopulateQueryParameters c (fields_AwaitStageResult c) filter_AwaitStageResult (rqQuery req) (f, sid, 0)))
       (\<lambda>(f, sid, ms). Inr (Call (AwaitStageResultRequest f sid ms)))))"

definition request_CompleteStageExternally :: "gateway_codec \<Rightarrow> rest_request \<Rightarrow> (string \<times> string) list \<Rightarrow> error + gateway_call" where
  "request_CompleteStageExternally c req pathParams =
     bind_sum (decode_body (dec_CompleteStageExternally c) req) (\<lambda>(_, _, v, loc, caller).
     bind_sum (path_param ''flow_id'' pathParams) (\<lambda>f.
     bind_sum (path_param ''stage_id'' pathParams) (\<lambda>sid.
       Inr (Call (CompleteStageExternallyRequest f sid v loc caller)))))"

definition request_Commit :: "gateway_codec \<Rightarrow> rest_request \<Rightarrow> (string \<times> string) list \<Rightarrow> error + gateway_call" where
  "request_Commit c req pathParams =
     bind_sum (path_param ''flow_id'' pathParams) (\<lambda>f. Inr (Call (CommitGraphRequest f)))"

definition request_GetGraphState :: "gateway_codec \<Rightarrow> rest_request \<Rightarrow> (string \<times> string) list \<Rightarrow> error + gateway_call" where
  "request_GetGraphState c req pathParams =
     bind_sum (path_param ''flow_id'' pathParams) (\<lambda>f. Inr (Call (GetGraphStateRequest f)))"

definition request_StreamLifecycle :: "gateway_codec \<Rightarrow> rest_request \<Rightarrow> (string \<times> string) list \<Rightarrow> error + gateway_call" where
  "request_StreamLifecycle c req pathParams = Inr CallStreamLifecycle"

definition request_StreamEvents :: "gateway_codec \<Rightarrow> rest_request \<Rightarrow> (string \<times> string) list \<Rightarrow> error + gateway_call" where
  "request_StreamEvents c req pathParams =
     bind_sum (path_param ''flow_id'' pathParams) (\<lambda>f.
     bind_sum (query_param (PopulateQueryParameters c (fields_StreamEvents c) filter_StreamEvents (rqQuery req) (f, 0)))
       (\<lambda>(f, seq). Inr (CallStreamEvents f seq)))"

fun request_FlowService :: "route \<Rightarrow> gateway_codec \<Rightarrow> rest_request \<Rightarrow> (string \<times> string) list \<Rightarrow> error + gateway_call" where
  "request_FlowService R_CreateGraph = request_CreateGraph"
| "request_FlowService R_AddStage = request_AddStage"
| "request_FlowService R_AddValueStage = request_AddValueStage"
| "request_FlowService R_AddInvokeFunction = request_AddInvokeFunction"
| "request_FlowService R_AddDelay = request_AddDelay"
| "request_FlowService R_AwaitStageResult = request_AwaitStageResult"
| "request_FlowService R_CompleteStageExternally = request_CompleteStageExternally"
| "request_FlowService R_Commit = request_Commit"
| "request_FlowService R_GetGraphState = request_GetGraphState"
| "request_FlowService R_StreamLifecycle = request_StreamLifecycle"
| "request_FlowService R_StreamEvents = request_StreamEvents"

section \<open>Dispatch\<close>

text \<open>The handlers in the order in which they are registered.\<close>

definition RegisterFlowServiceHandlerClient :: "(string \<times> route list) list" where
  "RegisterFlowServiceHandlerClient =
     [(''POST'', [R_CreateGraph, R_AddStage, R_AddValueStage, R_AddInvokeFunction, R_AddDelay, R_CompleteStageExternally, R_Commit]),
      (''GET'', [R_AwaitStageResult, R_GetGraphState, R_StreamLifecycle, R_StreamEvents])]"

datatype rest_result = Forwarded gateway_call | GrpcError error | HttpError nat

fun first_match :: "route list \<Rightarrow> string list \<Rightarrow> string \<Rightarrow> (route \<times> (string \<times> string) list) option" where
  "first_match [] components v = None"
| "first_match (r # rs) components v =
     (case Match (pattern_FlowService r) components v of
        Some pathParams \<Rightarrow> Some (r, pathParams)
      | None \<Rightarrow> first_match rs components v)"

definition handle :: "gateway_codec \<Rightarrow> rest_request \<Rightarrow> route \<times> (string \<times> string) list \<Rightarrow> rest_result" where
  "handle c req m =
     (case AnnotateContext c (rqHeader req) of
        Some err \<Rightarrow> GrpcError err
      | None \<Rightarrow>
          (case request_FlowService (fst m) c req (snd m) of Inl err \<Rightarrow> GrpcError err | Inr call \<Rightarrow> Forwarded call))"

definition isPathLengthFallback :: "rest_request \<Rightarrow> bool" where
  "isPathLengthFallback r \<longleftrightarrow> rqMethod r = ''POST'' \<and> rqHeader r ''Content-Type'' = ''application/x-www-form-urlencoded''"

text \<open>The last component up to and after its last colon.\<close>

definition split_verb :: "string \<Rightarrow> (string \<times> string) option" where
  "split_verb s =
     (if CHR '':'' \<notin> set s then Some (s, '''')
      else let post = rev (takeWhile (\<lambda>c. c \<noteq> CHR '':'') (rev s)); pre = take (length s - length post - 1) s in
        if pre = '''' then None else Some (pre, post))"

definition ServeHTTP :: "gateway_codec \<Rightarrow> rest_request \<Rightarrow> rest_result" where
  "ServeHTTP c r =
     (if \<not> has_prefix (rqPath r) ''/'' then HttpError 400
      else let components = strings_Split (tl (rqPath r)) ''/'' in
        case split_verb (last components) of
          None \<Rightarrow> HttpError 404
        | Some (seg, v) \<Rightarrow>
            (let components = butlast components @ [seg];
                 override = rqHeader r ''X-HTTP-Method-Override'';
                 overriding = override \<noteq> '''' \<and> isPathLengthFallback r
             in if overriding \<and> \<not> rqForm_ok r then HttpError 400
                else let r = (if overriding then r\<lparr>rqMethod := ToUpper override\<rparr> else r) in
                  case (case map_of RegisterFlowServiceHandlerClient (rqMethod r) of
                          None \<Rightarrow> None | Some rs \<Rightarrow> first_match rs components v) of
                    Some m \<Rightarrow> handle c r m
                  | None \<Rightarrow>
                      (case first_match
                              (concat (map snd (filter (\<lambda>(m, rs). m \<noteq> rqMethod r) RegisterFlowServiceHandlerClient))) components v of
                         None \<Rightarrow> HttpError 404
                       | Some m \<Rightarrow>
                           if isPathLengthFallback r then (if rqForm_ok r then handle c r m else HttpError 400)
                           else HttpError 405)))"

section \<open>What the patterns match\<close>

lemma pattern_simps:
  "pattern_FlowService R_CreateGraph =
     \<lparr>ops = [OpLitPush 0, OpLitPush 1], pool = [''v1'', ''flows''], vars = [], tailLen = 0, verb = ''''\<rparr>"
  "pattern_FlowService R_StreamLifecycle =
     \<lparr>ops = [OpLitPush 0, OpLitPush 1], pool = [''v1'', ''stream''], vars = [], tailLen = 0, verb = ''''\<rparr>"
  "pattern_FlowService R_GetGraphState =
     \<lparr>ops = [OpLitPush 0, OpLitPush 1, OpPush, OpConcatN 1, OpCapture 0], pool = [''v1'', ''flows'', ''flow_id''],
      vars = [''flow_id''], tailLen = 0, verb = ''''\<rparr>"
  by (simp_all add: NewPattern_def)

definition flow_pattern :: "string \<Rightarrow> Pattern" where
  "flow_pattern word =
     \<lparr>ops = [OpLitPush 0, OpLitPush 1, OpPush, OpConcatN 1, OpCapture 0, OpLitPush 3],
      pool = [''v1'', ''flows'', ''flow_id'', word], vars = [''flow_id''], tailLen = 0, verb = ''''\<rparr>"

definition stage_pattern :: "string \<Rightarrow> Pattern" where
  "stage_pattern word =
     \<lparr>ops = [OpLitPush 0, OpLitPush 1, OpPush, OpConcatN 1, OpCapture 0, OpLitPush 3, OpPush, OpConcatN 1, OpCapture 1, OpLitPush 5],
      pool = [''v1'', ''flows'', ''flow_id'', ''stages'', ''stage_id'', word], vars = [''flow_id'', ''stage_id''], tailLen = 0, verb = ''''\<rparr>"

lemma pattern_words:
  "pattern_FlowService R_AddStage = flow_pattern ''stage''" "pattern_FlowService R_AddValueStage = flow_pattern ''value''"
  "pattern_FlowService R_AddInvokeFunction = flow_pattern ''invoke''" "pattern_FlowService R_AddDelay = flow_pattern ''delay''"
  "pattern_FlowService R_Commit = flow_pattern ''commit''" "pattern_FlowService R_StreamEvents = flow_pattern ''stream''"
  "pattern_FlowService R_AwaitStageResult = stage_pattern ''await''"
  "pattern_FlowService R_CompleteStageExternally = stage_pattern ''complete''"
  by (simp_all add: NewPattern_def flow_pattern_def stage_pattern_def)

lemma Match_flow_pattern:
  "Match (flow_pattern word) cs v = Some ps \<longleftrightarrow> v = '''' \<and> (\<exists>f. cs = [''v1'', ''flows'', f, word] \<and> ps = [(''flow_id'', f)])"
  by (auto simp: Match_def flow_pattern_def Let_def split: list.splits if_splits)

lemma Match_stage_pattern:
  "Match (stage_pattern word) cs v = Some ps \<longleftrightarrow>
     v = '''' \<and> (\<exists>f sid. cs = [''v1'', ''flows'', f, ''stages'', sid, word] \<and> ps = [(''flow_id'', f), (''stage_id'', sid)])"
  by (auto simp: Match_def stage_pattern_def Let_def split: list.splits if_splits)

lemma Match_others:
  "Match (pattern_FlowService R_CreateGraph) cs v = Some ps \<longleftrightarrow> v = '''' \<and> cs = [''v1'', ''flows''] \<and> ps = []"
  "Match (pattern_FlowService R_StreamLifecycle) cs v = Some ps \<longleftrightarrow> v = '''' \<and> cs = [''v1'', ''stream''] \<and> ps = []"
  "Match (pattern_FlowService R_GetGraphState) cs v = Some ps \<longleftrightarrow>
     v = '''' \<and> (\<exists>f. cs = [''v1'', ''flows'', f] \<and> ps = [(''flow_id'', f)])"
  by (auto simp: Match_def pattern_simps Let_def simp del: pattern_FlowService.simps split: list.splits if_splits)

text \<open>The paths of the routes, and what they bind.\<close>

fun route_path :: "route \<Rightarrow> flow_id \<Rightarrow> stage_id \<Rightarrow> string list" where
  "route_path R_CreateGraph f sid = [''v1'', ''flows'']"
| "route_path R_AddStage f sid = [''v1'', ''flows'', f, ''stage'']"
| "route_path R_AddValueStage f sid = [''v1'', ''flows'', f, ''value'']"
| "route_path R_AddInvokeFunction f sid = [''v1'', ''flows'', f, ''invoke'']"
| "route_path R_AddDelay f sid = [''v1'', ''flows'', f, ''delay'']"
| "route_path R_AwaitStageResult f sid = [''v1'', ''flows'', f, ''stages'', sid, ''await'']"
| "route_path R_CompleteStageExternally f sid = [''v1'', ''flows'', f, ''stages'', sid, ''complete'']"
| "route_path R_Commit f sid = [''v1'', ''flows'', f, ''commit'']"
| "route_path R_GetGraphState f sid = [''v1'', ''flows'', f]"
| "route_path R_StreamLifecycle f sid = [''v1'', ''stream'']"
| "route_path R_StreamEvents f sid = [''v1'', ''flows'', f, ''stream'']"

fun route_params :: "route \<Rightarrow> flow_id \<Rightarrow> stage_id \<Rightarrow> (string \<times> string) list" where
  "route_params R_CreateGraph f sid = []"
| "route_params R_StreamLifecycle f sid = []"
| "route_params R_AwaitStageResult f sid = [(''flow_id'', f), (''stage_id'', sid)]"
| "route_params R_CompleteStageExternally f sid = [(''flow_id'', f), (''stage_id'', sid)]"
| "route_params _ f sid = [(''flow_id'', f)]"

lemma Match_route:
  "Match (pattern_FlowService r) cs v = Some ps \<longleftrightarrow> v = '''' \<and> (\<exists>f sid. cs = route_path r f sid \<and> ps = route_params r f sid)"
  by (cases r) (auto simp: pattern_words Match_flow_pattern Match_stage_pattern Match_others simp del: pattern_FlowService.simps)

text \<open>No path belongs to two routes.\<close>

lemma route_path_inj: "route_path r f sid = route_path r' f' sid' \<Longrightarrow> r = r' \<and> route_params r f sid = route_params r' f' sid'"
  by (cases r; cases r'; simp)

lemma first_match_iff:
  "first_match rs cs v = Some (r, ps) \<longleftrightarrow> r \<in> set rs \<and> Match (pattern_FlowService r) cs v = Some ps"
proof (induction rs)
  case (Cons a rs)
  have "r = a \<and> ps = qs" if "Match (pattern_FlowService a) cs v = Some qs" "Match (pattern_FlowService r) cs v = Some ps" for qs
    using that route_path_inj unfolding Match_route by metis
  with Cons.IH show ?case
    by (auto split: option.splits)
qed simp

section \<open>Splitting and joining paths\<close>

lemma strings_Join_Cons: "ss \<noteq> [] \<Longrightarrow> strings_Join (s # ss) sep = s @ sep @ strings_Join ss sep"
  by (cases ss) simp_all

lemma split_from_not_Nil [simp]: "split_from sep cur s \<noteq> []"
  by (induction sep cur s rule: split_from.induct) (simp add: split_from.simps)

lemma Join_split_from: "strings_Join (split_from sep cur s) sep = cur @ s"
proof (induction sep cur s rule: split_from.induct)
  case (1 sep cur s)
  have "sep @ drop (length sep) s = s" if "has_prefix s sep"
    using that append_take_drop_id [of "length sep" s] by (simp add: has_prefix_def)
  with 1 show ?case
    by (subst split_from.simps) (auto simp: strings_Join_Cons)
qed

lemma split_from_free:
  assumes "c \<notin> set cur"
  shows "\<forall>x \<in> set (split_from [c] cur s). c \<notin> set x"
  using assms
proof (induction "[c]" cur s rule: split_from.induct)
  case (1 cur s)
  then show ?case
    by (subst split_from.simps) (auto simp: has_prefix_def neq_Nil_conv)
qed

lemma split_from_append:
  assumes "c \<notin> set x"
  shows "split_from [c] cur (x @ c # s) = (cur @ x) # split_from [c] [] s" and "split_from [c] cur x = [cur @ x]"
  using assms
proof (induction x arbitrary: cur)
  case Nil
  {
    case 1
    show ?case by (subst split_from.simps) (simp add: has_prefix_def)
  next
    case 2
    show ?case by (subst split_from.simps) simp
  }
next
  case (Cons d x)
  {
    case 1
    then show ?case using Cons.IH(1) [of "cur @ [d]"] by (subst split_from.simps) (auto simp: has_prefix_def)
  next
    case 2
    then show ?case using Cons.IH(2) [of "cur @ [d]"] by (subst split_from.simps) (auto simp: has_prefix_def)
  }
qed

text \<open>Splitting a joined list of components that have no slash gives them back.\<close>

lemma Split_Join:
  assumes "cs \<noteq> []" and "\<forall>x \<in> set cs. c \<notin> set x"
  shows "strings_Split (strings_Join cs [c]) [c] = cs"
  using assms
proof (induction cs)
  case (Cons x cs)
  then show ?case
    using split_from_append [of c x "[]"] by (cases "cs = []") (auto simp: strings_Split_def strings_Join_Cons)
qed simp

section \<open>Properties\<close>

text \<open>A query sets the flow of a message only under its JSON name, which the filter does not have.\<close>

lemma filter_AwaitStageResult_path: "HasCommonPrefix filter_AwaitStageResult (x # xs) \<longleftrightarrow> x = ''flow_id'' \<or> x = ''stage_id''"
proof (cases xs)
  case (Cons y ys)
  then show ?thesis
    by (auto simp: HasCommonPrefix_def filter_AwaitStageResult_def Let_def)
qed (simp add: HasCommonPrefix_def filter_AwaitStageResult_def Let_def)

lemma Split_eq_key:
  assumes "strings_Split key ''.'' = [x]"
  shows "key = x"
  using assms Join_split_from [of "''.''" "[]" key] by (simp add: strings_Split_def)

lemma populate_flow_id:
  assumes "populateFieldValueFromPath c (fields_AwaitStageResult c) path values m = Inr m'"
    and "hd path \<noteq> ''flow_id''" and "path \<noteq> [''flowId'']" and "path \<noteq> []"
  shows "fst m' = fst m"
proof -
  have "hd path \<noteq> ''flowId'' \<or> length path \<noteq> 1"
    using assms(3,4) by (cases path) auto
  moreover have "fst m' = f" if "bind_sum (conv_Int32 c v) (\<lambda>ms. Inr (f, sid, ms)) = Inr m'" for v f sid
    using that by (cases "conv_Int32 c v") auto
  ultimately show ?thesis
    using assms(1,2)
    by (cases m) (auto simp: populateFieldValueFromPath_def fields_AwaitStageResult_def split: if_splits option.splits list.splits)
qed

lemma query_keeps_flow_id:
  assumes "PopulateQueryParameters c (fields_AwaitStageResult c) filter_AwaitStageResult query m = Inr m'"
    and "''flowId'' \<notin> fst ` set query"
  shows "fst m' = fst m"
  using assms
proof (induction query arbitrary: m)
  case (Cons q query)
  obtain key vals x xs where q: "q = (key, vals)" and path: "strings_Split key ''.'' = x # xs"
    by (metis split_from_not_Nil neq_Nil_conv strings_Split_def surj_pair)
  show ?case
  proof (cases "HasCommonPrefix filter_AwaitStageResult (x # xs)")
    case True
    then show ?thesis
      using Cons q path by simp
  next
    case False
    have "x # xs \<noteq> [''flowId'']"
      using Split_eq_key [of key "''flowId''"] path Cons.prems(2) q by auto
    moreover obtain u where u: "populateFieldValueFromPath c (fields_AwaitStageResult c) (x # xs) vals m = Inr u"
        "PopulateQueryParameters c (fields_AwaitStageResult c) filter_AwaitStageResult query u = Inr m'"
      using Cons.prems(1) False q path by (cases "populateFieldValueFromPath c (fields_AwaitStageResult c) (x # xs) vals m") auto
    ultimately have "fst u = fst m"
      using populate_flow_id [OF u(1)] False by (auto simp: filter_AwaitStageResult_path)
    then show ?thesis
      using Cons.IH [OF u(2)] Cons.prems(2) by simp
  qed
qed simp

lemma request_AwaitStageResult_flow:
  assumes "request_AwaitStageResult c req [(''flow_id'', f), (''stage_id'', sid)] = Inr (Call cmd)"
    and "''flowId'' \<notin> fst ` set (rqQuery req)"
  shows "CmdFlowId cmd = f"
proof -
  let ?q = "PopulateQueryParameters c (fields_AwaitStageResult c) filter_AwaitStageResult (rqQuery req) (f, sid, 0)"
  obtain f' sid' ms where q: "?q = Inr (f', sid', ms)" and "cmd = AwaitStageResultRequest f' sid' ms"
    using assms(1) by (cases ?q) (auto simp: request_AwaitStageResult_def path_param_def query_param_def)
  then show ?thesis
    using query_keeps_flow_id [OF q assms(2)] by simp
qed

lemma request_flow_id:
  assumes "request_FlowService r c req (route_params r f sid) = Inr (Call cmd)" and "''flowId'' \<notin> fst ` set (rqQuery req)"
  shows "r \<noteq> R_StreamLifecycle \<and> (if r = R_CreateGraph then is_CreateGraphRequest cmd else CmdFlowId cmd = f)"
proof (cases "r = R_AwaitStageResult")
  case True
  then show ?thesis
    using assms request_AwaitStageResult_flow by auto
next
  case False
  then show ?thesis
    using assms(1)
    by (cases r) (auto simp: request_CreateGraph_def request_AddStage_def request_AddValueStage_def request_AddInvokeFunction_def
        request_AddDelay_def request_CompleteStageExternally_def request_Commit_def request_GetGraphState_def
        request_StreamLifecycle_def request_StreamEvents_def path_param_def decode_body_def query_param_def
        split: option.splits sum.splits)
qed

lemma ServeHTTP_Forwarded:
  assumes "ServeHTTP c req = Forwarded call"
  shows "\<exists>m rs cs v req' seg. has_prefix (rqPath req) ''/'' \<and>
    split_verb (last (strings_Split (tl (rqPath req)) ''/'')) = Some (seg, v) \<and>
    butlast (strings_Split (tl (rqPath req)) ''/'') @ [seg] = cs \<and> first_match rs cs v = Some m \<and> handle c req' m = Forwarded call \<and>
    rqQuery req' = rqQuery req"
  using assms unfolding ServeHTTP_def Let_def by (simp split: if_splits option.splits prod.splits) (metis (no_types, lifting) rest_request.select_convs(3) rest_request.surjective rest_request.update_convs(1) surj_pair)+

lemma forwarded_route:
  assumes "first_match rs cs v = Some m" and "handle c req m = Forwarded call"
  shows "\<exists>r f sid. v = '''' \<and> cs = route_path r f sid \<and> request_FlowService r c req (route_params r f sid) = Inr call"
  using assms by (cases m) (auto simp: first_match_iff Match_route handle_def split: sum.splits option.splits)

lemma split_verb_no_verb:
  assumes "split_verb s = Some (seg, '''')"
  shows "s = seg \<or> s = seg @ '':''"
proof (cases "CHR '':'' \<in> set s")
  case True
  then have "takeWhile (\<lambda>c. c \<noteq> CHR '':'') (rev s) = []" and seg: "seg = butlast s"
    using assms by (auto simp: split_verb_def Let_def butlast_conv_take split: if_splits)
  then have "last s = CHR '':''"
    using True by (cases s rule: rev_cases) (auto split: if_splits)
  moreover have "s \<noteq> []"
    using True by auto
  ultimately show ?thesis
    using append_butlast_last_id [of s] seg by simp
next
  case False
  then show ?thesis
    using assms by (simp add: split_verb_def)
qed

lemma rest_flow_id:
  assumes "ServeHTTP c req = Forwarded (Call cmd)" and "\<not> is_CreateGraphRequest cmd"
    and "''flowId'' \<notin> fst ` set (rqQuery req)"
  shows "\<exists>rest. rqPath req = ''/v1/flows/'' @ CmdFlowId cmd @ rest \<and> CHR ''/'' \<notin> set (CmdFlowId cmd) \<and>
    (rest = '''' \<or> hd rest = CHR ''/'' \<or> hd rest = CHR '':'')"
proof -
  let ?cs = "strings_Split (tl (rqPath req)) ''/''"
  obtain r f sid seg req' where slash: "has_prefix (rqPath req) ''/''" and seg: "split_verb (last ?cs) = Some (seg, '''')"
      and cs: "butlast ?cs @ [seg] = route_path r f sid" and fwd: "request_FlowService r c req' (route_params r f sid) = Inr (Call cmd)"
      and query: "rqQuery req' = rqQuery req"
    using ServeHTTP_Forwarded [OF assms(1)] forwarded_route by metis
  have r: "r \<noteq> R_StreamLifecycle" "r \<noteq> R_CreateGraph" and f: "CmdFlowId cmd = f"
    using request_flow_id [OF fwd] assms(2,3) query by (auto split: if_splits)
  have path: "rqPath req = CHR ''/'' # strings_Join ?cs ''/''"
    using slash by (cases "rqPath req") (auto simp: has_prefix_def strings_Split_def Join_split_from)
  have free: "\<forall>x \<in> set ?cs. CHR ''/'' \<notin> set x"
    unfolding strings_Split_def by (rule split_from_free) simp
  have comps: "?cs = butlast (route_path r f sid) @ [last ?cs]" and seg': "seg = last (route_path r f sid)"
    using cs append_butlast_last_id [of ?cs] by (metis butlast_snoc split_from_not_Nil strings_Split_def, metis last_snoc)
  have "\<exists>rest. strings_Join ?cs ''/'' = ''v1/flows/'' @ f @ rest \<and> (rest = '''' \<or> hd rest = CHR ''/'' \<or> hd rest = CHR '':'')"
    using split_verb_no_verb [OF seg] r seg' by (subst comps, cases r) auto
  moreover have "CHR ''/'' \<notin> set f"
  proof -
    have "f \<in> set (butlast ?cs @ [seg])"
      using r cs by (cases r) auto
    then show ?thesis
      using free split_verb_no_verb [OF seg] comps by (auto dest: in_set_butlastD) (metis Un_iff comps last_in_set set_append split_from_not_Nil strings_Split_def)
  qed
  ultimately show ?thesis
    using path f by auto
qed

fun route_method :: "route \<Rightarrow> string" where
  "route_method R_AwaitStageResult = ''GET''"
| "route_method R_GetGraphState = ''GET''"
| "route_method R_StreamLifecycle = ''GET''"
| "route_method R_StreamEvents = ''GET''"
| "route_method _ = ''POST''"

text \<open>Every operation can be reached: a request for its path goes to its handler, with the identifiers
  of the path.\<close>

theorem rest_reaches_handler:
  assumes "CHR ''/'' \<notin> set f" and "CHR '':'' \<notin> set f" and "CHR ''/'' \<notin> set sid"
    and req: "rqMethod req = route_method r" "rqPath req = ''/'' @ strings_Join (route_path r f sid) ''/''"
      "rqHeader req ''X-HTTP-Method-Override'' = ''''"
  shows "ServeHTTP c req = handle c req (r, route_params r f sid)"
proof -
  have cs: "strings_Split (tl (rqPath req)) ''/'' = route_path r f sid"
    unfolding req using assms(1,3) by (cases r) (simp_all add: Split_Join del: strings_Join.simps)
  have verb: "split_verb (last (route_path r f sid)) = Some (last (route_path r f sid), '''')"
    using assms(2) by (cases r) (simp_all add: split_verb_def)
  have "first_match rs (route_path r f sid) '''' = Some (r, route_params r f sid)" if "r \<in> set rs" for rs
    using that by (auto simp: first_match_iff Match_route)
  moreover have "\<exists>rs. map_of RegisterFlowServiceHandlerClient (route_method r) = Some rs \<and> r \<in> set rs"
    by (cases r) (simp_all add: RegisterFlowServiceHandlerClient_def)
  moreover have "butlast (route_path r f sid) @ [last (route_path r f sid)] = route_path r f sid"
    by (rule append_butlast_last_id) (cases r; simp)
  ultimately show ?thesis
    using cs verb req(1,3) by (auto simp: ServeHTTP_def Let_def req(2) has_prefix_def)
qed

definition demo_codec :: gateway_codec where
  "demo_codec = \<lparr>dec_CreateGraph = \<lambda>_. Inl ''EOF'', dec_AddStage = \<lambda>_. Inl ''EOF'', dec_AddValueStage = \<lambda>_. Inl ''EOF'',
     dec_AddInvokeFunction = \<lambda>_. Inl ''EOF'', dec_AddDelay = \<lambda>b. Inr (''other'', 5, '''', ''''),
     dec_CompleteStageExternally = \<lambda>_. Inl ''EOF'', conv_Int32 = \<lambda>_. Inr 0, conv_Uint64 = \<lambda>_. Inr 0,
     other_field = \<lambda>_ _. None, AnnotateContext = \<lambda>_. None\<rparr>"

definition demo_rest :: rest_request where
  "demo_rest = \<lparr>rqMethod = ''POST'', rqPath = ''/v1/flows/mine/delay'', rqQuery = [], rqBody = '''', rqHeader = \<lambda>_. '''', rqForm_ok = True\<rparr>"

text \<open>C19: A query can redirect a request to another flow than the one in its path: the filter that protects
  the parameters of the path knows them as \<^verbatim>\<open>flow_id\<close> and \<^verbatim>\<open>stage_id\<close>, but the library finds fields by their JSON
  names too, so \<^verbatim>\<open>GET /v1/flows/f/stages/s/await?flowId=g\<close> waits for a stage of the flow \<^verbatim>\<open>g\<close>.\<close>

theorem rest_query_redirects:
  assumes "CHR ''/'' \<notin> set f" and "CHR ''/'' \<notin> set sid" and "CHR '':'' \<notin> set f"
    and "AnnotateContext c (rqHeader req) = None" and "rqHeader req ''X-HTTP-Method-Override'' = ''''"
    and "rqMethod req = ''GET''" and "rqPath req = ''/v1/flows/'' @ f @ ''/stages/'' @ sid @ ''/await''"
    and "rqQuery req = [(''flowId'', [g])]"
  shows "ServeHTTP c req = Forwarded (Call (AwaitStageResultRequest g sid 0))"
proof -
  have "strings_Split ''flowId'' ''.'' = [''flowId'']"
    using Split_Join [of "[''flowId'']" "CHR ''.''"] by simp
  moreover have "ServeHTTP c req = handle c req (R_AwaitStageResult, route_params R_AwaitStageResult f sid)"
    using assms by (intro rest_reaches_handler) simp_all
  ultimately show ?thesis
    using assms(4,8) filter_AwaitStageResult_path [of "''flowId''" "[]"]
    by (simp add: handle_def request_AwaitStageResult_def path_param_def query_param_def populateFieldValueFromPath_def
        fields_AwaitStageResult_def)
qed

theorem rest_query_redirects_witness:
  "ServeHTTP demo_codec (demo_rest\<lparr>rqMethod := ''GET'', rqPath := ''/v1/flows/mine/stages/0/await'', rqQuery := [(''flowId'', [''yours''])]\<rparr>) =
     Forwarded (Call (AwaitStageResultRequest ''yours'' ''0'' 0))"
  by (rule rest_query_redirects [of "''mine''"]) (simp_all add: demo_rest_def demo_codec_def)

end
