(* ===== verification/Asset_Restore.thy ===== *)
theory Asset_Restore
  imports Api_Document Rest_Gateway
begin

text \<open>
  Restoring embedded files to disk, the rest of \<^verbatim>\<open>src/model/swagger_file.go\<close>. No code of the service does it; the functions are
  part of the file's interface. Paths are those of Unix, with \<^verbatim>\<open>Clean\<close>, \<^verbatim>\<open>Join\<close> and \<^verbatim>\<open>Dir\<close> of \<^verbatim>\<open>path/filepath\<close>; the operations of
  the file system are arguments.
\<close>

section \<open>Paths\<close>

text \<open>\<open>out\<close> has the elements that are kept, the last one first.\<close>

fun clean_elems :: "bool \<Rightarrow> string list \<Rightarrow> string list \<Rightarrow> string list" where
  "clean_elems rooted out [] = rev out"
| "clean_elems rooted out (e # es) =
     (if e = '''' \<or> e = ''.'' then clean_elems rooted out es
      else if e = ''..'' then
        (case out of
           [] \<Rightarrow> clean_elems rooted (if rooted then [] else [''..'']) es
         | x # xs \<Rightarrow> if x = ''..'' then clean_elems rooted (''..'' # out) es else clean_elems rooted xs es)
      else clean_elems rooted (e # out) es)"

definition path_Clean :: "string \<Rightarrow> string" where
  "path_Clean path =
     (let rooted = has_prefix path ''/''; cs = clean_elems rooted [] (strings_Split path ''/'')
      in if rooted then CHR ''/'' # strings_Join cs ''/'' else if cs = [] then ''.'' else strings_Join cs ''/'')"

fun path_Join :: "string list \<Rightarrow> string" where
  "path_Join [] = ''''"
| "path_Join (e # es) = (if e \<noteq> '''' then path_Clean (strings_Join (e # es) ''/'') else path_Join es)"

definition path_Dir :: "string \<Rightarrow> string" where
  "path_Dir path = path_Clean (rev (dropWhile (\<lambda>c. c \<noteq> CHR ''/'') (rev path)))"

definition filePath :: "string \<Rightarrow> string \<Rightarrow> string" where
  "filePath dir name = path_Join (dir # strings_Split (canonical_name name) ''/'')"

section \<open>Restoring\<close>

text \<open>Every operation of the file system returns an error or \<^verbatim>\<open>nil\<close>, and the file system after it.\<close>

record 'fs os_ops =
  MkdirAll :: "string \<Rightarrow> nat \<Rightarrow> 'fs \<Rightarrow> string option \<times> 'fs"
  WriteFile :: "string \<Rightarrow> string \<Rightarrow> nat \<Rightarrow> 'fs \<Rightarrow> string option \<times> 'fs"
  Chtimes :: "string \<Rightarrow> int \<Rightarrow> int \<Rightarrow> 'fs \<Rightarrow> string option \<times> 'fs"

definition MustAssetString :: "asset_table \<Rightarrow> string \<Rightarrow> (unit, string) outcome" where
  "MustAssetString table name = MustAsset table name"

text \<open>The mode \<^verbatim>\<open>0755\<close> is 493.\<close>

definition RestoreAsset :: "'fs os_ops \<Rightarrow> asset_table \<Rightarrow> string \<Rightarrow> string \<Rightarrow> 'fs \<Rightarrow> string option \<times> 'fs" where
  "RestoreAsset os table dir name fs =
     (case Asset table name of
        Inl err \<Rightarrow> (Some err, fs)
      | Inr data \<Rightarrow>
          (case AssetInfo table name of
             Inl err \<Rightarrow> (Some err, fs)
           | Inr info \<Rightarrow>
               (case MkdirAll os (filePath dir (path_Dir name)) 493 fs of
                  (Some err, fs) \<Rightarrow> (Some err, fs)
                | (None, fs) \<Rightarrow>
                    (case WriteFile os (filePath dir name) data (fileMode info) fs of
                       (Some err, fs) \<Rightarrow> (Some err, fs)
                     | (None, fs) \<Rightarrow> Chtimes os (filePath dir name) (fileModTime info) (fileModTime info) fs))))"

text \<open>A loop that ends with the first error.\<close>

fun until_error :: "('a \<Rightarrow> 'fs \<Rightarrow> string option \<times> 'fs) \<Rightarrow> 'a list \<Rightarrow> 'fs \<Rightarrow> string option \<times> 'fs" where
  "until_error f [] fs = (None, fs)"
| "until_error f (x # xs) fs = (case f x fs of (Some err, fs) \<Rightarrow> (Some err, fs) | (None, fs) \<Rightarrow> until_error f xs fs)"

lemma until_error_cong [fundef_cong]:
  "xs = ys \<Longrightarrow> fs = gs \<Longrightarrow> (\<And>x s. x \<in> set ys \<Longrightarrow> f x s = g x s) \<Longrightarrow> until_error f xs fs = until_error g ys gs"
proof (induction xs arbitrary: ys fs gs)
  case (Cons x xs)
  then show ?case
    by (auto split: prod.splits option.splits)
qed auto

text \<open>The directories of the tree are the root and \<^verbatim>\<open>model\<close>.\<close>

lemma split_single:
  assumes "strings_Split s sep = [x]"
  shows "s = x"
  using assms Join_split_from [of sep "[]" s] by (simp add: strings_Split_def)

lemma walk_model:
  assumes "walk_tree (p # ps) the_bintree = Some node" and "\<not> Func node"
  shows "p = ''model'' \<and> ps = [] \<and> Children node = [(''model.swagger.json'', Bintree True [])]"
proof -
  have p: "p = ''model''" and walk: "walk_tree ps (Bintree False [(''model.swagger.json'', Bintree True [])]) = Some node"
    using assms(1) by (simp_all add: the_bintree_def split: if_splits)
  show ?thesis
  proof (cases ps)
    case (Cons q qs)
    then have "walk_tree qs (Bintree True []) = Some node"
      using walk by (simp split: if_splits)
    then show ?thesis
      using assms(2) by (cases qs) auto
  qed (use p walk in auto)
qed

lemma AssetDir_cases:
  assumes "AssetDir the_bintree name = Inr kids"
  obtains "name = ''''" "kids = [''model'']" | "name = ''model''" "kids = [''model.swagger.json'']"
proof (cases "name = ''''")
  case True
  then show ?thesis
    using assms that(1) by (simp add: AssetDir_def the_bintree_def)
next
  case False
  obtain p ps where ps: "strings_Split (canonical_name name) ''/'' = p # ps"
    by (metis split_from_not_Nil neq_Nil_conv strings_Split_def)
  obtain node where "walk_tree (p # ps) the_bintree = Some node" "\<not> Func node" "kids = map fst (Children node)"
    using assms False ps by (auto simp: AssetDir_def split: option.splits if_splits)
  then have *: "p = ''model'' \<and> ps = []" and kids: "kids = [''model.swagger.json'']"
    using walk_model [of p ps node] by simp_all
  then have "canonical_name name = ''model''"
    using ps split_single [of "canonical_name name" "''/''" p] by simp
  then have "name = ''model''"
    by (auto simp: canonical_name_def map_eq_Cons_conv split: if_splits)
  then show ?thesis
    using kids that(2) by simp
qed

text \<open>So the recursion ends: a directory's children are closer to the files.\<close>

lemma join_model: "path_Join ['''', ''model''] = ''model''"
  "path_Join [''model'', ''model.swagger.json''] = ''model/model.swagger.json''"
  by code_simp+

definition tree_level :: "string \<Rightarrow> nat" where
  "tree_level name = (if name = '''' then 2 else if name = ''model'' then 1 else 0)"

lemma child_level:
  assumes "AssetDir the_bintree name = Inr kids" and "kid \<in> set kids"
  shows "tree_level (path_Join [name, kid]) < tree_level name"
  using assms(1)
proof (cases rule: AssetDir_cases)
  case 1
  then have "kid = ''model''"
    using assms(2) by simp
  then show ?thesis
    unfolding 1 using join_model(1) by (simp add: tree_level_def del: path_Join.simps)
next
  case 2
  then have "kid = ''model.swagger.json''"
    using assms(2) by simp
  then show ?thesis
    unfolding 2 using join_model(2) by (simp add: tree_level_def del: path_Join.simps)
qed

function RestoreAssets :: "'fs os_ops \<Rightarrow> asset_table \<Rightarrow> string \<Rightarrow> string \<Rightarrow> 'fs \<Rightarrow> string option \<times> 'fs" where
  "RestoreAssets os table dir name fs =
     (case AssetDir the_bintree name of
        Inl err \<Rightarrow> RestoreAsset os table dir name fs
      | Inr kids \<Rightarrow> until_error (\<lambda>kid. RestoreAssets os table dir (path_Join [name, kid])) kids fs)"
  by pat_completeness auto
termination
  by (relation "measure (\<lambda>(os, table, dir, name, fs). tree_level name)")
    (simp_all add: child_level del: path_Join.simps)

declare RestoreAssets.simps [simp del]

section \<open>What is restored\<close>

text \<open>The root, the directory and the file restore the same: the document. Every other name fails and leaves the
  file system alone, whatever the tree's table can read.\<close>

lemma AssetDir_dirs:
  "AssetDir the_bintree '''' = Inr [''model'']" "AssetDir the_bintree ''model'' = Inr [''model.swagger.json'']"
  by code_simp+

lemma RestoreAssets_file:
  assumes "canonical_name name = ''model/model.swagger.json''"
  shows "RestoreAssets os (bindata gz document) dir name fs = RestoreAsset os (bindata gz document) dir name fs"
proof -
  obtain err where "AssetDir the_bintree name = Inl err"
    using asset_is_no_directory [of gz document name] assms by (auto simp: bindata_def)
  then show ?thesis
    by (simp add: RestoreAssets.simps)
qed

lemma until_error_single: "until_error f [x] fs = f x fs"
  by (auto split: prod.splits option.splits)

theorem RestoreAssets_restores:
  "RestoreAssets os (bindata gz document) dir name fs =
     (if name = '''' \<or> name = ''model'' then RestoreAsset os (bindata gz document) dir ''model/model.swagger.json'' fs
      else if canonical_name name = ''model/model.swagger.json'' then RestoreAsset os (bindata gz document) dir name fs
      else (Some (''Asset '' @ name @ '' not found''), fs))"
proof -
  have doc: "RestoreAssets os (bindata gz document) dir ''model/model.swagger.json'' fs =
      RestoreAsset os (bindata gz document) dir ''model/model.swagger.json'' fs" for fs
    by (rule RestoreAssets_file) (simp add: canonical_name_def)
  have model: "RestoreAssets os (bindata gz document) dir ''model'' fs =
      RestoreAsset os (bindata gz document) dir ''model/model.swagger.json'' fs" for fs
    by (subst RestoreAssets.simps) (simp only: AssetDir_dirs sum.case until_error_single join_model doc)
  show ?thesis
  proof (cases "AssetDir the_bintree name")
    case (Inl err)
    then have "name \<noteq> ''''" "name \<noteq> ''model''"
      using AssetDir_dirs by auto
    then show ?thesis
      using Inl by (auto simp: RestoreAssets.simps RestoreAsset_def Asset_def bindata_def)
  next
    case (Inr kids)
    then show ?thesis
    proof (cases rule: AssetDir_cases)
      case 1
      then show ?thesis
        by (subst RestoreAssets.simps) (simp add: AssetDir_dirs until_error_single join_model model del: until_error.simps path_Join.simps)
    qed (simp add: model)
  qed
qed

lemma restored_paths:
  "filePath dir (path_Dir ''model/model.swagger.json'') = path_Join [dir, ''model'']"
  "filePath dir ''model/model.swagger.json'' = path_Join [dir, ''model'', ''model.swagger.json'']"
proof -
  have "path_Dir ''model/model.swagger.json'' = ''model''" "canonical_name ''model'' = ''model''"
    "canonical_name ''model/model.swagger.json'' = ''model/model.swagger.json''" "strings_Split ''model'' ''/'' = [''model'']"
    by code_simp+
  then show "filePath dir (path_Dir ''model/model.swagger.json'') = path_Join [dir, ''model'']"
    "filePath dir ''model/model.swagger.json'' = path_Join [dir, ''model'', ''model.swagger.json'']"
    by (simp_all add: filePath_def split_swagger_name)
qed

text \<open>A document that can be read is written below the directory, after its directory was made, with the mode of its table entry, which is
  0: nobody but the superuser may read the restored file. One that cannot be read leaves the file system alone.\<close>

lemma restored_document:
  assumes "gz document = Unzipped content"
    and "MkdirAll os (path_Join [dir, ''model'']) 493 fs = (None, fs1)"
    and "WriteFile os (path_Join [dir, ''model'', ''model.swagger.json'']) content 0 fs1 = (None, fs2)"
  shows "RestoreAssets os (bindata gz document) dir '''' fs =
    Chtimes os (path_Join [dir, ''model'', ''model.swagger.json'']) 0 0 fs2"
proof -
  let ?t = "bindata gz document"
  have "Asset ?t ''model/model.swagger.json'' = Inr content"
    using Asset_document [of gz document] assms(1) by simp
  moreover obtain info where "AssetInfo ?t ''model/model.swagger.json'' = Inr info" "fileMode info = 0" "fileModTime info = 0"
    using assms(1) by (simp add: AssetInfo_def bindata_def canonical_name_def modelModelSwaggerJson_def
        modelModelSwaggerJsonBytes_def bindataRead_def)
  ultimately show ?thesis
    using assms(2,3) by (simp add: RestoreAssets_restores RestoreAsset_def restored_paths del: path_Join.simps)
qed

lemma unreadable_document:
  assumes "gz document = OpenFailed err \<or> gz document = CopyFailed err"
  shows "\<exists>e. RestoreAssets os (bindata gz document) dir '''' fs = (Some e, fs)"
  using assms Asset_document [of gz document] by (auto simp: RestoreAssets_restores RestoreAsset_def)

end
