(* ===== verification/Api_Server.thy ===== *)
theory Api_Server
  imports Service_Properties Request_Validation
begin

text \<open>
  What the API server of \<^verbatim>\<open>src/server\<close> does with a call before and after its handler: the interceptors that
  \<^verbatim>\<open>NewAPIServer\<close> chains, the choice between gRPC and REST, and the collector that turns tracing spans into
  metrics (\<^verbatim>\<open>prom_zip_collector.go\<close>, \<^verbatim>\<open>fntracer.go\<close>). Times are nanoseconds.
\<close>

section \<open>Interceptors\<close>

definition grpcUnaryTimeout :: "int \<Rightarrow> int option \<Rightarrow> int \<Rightarrow> int option" where
  "grpcUnaryTimeout limit deadline now =
     Some (case deadline of None \<Rightarrow> now + limit | Some d \<Rightarrow> min d (now + limit))"

text \<open>A unary call: the timeout of two minutes, then the validation, then the handler, which is given the
  deadline of the context.\<close>

definition api_unary ::
  "(int option \<Rightarrow> Command \<Rightarrow> (service_error, 'a) outcome) \<Rightarrow> int option \<Rightarrow> int \<Rightarrow> Command \<Rightarrow> (service_error, 'a) outcome" where
  "api_unary handler deadline now req =
     (let deadline = grpcUnaryTimeout (120 * 10 ^ 9) deadline now in UnaryServerInterceptor (handler deadline) req)"

text \<open>Whether a request on the REST port is a gRPC call: \<open>major\<close> is the major version of HTTP.\<close>

definition serverGrpc :: "nat \<Rightarrow> string \<Rightarrow> string \<Rightarrow> bool" where
  "serverGrpc major verb contentType \<longleftrightarrow>
     major = 2 \<and> (verb = ''PRI'' \<or> strings_Contains contentType ''application/grpc'')"

text \<open>C39: No client waits longer than two minutes for a stage, whatever timeout it asks for. Let a valid request for the result
  of a stage of the flow arrive at \<open>now\<close>; it is forwarded to the flow's actor, which handles it, and the
  stage has the result \<open>r\<close> from time \<open>c\<close> on. The API server answers with the result if the actor had handled the
  request and the stage had its result by the earliest of three times: two minutes after the call arrived,
  the deadline that the call came with, if any, and the requested timeout, if it is positive, after the service
  was called. Otherwise the answer is the error \<^verbatim>\<open>DeadlineExceeded\<close>. (So the limit of one hour in the service is never reached
  through the API server.)\<close>

theorem api_await_is_bounded:
  assumes cmd: "cmd = AwaitStageResultRequest f sid ms" "Validate cmd = None" "lookupSupervisor m (Some cmd) = Returned pid"
    and actor: "hasGraph s" "GetStage sid s \<noteq> None"
    and later: "\<And>t. Option.bind (GetStage sid (later t)) result = (if c \<le> now2 + t then Some r else None)"
    and times: "now \<le> now1" "done_at = max (now2 + delay) c"
  shows "api_unary (\<lambda>deadline cmd. api_AwaitStageResult (ask_actor s delay later) deadline now1 now2 f sid ms m) deadline now cmd =
    (if done_at \<le> now + 120 * 10 ^ 9 \<and> (\<forall>d. deadline = Some d \<longrightarrow> done_at \<le> d) \<and> (0 < ms \<longrightarrow> done_at \<le> now1 + ms * 10 ^ 6)
     then Returned (AwaitStageResultResponse f sid r)
     else Failed (ServiceError (StatusError Code_DeadlineExceeded ''future: timeout'')))"
proof -
  define limit where "limit = the (await_deadline ms (grpcUnaryTimeout (120 * 10 ^ 9) deadline now) now1)"
  have limit: "await_deadline ms (grpcUnaryTimeout (120 * 10 ^ 9) deadline now) now1 = Some limit"
    by (simp add: limit_def await_deadline_def grpcUnaryTimeout_def Let_def)
  have "done_at \<le> limit \<longleftrightarrow>
      done_at \<le> now + 120 * 10 ^ 9 \<and> (\<forall>d. deadline = Some d \<longrightarrow> done_at \<le> d) \<and> (0 < ms \<longrightarrow> done_at \<le> now1 + ms * 10 ^ 6)"
    using times(1) by (cases deadline) (auto simp: limit_def await_deadline_def grpcUnaryTimeout_def Let_def)
  moreover have "ask_actor s delay later pid cmd (limit - now2) =
      (if done_at \<le> limit then FutureValue (AwaitStageResultResponse f sid r) else FutureTimeout)"
    using cmd(1) actor times(2) later [of "limit - now2"] by (auto simp: ask_actor_await)
  ultimately show ?thesis
    using cmd limit
    by (simp add: api_unary_def UnaryServerInterceptor_def api_AwaitStageResult_def forwardRequest_def assert_type_def Let_def)
qed

text \<open>A client asks for two hours; the stage has its result after three minutes.\<close>

definition demo_await_call :: Command where
  "demo_await_call = AwaitStageResultRequest ''00000000-0000-0000-0000-000000000005'' ''1'' 7200000"

definition demo_later :: "int \<Rightarrow> graphActor" where
  "demo_later t = (if 180 * 10 ^ 9 \<le> 5 + t then upd_stage ''1'' (\<lambda>st. st\<lparr>result := Some NewEmptyResult\<rparr>) committed else committed)"

lemma demo_later_result:
  "Option.bind (GetStage ''1'' (demo_later t)) result = (if 180 * 10 ^ 9 \<le> 5 + t then Some NewEmptyResult else None)"
proof -
  have "Option.bind (GetStage ''1'' (upd_stage ''1'' (\<lambda>st. st\<lparr>result := Some NewEmptyResult\<rparr>) committed)) result = Some NewEmptyResult"
    "Option.bind (GetStage ''1'' committed) result = None"
    by code_simp+
  then show ?thesis
    by (simp add: demo_later_def)
qed

theorem api_await_is_bounded_witness:
  "api_unary (\<lambda>deadline cmd. api_AwaitStageResult (ask_actor committed 0 demo_later) deadline 3 5
       ''00000000-0000-0000-0000-000000000005'' ''1'' 7200000 demo_manager) None 0 demo_await_call =
     Failed (ServiceError (StatusError Code_DeadlineExceeded ''future: timeout''))"
proof -
  have c: "Validate demo_await_call = None" "lookupSupervisor demo_manager (Some demo_await_call) = Returned ''supervisor-0''"
    "GetStage ''1'' committed \<noteq> None"
    by code_simp+
  show ?thesis
    using api_await_is_bounded [OF demo_await_call_def c(1,2) demo_hasGraph(2) c(3) demo_later_result, of 0 3 _ 0 None] by simp
qed

section \<open>Metrics of spans\<close>

text \<open>A span: its name and its tags, in the order in which the tracer visits their map.\<close>

record span =
  spanName :: string
  spanTags :: "(string \<times> string) list"

definition copyBaggageItemsToTags :: "(string \<times> string) list \<Rightarrow> span \<Rightarrow> span" where
  "copyBaggageItemsToTags baggage s =
     s\<lparr>spanTags := fold (\<lambda>(k, v). AList.update k v) (filter (\<lambda>(k, v). has_prefix k ''fn'') baggage) (spanTags s)\<rparr>"

definition getLabels :: "span \<Rightarrow> string list \<times> (string \<times> string) list" where
  "getLabels s =
     (let tags = filter (\<lambda>(k, v). has_prefix k ''fn'') (spanTags s)
      in (map fst tags, fold (\<lambda>(k, v). AList.update k v) tags []))"

record PrometheusCollector =
  registeredLabelKeysMap :: "(string \<times> string list) list"
  observed :: "(string \<times> (string \<times> string) list) list"

definition NewPrometheusCollector :: PrometheusCollector where
  "NewPrometheusCollector = \<lparr>registeredLabelKeysMap = [], observed = []\<rparr>"

text \<open>The metrics library panics when a metric with a name or label it does not accept, or with the same label
  twice, is registered, and when an observation does not have exactly the labels of its metric.\<close>

definition name_char :: "char \<Rightarrow> bool" where
  "name_char ch \<longleftrightarrow> ch \<in> set ''abcdefghijklmnopqrstuvwxyzABCDEFGHIJKLMNOPQRSTUVWXYZ0123456789_''"

definition metric_name_ok :: "string \<Rightarrow> bool" where
  "metric_name_ok name \<longleftrightarrow> list_all (\<lambda>ch. name_char ch \<or> ch = CHR '':'') name"

definition labels_ok :: "string list \<Rightarrow> bool" where
  "labels_ok keys \<longleftrightarrow> list_all (list_all name_char) keys \<and> distinct keys"

definition metric_With :: "string list \<Rightarrow> (string \<times> string) list \<Rightarrow> bool" where
  "metric_With keys labels \<longleftrightarrow> length labels = length keys \<and> list_all (\<lambda>k. map_of labels k \<noteq> None) keys"

definition Collect :: "span \<Rightarrow> PrometheusCollector \<Rightarrow> (unit, PrometheusCollector) outcome" where
  "Collect s pc =
     (let (keys, labels) = getLabels s; name = spanName s in
      case map_of (registeredLabelKeysMap pc) name of
        None \<Rightarrow>
          if \<not> (metric_name_ok name \<and> labels_ok keys) then Panicked (PanicMessage ''invalid descriptor'')
          else if metric_With keys labels
          then Returned (pc\<lparr>registeredLabelKeysMap := (name, keys) # registeredLabelKeysMap pc, observed := observed pc @ [(name, labels)]\<rparr>)
          else Panicked (PanicMessage ''inconsistent label cardinality'')
      | Some regKeys \<Rightarrow>
          (let labels' = fold (\<lambda>k. AList.update k (case map_of labels k of None \<Rightarrow> '''' | Some v \<Rightarrow> v)) regKeys []
           in if metric_With regKeys labels' then Returned (pc\<lparr>observed := observed pc @ [(name, labels')]\<rparr>)
              else Panicked (PanicMessage ''inconsistent label cardinality'')))"

fun collect_all :: "span list \<Rightarrow> PrometheusCollector \<Rightarrow> (unit, PrometheusCollector) outcome" where
  "collect_all [] pc = Returned pc"
| "collect_all (s # ss) pc = bind_outcome (Collect s pc) (collect_all ss)"

lemma fold_update_pairs:
  assumes "distinct (map fst ts)" and "set (map fst ts) \<inter> set (map fst al) = {}"
  shows "map fst (fold (\<lambda>(k, v). AList.update k v) ts al) = map fst al @ map fst ts"
  using assms
proof (induction ts arbitrary: al)
  case (Cons t ts)
  then have "map fst (AList.update (fst t) (snd t) al) = map fst al @ [fst t]"
    by (auto simp: update_keys)
  moreover have "set (map fst ts) \<inter> set (map fst al @ [fst t]) = {}"
    using Cons.prems by auto
  ultimately show ?case
    using Cons.IH [of "AList.update (fst t) (snd t) al"] Cons.prems(1) by (simp add: case_prod_beta del: set_map)
qed simp

lemma fold_update_keys: "distinct ks \<Longrightarrow> map fst (fold (\<lambda>k. AList.update k (g k)) ks []) = ks"
  using fold_update_pairs [of "map (\<lambda>k. (k, g k)) ks" "[]"] by (simp add: fold_map comp_def)

lemma metric_With_same: "map fst labels = keys \<Longrightarrow> metric_With keys labels"
  by (auto simp: metric_With_def list_all_iff map_of_eq_None_iff)

lemma getLabels_keys:
  assumes "getLabels s = (keys, labels)" and "distinct keys"
  shows "map fst labels = keys"
proof -
  let ?tags = "filter (\<lambda>(k, v). has_prefix k ''fn'') (spanTags s)"
  show ?thesis
    using fold_update_pairs [of ?tags "[]"] assms by (auto simp: getLabels_def Let_def)
qed

definition collector_inv :: "PrometheusCollector \<Rightarrow> bool" where
  "collector_inv pc \<longleftrightarrow>
     (\<forall>(n, ks) \<in> set (registeredLabelKeysMap pc). distinct ks) \<and>
     (\<forall>(n, ls) \<in> set (observed pc). map_of (registeredLabelKeysMap pc) n = Some (map fst ls))"

lemma Collect_ok:
  assumes "collector_inv pc" and "metric_name_ok (spanName s)" and "labels_ok (fst (getLabels s))"
  shows "\<exists>pc'. Collect s pc = Returned pc' \<and> collector_inv pc'"
proof -
  obtain keys labels where l: "getLabels s = (keys, labels)"
    by fastforce
  then have keys: "map fst labels = keys" "distinct keys"
    using getLabels_keys assms(3) by (auto simp: labels_ok_def)
  show ?thesis
  proof (cases "map_of (registeredLabelKeysMap pc) (spanName s)")
    case None
    have "map_of ((spanName s, keys) # registeredLabelKeysMap pc) n = Some (map fst ls)" if "(n, ls) \<in> set (observed pc)" for n ls
      using that assms(1) None by (auto simp: collector_inv_def)
    then show ?thesis
      using assms None l keys metric_With_same [OF keys(1)]
      by (auto simp: Collect_def collector_inv_def Let_def)
  next
    case (Some regKeys)
    then have "distinct regKeys"
      using assms(1) by (auto simp: collector_inv_def dest: map_of_SomeD)
    then have "map fst (fold (\<lambda>k. AList.update k (case map_of labels k of None \<Rightarrow> '''' | Some v \<Rightarrow> v)) regKeys []) = regKeys"
      by (rule fold_update_keys)
    then show ?thesis
      using assms(1) Some l metric_With_same [of _ regKeys]
      by (auto simp: Collect_def collector_inv_def Let_def)
  qed
qed

text \<open>Tags are a map, so the labels of a span are distinct, also after baggage items were copied.\<close>

lemma copyBaggage_distinct:
  assumes "distinct (map fst (spanTags s))"
  shows "distinct (map fst (spanTags (copyBaggageItemsToTags baggage s)))"
proof -
  have "distinct (map fst (fold (\<lambda>(k, v). AList.update k v) items al))"
    if "distinct (map fst al)" for items :: "(string \<times> string) list" and al
    using that by (induction items arbitrary: al) (auto simp: distinct_update)
  with assms show ?thesis
    by (simp add: copyBaggageItemsToTags_def)
qed

lemma getLabels_ok:
  assumes "distinct (map fst (spanTags s))" and "list_all (\<lambda>(k, v). list_all name_char k) (spanTags s)"
  shows "labels_ok (fst (getLabels s))"
  using assms by (auto simp: labels_ok_def getLabels_def Let_def list_all_iff intro: distinct_map_filter)

text \<open>Whatever tags the spans of one name have, the collector never gives a metric labels it was not created with: as
  long as names and tags have the form the metrics library accepts, collecting any sequence of spans does
  not panic, and all observations of a name have the same labels. (The collector is called by the goroutines of
  concurrent requests without a lock; the theorem is about calls one after the other.)\<close>

theorem collector_is_consistent:
  assumes "\<And>s. s \<in> set ss \<Longrightarrow> distinct (map fst (spanTags s))"
    and "\<And>s. s \<in> set ss \<Longrightarrow> metric_name_ok (spanName s)"
    and "\<And>s. s \<in> set ss \<Longrightarrow> list_all (\<lambda>(k, v). list_all name_char k) (spanTags s)"
  shows "\<exists>pc. collect_all ss NewPrometheusCollector = Returned pc \<and>
    (\<forall>n ls ls'. (n, ls) \<in> set (observed pc) \<and> (n, ls') \<in> set (observed pc) \<longrightarrow> map fst ls = map fst ls')"
proof -
  have "\<exists>pc'. collect_all ss pc = Returned pc' \<and> collector_inv pc'" if "collector_inv pc" for pc
    using assms that
  proof (induction ss arbitrary: pc)
    case (Cons s ss)
    then obtain pc' where "Collect s pc = Returned pc'" "collector_inv pc'"
      using Collect_ok [of pc s] getLabels_ok [of s] by auto
    then show ?case
      using Cons by simp
  qed simp
  moreover have "collector_inv NewPrometheusCollector"
    by (simp add: collector_inv_def NewPrometheusCollector_def)
  ultimately obtain pc where "collect_all ss NewPrometheusCollector = Returned pc" "collector_inv pc"
    by blast
  moreover have "map fst ls = map fst ls'" if "(n, ls) \<in> set (observed pc)" "(n, ls') \<in> set (observed pc)" for n ls ls'
  proof -
    have "map_of (registeredLabelKeysMap pc) n = Some (map fst ls)" "map_of (registeredLabelKeysMap pc) n = Some (map fst ls')"
      using that \<open>collector_inv pc\<close> by (auto simp: collector_inv_def)
    then show ?thesis
      by simp
  qed
  ultimately show ?thesis
    by blast
qed

section \<open>The spans of API calls\<close>

definition Finish :: "(string \<times> string) list \<Rightarrow> span \<Rightarrow> span" where
  "Finish baggage s = copyBaggageItemsToTags baggage s"

text \<open>The interceptor around unary calls: what the handler answers, and the span that is finished after it. The
  span has no parent, so it has no baggage.\<close>

definition unaryMetricsInterceptor :: "string \<Rightarrow> ('r \<Rightarrow> 'a) \<Rightarrow> 'r \<Rightarrow> 'a \<times> span" where
  "unaryMetricsInterceptor FullMethod handler req =
     (let s = \<lparr>spanName = ''api'', spanTags = [(''fn_operation'', FullMethod)]\<rparr> in (handler req, Finish [] s))"

text \<open>Streaming calls are given a stream with the span in its context; their span is the same.\<close>

definition streamMetricsInterceptor :: "string \<Rightarrow> ('r \<Rightarrow> 'e option) \<Rightarrow> 'r \<Rightarrow> 'e option \<times> span" where
  "streamMetricsInterceptor FullMethod handler stream =
     (let s = \<lparr>spanName = ''api'', spanTags = [(''fn_operation'', FullMethod)]\<rparr> in (handler stream, Finish [] s))"

lemma same_span: "snd (streamMetricsInterceptor m handler stream) = snd (unaryMetricsInterceptor m handler' req)"
  by (simp add: streamMetricsInterceptor_def unaryMetricsInterceptor_def Let_def)

record engine_counters =
  httpRequestsServed :: int
  httpErrorsCounter :: int

definition engineMetrics :: "string list \<Rightarrow> engine_counters \<Rightarrow> engine_counters" where
  "engineMetrics errors m =
     (let m = m\<lparr>httpRequestsServed := httpRequestsServed m + 1\<rparr> in
      if 0 < length errors then m\<lparr>httpErrorsCounter := httpErrorsCounter m + 1\<rparr> else m)"

text \<open>The API's own spans can be collected in any number: one observation for each call, labelled with the
  method, and no panic.\<close>

theorem api_spans_collected:
  "\<exists>pc. collect_all (map (\<lambda>(method, req). snd (unaryMetricsInterceptor method handler req)) calls) NewPrometheusCollector = Returned pc \<and>
     observed pc = map (\<lambda>(method, req). (''api'', [(''fn_operation'', method)])) calls"
proof -
  have span: "snd (unaryMetricsInterceptor m handler r) = \<lparr>spanName = ''api'', spanTags = [(''fn_operation'', m)]\<rparr>" for m r
    by (simp add: unaryMetricsInterceptor_def Finish_def copyBaggageItemsToTags_def Let_def)
  have labels: "getLabels \<lparr>spanName = ''api'', spanTags = [(''fn_operation'', m)]\<rparr> = ([''fn_operation''], [(''fn_operation'', m)])" for m
    by (simp add: getLabels_def has_prefix_def)
  have ok: "metric_name_ok ''api''" "labels_ok [''fn_operation'']"
    by (simp_all add: metric_name_ok_def labels_ok_def name_char_def)
  have rest: "\<exists>pc'. collect_all (map (\<lambda>(method, req). snd (unaryMetricsInterceptor method handler req)) cs) pc = Returned pc' \<and>
      observed pc' = observed pc @ map (\<lambda>(method, req). (''api'', [(''fn_operation'', method)])) cs"
    if "map_of (registeredLabelKeysMap pc) ''api'' = Some [''fn_operation'']" for cs pc
    using that
  proof (induction cs arbitrary: pc)
    case (Cons call cs)
    let ?pc = "pc\<lparr>observed := observed pc @ [(''api'', [(''fn_operation'', fst call)])]\<rparr>"
    have "Collect (snd (unaryMetricsInterceptor (fst call) handler (snd call))) pc = Returned ?pc"
      using Cons.prems by (simp add: span labels Collect_def metric_With_def)
    then show ?case
      using Cons.IH [of ?pc] Cons.prems by (auto simp: case_prod_beta)
  qed simp
  show ?thesis
  proof (cases calls)
    case (Cons call cs)
    let ?pc = "\<lparr>registeredLabelKeysMap = [(''api'', [''fn_operation''])], observed = [(''api'', [(''fn_operation'', fst call)])]\<rparr>"
    have "Collect (snd (unaryMetricsInterceptor (fst call) handler (snd call))) NewPrometheusCollector = Returned ?pc"
      by (simp add: span labels ok Collect_def metric_With_def NewPrometheusCollector_def Let_def)
    then show ?thesis
      using rest [of ?pc cs] Cons by (auto simp: case_prod_beta)
  qed (simp add: NewPrometheusCollector_def)
qed

end
