(* ===== verification/Rest_Response.thy ===== *)
theory Rest_Response
  imports Rest_Gateway Executor
begin

text \<open>
  What a client of the REST gateway gets back: the handlers that \<^verbatim>\<open>src/model/model.pb.gw.go\<close> registers, with the
  context they make for the gRPC call (\<^verbatim>\<open>runtime/context.go\<close> of the gateway library), the answers they write
  (\<^verbatim>\<open>runtime/handler.go\<close>, \<^verbatim>\<open>runtime/errors.go\<close>) and the response writer of gin. The gRPC client, the JSON encoding
  and the parsing of socket addresses are arguments.
\<close>

section \<open>The context of a call\<close>

text \<open>Headers and their operations are those of \<open>Executor\<close>.\<close>

definition header_Del :: "string \<Rightarrow> header \<Rightarrow> header" where
  "header_Del k h = AList.delete (CanonicalMIMEHeaderKey k) h"

text \<open>Durations are nanoseconds in 64 bits; the product wraps around.\<close>

definition timeoutUnitToDuration :: "char \<Rightarrow> int option" where
  "timeoutUnitToDuration u =
     (if u = CHR ''H'' then Some (3600 * 10 ^ 9) else if u = CHR ''M'' then Some (60 * 10 ^ 9)
      else if u = CHR ''S'' then Some (10 ^ 9) else if u = CHR ''m'' then Some (10 ^ 6)
      else if u = CHR ''u'' then Some (10 ^ 3) else if u = CHR ''n'' then Some 1 else None)"

definition timeoutDecode :: "string \<Rightarrow> int option" where
  "timeoutDecode s =
     (if length s < 2 then None
      else case timeoutUnitToDuration (last s) of
        None \<Rightarrow> None
      | Some d \<Rightarrow> map_option (\<lambda>t. int64 (d * t)) (strconv_Atoi (butlast s)))"

definition permanent_headers :: "string list" where
  "permanent_headers =
     [''Accept'', ''Accept-Charset'', ''Accept-Language'', ''Accept-Ranges'', ''Authorization'', ''Cache-Control'',
      ''Content-Type'', ''Cookie'', ''Date'', ''Expect'', ''From'', ''Host'', ''If-Match'', ''If-Modified-Since'',
      ''If-None-Match'', ''If-Schedule-Tag-Match'', ''If-Unmodified-Since'', ''Max-Forwards'', ''Origin'', ''Pragma'',
      ''Referer'', ''User-Agent'', ''Via'', ''Warning'']"

definition DefaultHeaderMatcher :: "string \<Rightarrow> string option" where
  "DefaultHeaderMatcher key =
     (let key = CanonicalMIMEHeaderKey key in
      if key \<in> set permanent_headers then Some (''grpcgateway-'' @ key)
      else if has_prefix key ''Grpc-Metadata-'' then Some (drop (length ''Grpc-Metadata-'') key)
      else None)"

text \<open>A request with all that is read of it; \<open>rqHeader\<close> is \<^verbatim>\<open>Header.Get\<close> of its headers \<open>rqHeaders\<close>.\<close>

record inbound_request = rest_request +
  rqHeaders :: header
  rqHost :: string
  rqRemoteAddr :: string

definition timeout_error :: "(string \<Rightarrow> string) \<Rightarrow> error option" where
  "timeout_error header =
     (let tm = header ''Grpc-Timeout'' in
      if tm \<noteq> '''' \<and> timeoutDecode tm = None then Some (StatusError Code_InvalidArgument (''invalid grpc-timeout: '' @ tm)) else None)"

text \<open>The deadline of a call and its outgoing metadata.\<close>

record call_context =
  ctxDeadline :: "int option"
  ctxPairs :: "(string \<times> string) list"

definition header_pairs :: "header \<Rightarrow> (string \<times> string) list" where
  "header_pairs hs =
     concat (map (\<lambda>(key, vals). concat (map (\<lambda>val.
         (if ToLower key = ''authorization'' then [(''authorization'', val)] else []) @
         (case DefaultHeaderMatcher key of None \<Rightarrow> [] | Some h \<Rightarrow> [(h, val)])) vals)) hs)"

definition forwarded_pairs :: "(string \<Rightarrow> string option) \<Rightarrow> inbound_request \<Rightarrow> (string \<times> string) list" where
  "forwarded_pairs splitHostPort req =
     (let host = rqHeader req ''X-Forwarded-Host''; fwd = rqHeader req ''X-Forwarded-For'' in
      (if host \<noteq> '''' then [(''x-forwarded-host'', host)]
       else if rqHost req \<noteq> '''' then [(''x-forwarded-host'', rqHost req)] else []) @
      (if rqRemoteAddr req = '''' then []
       else case splitHostPort (rqRemoteAddr req) of
         None \<Rightarrow> []
       | Some ip \<Rightarrow> [(''x-forwarded-for'', if fwd = '''' then ip else fwd @ '', '' @ ip)]))"

text \<open>\<open>timeout\<close> 0 means that there is none; \<^verbatim>\<open>context.WithTimeout\<close> keeps an earlier deadline.\<close>

definition runtime_AnnotateContext ::
  "(string \<Rightarrow> string option) \<Rightarrow> int \<Rightarrow> int option \<Rightarrow> inbound_request \<Rightarrow> error + call_context" where
  "runtime_AnnotateContext splitHostPort now deadline req =
     (case timeout_error (rqHeader req) of
        Some err \<Rightarrow> Inl err
      | None \<Rightarrow>
          (let tm = rqHeader req ''Grpc-Timeout'';
               timeout = (if tm = '''' then 0 else case timeoutDecode tm of None \<Rightarrow> 0 | Some t \<Rightarrow> t);
               pairs = header_pairs (rqHeaders req) @ forwarded_pairs splitHostPort req
           in Inr \<lparr>ctxDeadline =
                (if timeout \<noteq> 0 then Some (case deadline of None \<Rightarrow> now + timeout | Some d \<Rightarrow> min d (now + timeout)) else deadline),
              ctxPairs = pairs\<rparr>))"

section \<open>The response writer\<close>

text \<open>gin's writer keeps the status until something is written. \<open>wSent\<close> is the status that went out.\<close>

record response_writer =
  wHeader :: header
  wStatus :: nat
  wSent :: "nat option"
  wBody :: "string list"

definition new_writer :: response_writer where
  "new_writer = \<lparr>wHeader = [], wStatus = 200, wSent = None, wBody = []\<rparr>"

definition WriteHeader :: "nat \<Rightarrow> response_writer \<Rightarrow> response_writer" where
  "WriteHeader code w = (if code > 0 then w\<lparr>wStatus := code\<rparr> else w)"

definition WriteHeaderNow :: "response_writer \<Rightarrow> response_writer" where
  "WriteHeaderNow w = (if wSent w = None then w\<lparr>wSent := Some (wStatus w)\<rparr> else w)"

definition writer_Write :: "string \<Rightarrow> response_writer \<Rightarrow> response_writer" where
  "writer_Write data w = (let w = WriteHeaderNow w in w\<lparr>wBody := wBody w @ [data]\<rparr>)"

text \<open>Flushing goes to the connection, which sends status 200 if nothing was sent.\<close>

definition writer_Flush :: "response_writer \<Rightarrow> response_writer" where
  "writer_Flush w = (if wSent w = None then w\<lparr>wSent := Some 200\<rparr> else w)"

definition set_header :: "string \<Rightarrow> string \<Rightarrow> response_writer \<Rightarrow> response_writer" where
  "set_header k v w = w\<lparr>wHeader := header_Set k v (wHeader w)\<rparr>"

definition http_Error :: "string \<Rightarrow> nat \<Rightarrow> response_writer \<Rightarrow> response_writer" where
  "http_Error msg code w =
     writer_Write (msg @ [CHR 0x0A])
       (WriteHeader code (set_header ''X-Content-Type-Options'' ''nosniff'' (set_header ''Content-Type'' ''text/plain; charset=utf-8'' w)))"

section \<open>Statuses\<close>

fun HTTPStatusFromCode :: "code \<Rightarrow> nat" where
  "HTTPStatusFromCode Code_OK = 200"
| "HTTPStatusFromCode Code_Canceled = 408"
| "HTTPStatusFromCode Code_Unknown = 500"
| "HTTPStatusFromCode Code_InvalidArgument = 400"
| "HTTPStatusFromCode Code_DeadlineExceeded = 408"
| "HTTPStatusFromCode Code_NotFound = 404"
| "HTTPStatusFromCode Code_AlreadyExists = 409"
| "HTTPStatusFromCode Code_PermissionDenied = 403"
| "HTTPStatusFromCode Code_Unauthenticated = 401"
| "HTTPStatusFromCode Code_ResourceExhausted = 403"
| "HTTPStatusFromCode Code_FailedPrecondition = 412"
| "HTTPStatusFromCode Code_Aborted = 409"
| "HTTPStatusFromCode Code_OutOfRange = 400"
| "HTTPStatusFromCode Code_Unimplemented = 501"
| "HTTPStatusFromCode Code_Internal = 500"
| "HTTPStatusFromCode Code_Unavailable = 503"
| "HTTPStatusFromCode Code_DataLoss = 500"

fun code_number :: "code \<Rightarrow> int" where
  "code_number Code_OK = 0"
| "code_number Code_Canceled = 1"
| "code_number Code_Unknown = 2"
| "code_number Code_InvalidArgument = 3"
| "code_number Code_DeadlineExceeded = 4"
| "code_number Code_NotFound = 5"
| "code_number Code_AlreadyExists = 6"
| "code_number Code_PermissionDenied = 7"
| "code_number Code_ResourceExhausted = 8"
| "code_number Code_FailedPrecondition = 9"
| "code_number Code_Aborted = 10"
| "code_number Code_OutOfRange = 11"
| "code_number Code_Unimplemented = 12"
| "code_number Code_Internal = 13"
| "code_number Code_Unavailable = 14"
| "code_number Code_DataLoss = 15"
| "code_number Code_Unauthenticated = 16"

text \<open>\<^verbatim>\<open>status.FromError\<close>: an error that is not of gRPC is unknown.\<close>

fun status_code :: "error \<Rightarrow> code" where
  "status_code (StatusError c m) = c"
| "status_code (PlainError m) = Code_Unknown"

fun code_String :: "code \<Rightarrow> string" where
  "code_String Code_OK = ''OK''"
| "code_String Code_Canceled = ''Canceled''"
| "code_String Code_Unknown = ''Unknown''"
| "code_String Code_InvalidArgument = ''InvalidArgument''"
| "code_String Code_DeadlineExceeded = ''DeadlineExceeded''"
| "code_String Code_NotFound = ''NotFound''"
| "code_String Code_AlreadyExists = ''AlreadyExists''"
| "code_String Code_PermissionDenied = ''PermissionDenied''"
| "code_String Code_ResourceExhausted = ''ResourceExhausted''"
| "code_String Code_FailedPrecondition = ''FailedPrecondition''"
| "code_String Code_Aborted = ''Aborted''"
| "code_String Code_OutOfRange = ''OutOfRange''"
| "code_String Code_Unimplemented = ''Unimplemented''"
| "code_String Code_Internal = ''Internal''"
| "code_String Code_Unavailable = ''Unavailable''"
| "code_String Code_DataLoss = ''DataLoss''"
| "code_String Code_Unauthenticated = ''Unauthenticated''"

fun error_Error :: "error \<Rightarrow> string" where
  "error_Error (StatusError c m) = ''rpc error: code = '' @ code_String c @ '' desc = '' @ m"
| "error_Error (PlainError m) = m"

text \<open>\<^verbatim>\<open>http.StatusText\<close> of the statuses that the gateway sends.\<close>

definition http_StatusText :: "nat \<Rightarrow> string" where
  "http_StatusText n =
     (case map_of [(200, ''OK''), (400, ''Bad Request''), (401, ''Unauthorized''), (403, ''Forbidden''), (404, ''Not Found''),
          (405, ''Method Not Allowed''), (408, ''Request Timeout''), (409, ''Conflict''), (412, ''Precondition Failed''),
          (500, ''Internal Server Error''), (501, ''Not Implemented''), (503, ''Service Unavailable'')] n of
        None \<Rightarrow> '''' | Some s \<Rightarrow> s)"

section \<open>Answers\<close>

record ServerMetadata =
  HeaderMD :: header
  TrailerMD :: header

definition no_metadata :: ServerMetadata where
  "no_metadata = \<lparr>HeaderMD = [], TrailerMD = []\<rparr>"

datatype 'e stream_chunk = ChunkResult 'e | ChunkError int nat string string

text \<open>The gateway of a node: its client of the gRPC server, the JSON marshaler, which is the only one that is
  registered, and the error of a form that does not parse. A stream is given by what its receiver returns until it
  ends.\<close>

record 'e gateway =
  gwCodec :: gateway_codec
  gwUnary :: "call_context \<Rightarrow> Command \<Rightarrow> ServerMetadata \<times> (error + Response)"
  gwStream :: "call_context \<Rightarrow> gateway_call \<Rightarrow> error + (header \<times> (error + 'e) list)"
  marshalResponse :: "Response \<Rightarrow> string option"
  marshalErrorBody :: "string \<Rightarrow> int \<Rightarrow> string option"
  marshalChunk :: "'e stream_chunk \<Rightarrow> string option"
  splitHostPort :: "string \<Rightarrow> string option"
  formError :: string

definition handleForwardResponseServerMetadata :: "ServerMetadata \<Rightarrow> response_writer \<Rightarrow> response_writer" where
  "handleForwardResponseServerMetadata md w =
     fold (\<lambda>(k, vs). fold (\<lambda>v w. w\<lparr>wHeader := header_Add (''Grpc-Metadata-'' @ k) v (wHeader w)\<rparr>) vs) (HeaderMD md) w"

definition handleForwardResponseTrailerHeader :: "ServerMetadata \<Rightarrow> response_writer \<Rightarrow> response_writer" where
  "handleForwardResponseTrailerHeader md w =
     fold (\<lambda>(k, vs) w. w\<lparr>wHeader := header_Add ''Trailer'' (CanonicalMIMEHeaderKey (''Grpc-Trailer-'' @ k)) (wHeader w)\<rparr>) (TrailerMD md) w"

definition handleForwardResponseTrailer :: "ServerMetadata \<Rightarrow> response_writer \<Rightarrow> response_writer" where
  "handleForwardResponseTrailer md w =
     fold (\<lambda>(k, vs). fold (\<lambda>v w. w\<lparr>wHeader := header_Add (''Grpc-Trailer-'' @ k) v (wHeader w)\<rparr>) vs) (TrailerMD md) w"

definition fallback :: string where
  "fallback = ''{'' @ [CHR 0x22] @ ''error'' @ [CHR 0x22] @ '': '' @ [CHR 0x22] @ ''failed to marshal error message'' @ [CHR 0x22] @ ''}''"

definition DefaultHTTPError :: "'e gateway \<Rightarrow> ServerMetadata \<Rightarrow> error \<Rightarrow> response_writer \<Rightarrow> response_writer" where
  "DefaultHTTPError gw md err w =
     (let w = set_header ''Content-Type'' ''application/json'' (w\<lparr>wHeader := header_Del ''Trailer'' (wHeader w)\<rparr>) in
      case marshalErrorBody gw (ErrorText err) (code_number (status_code err)) of
        None \<Rightarrow> writer_Write fallback (WriteHeader 500 w)
      | Some buf \<Rightarrow>
          handleForwardResponseTrailer md
            (writer_Write buf
              (WriteHeader (HTTPStatusFromCode (status_code err))
                (handleForwardResponseTrailerHeader md (handleForwardResponseServerMetadata md w)))))"

text \<open>The error of the marshaler is not one of gRPC.\<close>

definition ForwardResponseMessage :: "'e gateway \<Rightarrow> ServerMetadata \<Rightarrow> Response \<Rightarrow> response_writer \<Rightarrow> response_writer" where
  "ForwardResponseMessage gw md resp w =
     (let w = set_header ''Content-Type'' ''application/json''
                (handleForwardResponseTrailerHeader md (handleForwardResponseServerMetadata md w)) in
      case marshalResponse gw resp of
        None \<Rightarrow> DefaultHTTPError gw md (PlainError ''marshal'') w
      | Some buf \<Rightarrow> handleForwardResponseTrailer md (writer_Write buf w))"

definition streamChunk_error :: "error \<Rightarrow> 'e stream_chunk" where
  "streamChunk_error err =
     (let c = status_code err; httpCode = HTTPStatusFromCode c in
      ChunkError (code_number c) httpCode (error_Error err) (http_StatusText httpCode))"

fun forward_stream :: "'e gateway \<Rightarrow> (error + 'e) list \<Rightarrow> response_writer \<Rightarrow> response_writer" where
  "forward_stream gw [] w = w"
| "forward_stream gw (Inl err # rs) w =
     (case marshalChunk gw (streamChunk_error err) of None \<Rightarrow> w | Some buf \<Rightarrow> writer_Write (buf @ [CHR 0x0A]) w)"
| "forward_stream gw (Inr e # rs) w =
     (case marshalChunk gw (ChunkResult e) of
        None \<Rightarrow> w
      | Some buf \<Rightarrow> forward_stream gw rs (writer_Flush (writer_Write buf w)))"

definition ForwardResponseStream :: "'e gateway \<Rightarrow> ServerMetadata \<Rightarrow> (error + 'e) list \<Rightarrow> response_writer \<Rightarrow> response_writer" where
  "ForwardResponseStream gw md items w =
     forward_stream gw items
       (writer_Flush
         (WriteHeader 200
           (set_header ''Content-Type'' ''application/json''
             (set_header ''Transfer-Encoding'' ''chunked'' (handleForwardResponseServerMetadata md w)))))"

section \<open>Handlers\<close>

text \<open>The call, when a request function has made it, and the answer. (A request that is cancelled because its
  client has gone is answered to nobody.)\<close>

definition forward_call :: "'e gateway \<Rightarrow> call_context \<Rightarrow> gateway_call \<Rightarrow> response_writer \<Rightarrow> response_writer" where
  "forward_call gw ctx call w =
     (case call of
        Call cmd \<Rightarrow>
          (case gwUnary gw ctx cmd of
             (md, Inl err) \<Rightarrow> DefaultHTTPError gw md err w
           | (md, Inr resp) \<Rightarrow> ForwardResponseMessage gw md resp w)
      | _ \<Rightarrow>
          (case gwStream gw ctx call of
             Inl err \<Rightarrow> DefaultHTTPError gw no_metadata err w
           | Inr (header, items) \<Rightarrow> ForwardResponseStream gw (no_metadata\<lparr>HeaderMD := header\<rparr>) items w))"

text \<open>\<open>deadline\<close> is that of the HTTP request's own context.\<close>

definition gateway_handler ::
  "(gateway_codec \<Rightarrow> rest_request \<Rightarrow> (string \<times> string) list \<Rightarrow> error + gateway_call) \<Rightarrow>
   'e gateway \<Rightarrow> int \<Rightarrow> int option \<Rightarrow> inbound_request \<Rightarrow> (string \<times> string) list \<Rightarrow> response_writer \<Rightarrow> response_writer" where
  "gateway_handler request gw now deadline req pathParams w =
     (case runtime_AnnotateContext (splitHostPort gw) now deadline req of
        Inl err \<Rightarrow> DefaultHTTPError gw no_metadata err w
      | Inr ctx \<Rightarrow>
          (case request (gwCodec gw) (rest_request.truncate req) pathParams of
             Inl err \<Rightarrow> DefaultHTTPError gw no_metadata err w
           | Inr call \<Rightarrow> forward_call gw ctx call w))"

definition handler_CreateGraph where
  "handler_CreateGraph = gateway_handler request_CreateGraph"

definition handler_AddStage where
  "handler_AddStage = gateway_handler request_AddStage"

definition handler_AddValueStage where
  "handler_AddValueStage = gateway_handler request_AddValueStage"

definition handler_AddInvokeFunction where
  "handler_AddInvokeFunction = gateway_handler request_AddInvokeFunction"

definition handler_AddDelay where
  "handler_AddDelay = gateway_handler request_AddDelay"

definition handler_AwaitStageResult where
  "handler_AwaitStageResult = gateway_handler request_AwaitStageResult"

definition handler_CompleteStageExternally where
  "handler_CompleteStageExternally = gateway_handler request_CompleteStageExternally"

definition handler_Commit where
  "handler_Commit = gateway_handler request_Commit"

definition handler_GetGraphState where
  "handler_GetGraphState = gateway_handler request_GetGraphState"

definition handler_StreamLifecycle where
  "handler_StreamLifecycle = gateway_handler request_StreamLifecycle"

definition handler_StreamEvents where
  "handler_StreamEvents = gateway_handler request_StreamEvents"

fun handler_FlowService :: "route \<Rightarrow> 'e gateway \<Rightarrow> int \<Rightarrow> int option \<Rightarrow> inbound_request \<Rightarrow> (string \<times> string) list \<Rightarrow> response_writer \<Rightarrow> response_writer" where
  "handler_FlowService R_CreateGraph = handler_CreateGraph"
| "handler_FlowService R_AddStage = handler_AddStage"
| "handler_FlowService R_AddValueStage = handler_AddValueStage"
| "handler_FlowService R_AddInvokeFunction = handler_AddInvokeFunction"
| "handler_FlowService R_AddDelay = handler_AddDelay"
| "handler_FlowService R_AwaitStageResult = handler_AwaitStageResult"
| "handler_FlowService R_CompleteStageExternally = handler_CompleteStageExternally"
| "handler_FlowService R_Commit = handler_Commit"
| "handler_FlowService R_GetGraphState = handler_GetGraphState"
| "handler_FlowService R_StreamLifecycle = handler_StreamLifecycle"
| "handler_FlowService R_StreamEvents = handler_StreamEvents"

text \<open>The decision of \<open>ServeHTTP\<close> of \<open>Rest_Gateway\<close>, with the errors of the context as the library makes them, and what is
  written for it. A form that does not parse is answered with the error of the parser, the other failures of the dispatch
  with the text of their status.\<close>

definition codec_of :: "'e gateway \<Rightarrow> gateway_codec" where
  "codec_of gw = (gwCodec gw)\<lparr>AnnotateContext := timeout_error\<rparr>"

definition answer_result :: "'e gateway \<Rightarrow> int \<Rightarrow> int option \<Rightarrow> inbound_request \<Rightarrow> rest_result \<Rightarrow> response_writer \<Rightarrow> response_writer" where
  "answer_result gw now deadline req res w =
     (case res of
        HttpError code \<Rightarrow>
          http_Error (if code = 400 \<and> has_prefix (rqPath req) ''/'' then formError gw else http_StatusText code) code w
      | GrpcError err \<Rightarrow> DefaultHTTPError gw no_metadata err w
      | Forwarded call \<Rightarrow>
          (case runtime_AnnotateContext (splitHostPort gw) now deadline req of
             Inl err \<Rightarrow> DefaultHTTPError gw no_metadata err w
           | Inr ctx \<Rightarrow> forward_call gw ctx call w))"

definition gateway_ServeHTTP :: "'e gateway \<Rightarrow> int \<Rightarrow> int option \<Rightarrow> inbound_request \<Rightarrow> response_writer \<Rightarrow> response_writer" where
  "gateway_ServeHTTP gw now deadline req w =
     answer_result gw now deadline req (ServeHTTP (codec_of gw) (rest_request.truncate req)) w"

text \<open>\<^verbatim>\<open>RegisterFlowServiceHandlerFromEndpoint\<close>: the handlers are registered if the endpoint can be dialled.\<close>

definition RegisterFlowServiceHandlerFromEndpoint :: "(string \<Rightarrow> string + 'c) \<Rightarrow> string \<Rightarrow> string + 'c \<times> (string \<times> route list) list" where
  "RegisterFlowServiceHandlerFromEndpoint dial endpoint =
     bind_sum (dial endpoint) (\<lambda>conn. Inr (conn, RegisterFlowServiceHandlerClient))"

section \<open>The handlers do what the dispatch decides\<close>

lemma truncate_simps [simp]:
  "rqHeader (rest_request.truncate req) = rqHeader req" "rqPath (rest_request.truncate req) = rqPath req"
  "rqQuery (rest_request.truncate req) = rqQuery req" "rqMethod (rest_request.truncate req) = rqMethod req"
  by (simp_all add: rest_request.truncate_def)

lemma AnnotateContext_error:
  "runtime_AnnotateContext split now deadline req = Inl err \<longleftrightarrow> timeout_error (rqHeader req) = Some err"
  by (auto simp: runtime_AnnotateContext_def Let_def split: option.splits)

lemma Populate_codec:
  "PopulateQueryParameters (c\<lparr>AnnotateContext := x\<rparr>) setters da query = PopulateQueryParameters c setters da query"
proof (induction query)
  case (Cons kv query)
  then show ?case
    by (intro ext) (cases kv; simp add: populateFieldValueFromPath_def Let_def cong: option.case_cong)
qed (simp add: fun_eq_iff)

lemma request_codec: "request_FlowService r (codec_of gw) = request_FlowService r (gwCodec gw)"
proof -
  have fields: "fields_AwaitStageResult (codec_of gw) = fields_AwaitStageResult (gwCodec gw)"
    "fields_StreamEvents (codec_of gw) = fields_StreamEvents (gwCodec gw)"
    by (simp_all add: fun_eq_iff fields_AwaitStageResult_def fields_StreamEvents_def codec_of_def)
  have query: "PopulateQueryParameters (codec_of gw) setters da query = PopulateQueryParameters (gwCodec gw) setters da query"
    for setters :: "string \<Rightarrow> (string \<Rightarrow> 'm \<Rightarrow> string + 'm) option" and da query
    by (simp add: codec_of_def Populate_codec)
  have decoders: "dec_CreateGraph (codec_of gw) = dec_CreateGraph (gwCodec gw)" "dec_AddStage (codec_of gw) = dec_AddStage (gwCodec gw)"
    "dec_AddValueStage (codec_of gw) = dec_AddValueStage (gwCodec gw)"
    "dec_AddInvokeFunction (codec_of gw) = dec_AddInvokeFunction (gwCodec gw)" "dec_AddDelay (codec_of gw) = dec_AddDelay (gwCodec gw)"
    "dec_CompleteStageExternally (codec_of gw) = dec_CompleteStageExternally (gwCodec gw)"
    by (simp_all add: codec_of_def)
  show ?thesis
    by (cases r; intro ext)
       (simp_all add: fields query decoders request_CreateGraph_def request_AddStage_def request_AddValueStage_def
        request_AddInvokeFunction_def request_AddDelay_def request_AwaitStageResult_def request_CompleteStageExternally_def
        request_Commit_def request_GetGraphState_def request_StreamLifecycle_def request_StreamEvents_def)
qed

lemma handler_request: "handler_FlowService r = gateway_handler (request_FlowService r)"
  by (cases r) (simp_all add: handler_CreateGraph_def handler_AddStage_def handler_AddValueStage_def handler_AddInvokeFunction_def
      handler_AddDelay_def handler_AwaitStageResult_def handler_CompleteStageExternally_def handler_Commit_def handler_GetGraphState_def
      handler_StreamLifecycle_def handler_StreamEvents_def)

lemma handler_answers:
  "handler_FlowService r gw now deadline req pathParams w =
     answer_result gw now deadline req (handle (codec_of gw) (rest_request.truncate req) (r, pathParams)) w"
proof -
  have "AnnotateContext (codec_of gw) = timeout_error"
    by (simp add: codec_of_def)
  moreover have "timeout_error (rqHeader req) = None \<longleftrightarrow> (\<exists>ctx. runtime_AnnotateContext (splitHostPort gw) now deadline req = Inr ctx)"
    by (auto simp: runtime_AnnotateContext_def Let_def split: option.splits)
  ultimately show ?thesis
    by (cases "timeout_error (rqHeader req)")
       (auto simp: handler_request gateway_handler_def answer_result_def handle_def request_codec
        AnnotateContext_error [THEN iffD2] split: sum.splits)
qed

section \<open>The status that is sent\<close>

definition same_status :: "response_writer \<Rightarrow> response_writer \<Rightarrow> bool" where
  "same_status v w \<longleftrightarrow> wStatus w = wStatus v \<and> wSent w = wSent v \<and> wBody w = wBody v"

lemma fold_header:
  "(\<And>x w. same_status w (f x w)) \<Longrightarrow> same_status w (fold f xs w)"
proof (induction xs arbitrary: w)
  case (Cons x xs)
  then show ?case
    unfolding fold_Cons comp_def same_status_def by metis
qed (simp add: same_status_def)

lemma metadata_status:
  "same_status w (handleForwardResponseServerMetadata md w)" "same_status w (handleForwardResponseTrailerHeader md w)"
  "same_status w (handleForwardResponseTrailer md w)"
  unfolding handleForwardResponseServerMetadata_def handleForwardResponseTrailerHeader_def handleForwardResponseTrailer_def
  by (rule fold_header; clarsimp; (rule fold_header)?; simp add: same_status_def)+

lemma writer_simps [simp]:
  "wStatus (handleForwardResponseServerMetadata md w) = wStatus w" "wSent (handleForwardResponseServerMetadata md w) = wSent w"
  "wBody (handleForwardResponseServerMetadata md w) = wBody w"
  "wStatus (handleForwardResponseTrailerHeader md w) = wStatus w" "wSent (handleForwardResponseTrailerHeader md w) = wSent w"
  "wBody (handleForwardResponseTrailerHeader md w) = wBody w"
  "wStatus (handleForwardResponseTrailer md w) = wStatus w" "wSent (handleForwardResponseTrailer md w) = wSent w"
  "wBody (handleForwardResponseTrailer md w) = wBody w"
  "wStatus (set_header k v w) = wStatus w" "wSent (set_header k v w) = wSent w" "wBody (set_header k v w) = wBody w"
  using metadata_status [where md = md and w = w] by (simp_all add: same_status_def set_header_def)

lemma status_positive: "0 < HTTPStatusFromCode c"
  by (cases c) simp_all

lemma DefaultHTTPError_sends:
  assumes "wSent w = None" and "marshalErrorBody gw (ErrorText err) (code_number (status_code err)) = Some buf"
  shows "wSent (DefaultHTTPError gw md err w) = Some (HTTPStatusFromCode (status_code err)) \<and>
    wBody (DefaultHTTPError gw md err w) = wBody w @ [buf]"
  using assms status_positive [of "status_code err"]
  by (simp add: DefaultHTTPError_def Let_def writer_Write_def WriteHeader_def WriteHeaderNow_def)

lemma ForwardResponseMessage_sends:
  assumes "wSent w = None" and "marshalResponse gw resp = Some buf"
  shows "wSent (ForwardResponseMessage gw md resp w) = Some (wStatus w) \<and> wBody (ForwardResponseMessage gw md resp w) = wBody w @ [buf]"
  using assms by (simp add: ForwardResponseMessage_def Let_def writer_Write_def WriteHeaderNow_def)

lemma forward_stream_sent: "wSent w = Some n \<Longrightarrow> wSent (forward_stream gw items w) = Some n"
  by (induction gw items w rule: forward_stream.induct)
     (auto simp: writer_Write_def WriteHeaderNow_def writer_Flush_def Let_def split: option.splits)

lemma ForwardResponseStream_sends: "wSent w = None \<Longrightarrow> wSent (ForwardResponseStream gw md items w) = Some 200"
  unfolding ForwardResponseStream_def by (rule forward_stream_sent) (simp add: writer_Flush_def WriteHeader_def)

section \<open>Success and failure are told apart\<close>

lemma bind_sum_error: "bind_sum x f = Inl e \<longleftrightarrow> x = Inl e \<or> (\<exists>a. x = Inr a \<and> f a = Inl e)"
  by (cases x) auto

lemma param_errors:
  "decode_body d req = Inl e \<Longrightarrow> status_code e = Code_InvalidArgument"
  "path_param n ps = Inl e \<Longrightarrow> status_code e = Code_InvalidArgument"
  "query_param q = Inl e \<Longrightarrow> status_code e = Code_InvalidArgument"
  by (auto simp: decode_body_def path_param_def query_param_def invalid_argument_def split: sum.splits option.splits)

lemma request_error: "request_FlowService r c req pathParams = Inl err \<Longrightarrow> status_code err = Code_InvalidArgument"
  by (cases r)
     (auto simp: bind_sum_error request_CreateGraph_def request_AddStage_def request_AddValueStage_def request_AddInvokeFunction_def
      request_AddDelay_def request_AwaitStageResult_def request_CompleteStageExternally_def request_Commit_def
      request_GetGraphState_def request_StreamLifecycle_def request_StreamEvents_def dest: param_errors)

lemma ServeHTTP_GrpcError:
  assumes "ServeHTTP (codec_of gw) req = GrpcError err"
  shows "status_code err = Code_InvalidArgument"
proof -
  have "status_code e = Code_InvalidArgument" if "handle (codec_of gw) r m = GrpcError e" for r m e
    using that request_error [of "fst m" "codec_of gw" r "snd m"]
    by (auto simp: handle_def codec_of_def timeout_error_def Let_def split: option.splits sum.splits if_splits)
  then show ?thesis
    using assms unfolding ServeHTTP_def Let_def by (auto split: if_splits option.splits prod.splits)
qed

lemma handle_not_HttpError: "handle c req m \<noteq> HttpError n"
  by (simp add: handle_def split: option.splits sum.splits)

lemma ServeHTTP_HttpError: "ServeHTTP c req = HttpError n \<Longrightarrow> n \<in> {400, 404, 405}"
  unfolding ServeHTTP_def Let_def by (auto simp: handle_not_HttpError split: if_splits option.splits prod.splits)

definition call_succeeds :: "'e gateway \<Rightarrow> call_context \<Rightarrow> gateway_call \<Rightarrow> bool" where
  "call_succeeds gw ctx call \<longleftrightarrow>
     (case call of Call cmd \<Rightarrow> \<not> isl (snd (gwUnary gw ctx cmd)) | _ \<Rightarrow> \<not> isl (gwStream gw ctx call))"

text \<open>What the gateway relies on: messages can be written as JSON, and an error of the gRPC client does not have the code
  of success.\<close>

definition gateway_ok :: "'e gateway \<Rightarrow> bool" where
  "gateway_ok gw \<longleftrightarrow>
     (\<forall>r. marshalResponse gw r \<noteq> None) \<and> (\<forall>m c. marshalErrorBody gw m c \<noteq> None) \<and>
     (\<forall>ctx cmd md err. gwUnary gw ctx cmd = (md, Inl err) \<longrightarrow> status_code err \<noteq> Code_OK) \<and>
     (\<forall>ctx call err. gwStream gw ctx call = Inl err \<longrightarrow> status_code err \<noteq> Code_OK)"

lemma status_200: "HTTPStatusFromCode c = 200 \<longleftrightarrow> c = Code_OK"
  by (cases c) simp_all

lemma error_sends:
  assumes "gateway_ok gw"
  shows "wSent (DefaultHTTPError gw md err new_writer) = Some (HTTPStatusFromCode (status_code err))"
proof -
  obtain buf where "marshalErrorBody gw (ErrorText err) (code_number (status_code err)) = Some buf"
    using assms unfolding gateway_ok_def by (meson not_None_eq)
  then show ?thesis
    using DefaultHTTPError_sends [of new_writer gw err buf md] by (simp add: new_writer_def)
qed

lemma forward_call_sends:
  assumes "gateway_ok gw"
  shows "\<exists>code. wSent (forward_call gw ctx call new_writer) = Some code \<and> (code = 200 \<longleftrightarrow> call_succeeds gw ctx call)"
proof (cases call)
  case (Call cmd)
  obtain md a where a: "gwUnary gw ctx cmd = (md, a)"
    by fastforce
  show ?thesis
  proof (cases a)
    case (Inl err)
    then show ?thesis
      using Call a error_sends [OF assms] assms by (auto simp: forward_call_def call_succeeds_def status_200 gateway_ok_def)
  next
    case (Inr resp)
    obtain buf where "marshalResponse gw resp = Some buf"
      using assms unfolding gateway_ok_def by (meson not_None_eq)
    then show ?thesis
      using Call a Inr ForwardResponseMessage_sends [of new_writer gw resp buf md]
      by (simp add: forward_call_def call_succeeds_def new_writer_def)
  qed
next
  case CallStreamLifecycle
  then show ?thesis
    using error_sends [OF assms] assms ForwardResponseStream_sends [of new_writer gw]
    by (cases "gwStream gw ctx call") (auto simp: forward_call_def call_succeeds_def status_200 gateway_ok_def new_writer_def split: prod.splits)
next
  case (CallStreamEvents f seq)
  then show ?thesis
    using error_sends [OF assms] assms ForwardResponseStream_sends [of new_writer gw]
    by (cases "gwStream gw ctx call") (auto simp: forward_call_def call_succeeds_def status_200 gateway_ok_def new_writer_def split: prod.splits)
qed

text \<open>C23: A client of the REST gateway can tell success from failure by the status. Whatever request comes in, with whatever
  method, path, query, headers and body, the gateway sends a status, and it is 200 exactly if the request was forwarded to the
  gRPC server and the call succeeded there (for a stream: was opened); in particular a request that has no route, does not
  decode, has a bad timeout or that the service refuses is never answered with 200. The gateway relies on messages
  having a JSON form and on errors of its gRPC client not carrying the code of success.\<close>

theorem rest_status_tells_success:
  assumes "gateway_ok gw"
  shows "\<exists>code. wSent (gateway_ServeHTTP gw now deadline req new_writer) = Some code \<and>
    (code = 200 \<longleftrightarrow>
       (\<exists>call ctx. ServeHTTP (codec_of gw) (rest_request.truncate req) = Forwarded call \<and>
          runtime_AnnotateContext (splitHostPort gw) now deadline req = Inr ctx \<and> call_succeeds gw ctx call))"
proof (cases "ServeHTTP (codec_of gw) (rest_request.truncate req)")
  case (Forwarded call)
  show ?thesis
  proof (cases "runtime_AnnotateContext (splitHostPort gw) now deadline req")
    case (Inl err)
    then have "status_code err = Code_InvalidArgument"
      by (auto simp: AnnotateContext_error timeout_error_def Let_def split: if_splits)
    then show ?thesis
      using Forwarded Inl error_sends [OF assms, of no_metadata err] by (simp add: gateway_ServeHTTP_def answer_result_def)
  next
    case (Inr ctx)
    then show ?thesis
      using Forwarded forward_call_sends [OF assms, of ctx call] by (simp add: gateway_ServeHTTP_def answer_result_def)
  qed
next
  case (GrpcError err)
  then show ?thesis
    using ServeHTTP_GrpcError [OF GrpcError] error_sends [OF assms, of no_metadata err]
    by (simp add: gateway_ServeHTTP_def answer_result_def)
next
  case (HttpError code)
  then show ?thesis
    using ServeHTTP_HttpError [OF HttpError]
    by (auto simp: gateway_ServeHTTP_def answer_result_def http_Error_def writer_Write_def WriteHeader_def WriteHeaderNow_def Let_def new_writer_def)
qed

text \<open>A gateway whose server knows no flow.\<close>

definition demo_gateway :: "unit gateway" where
  "demo_gateway =
     \<lparr>gwCodec = demo_codec, gwUnary = \<lambda>ctx cmd. (no_metadata, Inl (NewGraphNotFoundError (CmdFlowId cmd))),
      gwStream = \<lambda>ctx call. Inr ([], []), marshalResponse = \<lambda>r. Some ''{}'', marshalErrorBody = \<lambda>m c. Some m,
      marshalChunk = \<lambda>c. Some ''{}'', splitHostPort = \<lambda>s. None, formError = ''''\<rparr>"

definition demo_inbound :: inbound_request where
  "demo_inbound = rest_request.extend demo_rest \<lparr>rqHeaders = [], rqHost = '''', rqRemoteAddr = ''''\<rparr>"

theorem rest_status_tells_success_witness:
  "\<exists>code. wSent (gateway_ServeHTTP demo_gateway 0 None demo_inbound new_writer) = Some code \<and> code \<noteq> 200"
proof -
  have "gateway_ok demo_gateway"
    by (simp add: gateway_ok_def demo_gateway_def NewGraphNotFoundError_def)
  note * = rest_status_tells_success [OF this, of 0 None demo_inbound]
  have "\<not> call_succeeds demo_gateway ctx (Call cmd)" for ctx cmd
    by (simp add: call_succeeds_def demo_gateway_def)
  moreover have "ServeHTTP (codec_of demo_gateway) (rest_request.truncate demo_inbound) =
      Forwarded (Call (AddDelayStageRequest ''mine'' 5 '''' ''''))"
    by code_simp
  ultimately show ?thesis
    using * by auto
qed

lemma forwarded_context:
  assumes "ServeHTTP (codec_of gw) (rest_request.truncate req) = Forwarded call"
  shows "\<exists>ctx. runtime_AnnotateContext split now deadline req = Inr ctx"
proof -
  have header: "timeout_error (rqHeader r) = None" if "handle (codec_of gw) r m = Forwarded call" for r m
    using that by (auto simp: handle_def codec_of_def split: option.splits)
  have "timeout_error (rqHeader req) = None"
    using assms unfolding ServeHTTP_def Let_def
    by (auto dest!: header split: if_splits option.splits prod.splits)
  then show ?thesis
    by (auto simp: runtime_AnnotateContext_def Let_def split: option.splits)
qed

section \<open>Streams and timeouts\<close>

lemma forward_stream_body:
  assumes "\<And>c. marshalChunk gw c = Some (chunk c)" and "rs = [] \<or> (\<exists>err rs'. rs = Inl err # rs')"
  shows "wBody (forward_stream gw (map Inr es @ rs) w) =
    wBody w @ map (\<lambda>e. chunk (ChunkResult e)) es @
      (case rs of Inl err # _ \<Rightarrow> [chunk (streamChunk_error err) @ [CHR 0x0A]] | _ \<Rightarrow> [])"
  using assms(2)
  by (induction es arbitrary: w)
     (auto simp: assms(1) writer_Write_def WriteHeaderNow_def writer_Flush_def Let_def)

text \<open>The events of a stream reach the client in their order. A stream that fails later on has been answered with 200 all the same:
  the error is the last chunk.\<close>

theorem stream_forwarded:
  assumes "\<And>c. marshalChunk gw c = Some (chunk c)"
  shows "wSent (ForwardResponseStream gw md (map Inr es @ [Inl err]) new_writer) = Some 200 \<and>
    wBody (ForwardResponseStream gw md (map Inr es @ [Inl err]) new_writer) =
      map (\<lambda>e. chunk (ChunkResult e)) es @ [chunk (streamChunk_error err) @ [CHR 0x0A]] \<and>
    wBody (ForwardResponseStream gw md (map Inr es) new_writer) = map (\<lambda>e. chunk (ChunkResult e)) es"
  using forward_stream_body [of gw chunk "[Inl err]" es, OF assms] forward_stream_body [of gw chunk "[]" es, OF assms]
    ForwardResponseStream_sends [of new_writer gw md]
  by (simp add: ForwardResponseStream_def writer_Flush_def WriteHeader_def new_writer_def)

text \<open>A timeout that fits into 64 bits of nanoseconds is decoded exactly; a longer one wraps around, so that a client that asks for
  about three centuries gets a deadline in the past.\<close>

lemma timeoutDecode_exact:
  assumes "timeoutUnitToDuration u = Some d" and "strconv_Atoi ds = Some t" and "- (2 ^ 63) \<le> d * t" and "d * t < 2 ^ 63"
  shows "timeoutDecode (ds @ [u]) = Some (d * t)"
proof -
  have "strconv_Atoi [] = None"
    by (simp add: strconv_Atoi_def is_digits_def)
  then have "ds \<noteq> []"
    using assms(2) by (metis option.distinct(1))
  then have "\<not> length (ds @ [u]) < 2"
    by (cases ds) simp_all
  then show ?thesis
    unfolding timeoutDecode_def by (simp only: if_False last_snoc butlast_snoc assms(1,2) option.case option.map int64_id [OF assms(3,4)])
qed

lemma long_timeout_expires:
  assumes "rqHeader req ''Grpc-Timeout'' = ''2562048H''"
  shows "\<exists>ctx d. runtime_AnnotateContext split now None req = Inr ctx \<and> ctxDeadline ctx = Some d \<and> d < now"
proof -
  have "strconv_Atoi ''2562048'' = Some 2562048"
    by (simp add: strconv_Atoi_def is_digits_def digits_value_def)
  then have "timeoutDecode ''2562048H'' = Some (- 9223371273709551616)"
    by (simp add: timeoutDecode_def timeoutUnitToDuration_def int64_def)
  then show ?thesis
    using assms by (simp add: runtime_AnnotateContext_def timeout_error_def)
qed

end
