(* ===== verification/Http_Server.thy ===== *)
theory Http_Server
  imports Api_Server Rest_Response Api_Document Blob_Store
begin

text \<open>
  The HTTP front end of \<^verbatim>\<open>src/server/server.go\<close> and \<^verbatim>\<open>src/blobs/blobapi.go\<close>: the routes and the chain of middleware
  that \<^verbatim>\<open>NewAPIServer\<close> sets up, on a model of how gin finds a route and runs a chain. Everything that listens on the
  REST port goes through it: the REST gateway, gRPC calls, the blob API, metrics and the API document.
\<close>

section \<open>Routes\<close>

datatype endpoint = GrpcServer | Ping | Gateway | PrometheusMetrics | SwaggerDocument | CreateBlob | GetBlob

datatype path_segment = Lit string | Param string | CatchAll string

type_synonym gin_route = "string \<times> path_segment list \<times> endpoint"

text \<open>The methods of \<^verbatim>\<open>Any\<close>.\<close>

definition any_methods :: "string list" where
  "any_methods = [''GET'', ''POST'', ''PUT'', ''PATCH'', ''HEAD'', ''OPTIONS'', ''DELETE'', ''CONNECT'', ''TRACE'']"

definition api_routes :: "gin_route list" where
  "api_routes =
     [(''GET'', [Lit ''ping''], Ping)] @
     map (\<lambda>m. (m, [Lit ''v1'', CatchAll ''path''], Gateway)) any_methods @
     [(''GET'', [Lit ''metrics''], PrometheusMetrics),
      (''GET'', [Lit ''swagger.json''], SwaggerDocument)]"

definition createBlobAPI :: "gin_route list \<Rightarrow> gin_route list" where
  "createBlobAPI routes =
     routes @
     [(''POST'', [Lit ''blobs'', Param ''prefix''], CreateBlob),
      (''GET'', [Lit ''blobs'', Param ''prefix'', Param ''blobId''], GetBlob)]"

text \<open>A parameter takes the path up to the next slash; the router does not look for one at the end of the path. A
  catch-all takes the rest, with its slash.\<close>

fun match_route :: "path_segment list \<Rightarrow> string list \<Rightarrow> (string \<times> string) list option" where
  "match_route [] [] = Some []"
| "match_route (Lit l # ps) (s # ss) = (if s = l then match_route ps ss else None)"
| "match_route (Param n # ps) (s # ss) =
     (if s = '''' \<and> ss = [] then None else map_option ((#) (n, s)) (match_route ps ss))"
| "match_route [CatchAll n] (s # ss) = Some [(n, ''/'' @ strings_Join (s # ss) ''/'')]"
| "match_route _ _ = None"

fun find_route :: "gin_route list \<Rightarrow> string \<Rightarrow> string list \<Rightarrow> (endpoint \<times> (string \<times> string) list) option" where
  "find_route [] meth ss = None"
| "find_route ((m, ps, e) # rs) meth ss =
     (case (if m = meth then match_route ps ss else None) of
        Some params \<Rightarrow> Some (e, params)
      | None \<Rightarrow> find_route rs meth ss)"

section \<open>Serving a request\<close>

text \<open>\<open>writeLimit\<close>: how many bytes of the answer the connection takes before it fails, if it fails.\<close>

record http_request =
  httpRest :: inbound_request
  protoMajor :: nat
  bodyReadable :: bool
  writeLimit :: "nat option"

record 's http_context =
  cWriter :: response_writer
  ctxErrors :: "string list"
  ctxAborted :: bool
  counters :: engine_counters
  blobState :: 's

text \<open>The components behind the front end. The handlers of the gRPC and of the metrics library are functions on the response
  writer; they, the gateway and the blob store may panic, the first three after they have written something.\<close>

record ('s, 'e) backend =
  restGateway :: "'e gateway"
  feClock :: int
  gatewayCrash :: "http_request \<Rightarrow> response_writer \<Rightarrow> (panic_reason \<times> response_writer) option"
  grpcServe :: "http_request \<Rightarrow> response_writer \<Rightarrow> panic_reason option \<times> response_writer"
  promServe :: "http_request \<Rightarrow> response_writer \<Rightarrow> panic_reason option \<times> response_writer"
  assets :: asset_table
  blobCreate :: "string \<Rightarrow> string \<Rightarrow> string option \<Rightarrow> 's \<Rightarrow> (blob_error + Blob) \<times> 's"
  blobRead :: "string \<Rightarrow> string \<Rightarrow> 's \<Rightarrow> blob_error + string"
  storeCrash :: "http_request \<Rightarrow> panic_reason option"
  blobJSON :: "Blob \<Rightarrow> string"
  redirectNote :: "http_request \<Rightarrow> string"

text \<open>gin's operations on a context.\<close>

definition on_writer :: "(response_writer \<Rightarrow> response_writer) \<Rightarrow> 's http_context \<Rightarrow> 's http_context" where
  "on_writer f c = c\<lparr>cWriter := f (cWriter c)\<rparr>"

definition c_Status :: "nat \<Rightarrow> 's http_context \<Rightarrow> 's http_context" where
  "c_Status code = on_writer (WriteHeader code)"

definition AbortWithStatus :: "nat \<Rightarrow> 's http_context \<Rightarrow> 's http_context" where
  "AbortWithStatus code c = (on_writer WriteHeaderNow (c_Status code c))\<lparr>ctxAborted := True\<rparr>"

definition AbortWithError :: "nat \<Rightarrow> string \<Rightarrow> 's http_context \<Rightarrow> 's http_context" where
  "AbortWithError code err c = (let c = AbortWithStatus code c in c\<lparr>ctxErrors := ctxErrors c @ [err]\<rparr>)"

text \<open>A write, and whether it succeeds; the status goes out before it.\<close>

definition conn_Write :: "nat option \<Rightarrow> string \<Rightarrow> response_writer \<Rightarrow> bool \<times> response_writer" where
  "conn_Write limit data w =
     (case limit of
        None \<Rightarrow> (True, writer_Write data w)
      | Some n \<Rightarrow> (length data \<le> n, writer_Write (take n data) w))"

definition writeContentType :: "string \<Rightarrow> response_writer \<Rightarrow> response_writer" where
  "writeContentType v w =
     (case map_of (wHeader w) ''Content-Type'' of
        Some (_ # _) \<Rightarrow> w
      | _ \<Rightarrow> set_header ''Content-Type'' v w)"

text \<open>\<^verbatim>\<open>Render\<close> with JSON or data: a failing write panics.\<close>

definition c_Render :: "nat option \<Rightarrow> nat \<Rightarrow> string \<Rightarrow> string \<Rightarrow> 's http_context \<Rightarrow> 's http_context res" where
  "c_Render limit code contentType data c =
     (let (ok, w) = conn_Write limit data (writeContentType contentType (WriteHeader code (cWriter c)));
          c = c\<lparr>cWriter := w\<rparr>
      in if ok then Done c else Panic (PanicMessage ''write'') c)"

section \<open>Handlers\<close>

definition run_foreign ::
  "(response_writer \<Rightarrow> panic_reason option \<times> response_writer) \<Rightarrow> 's http_context \<Rightarrow> 's http_context res" where
  "run_foreign f c =
     (case f (cWriter c) of
        (None, w) \<Rightarrow> Done (c\<lparr>cWriter := w\<rparr>)
      | (Some p, w) \<Rightarrow> Panic p (c\<lparr>cWriter := w\<rparr>))"

definition serveGateway :: "('s, 'e) backend \<Rightarrow> http_request \<Rightarrow> response_writer \<Rightarrow> panic_reason option \<times> response_writer" where
  "serveGateway be req w =
     (case gatewayCrash be req w of
        Some (p, w') \<Rightarrow> (Some p, w')
      | None \<Rightarrow> (None, gateway_ServeHTTP (restGateway be) (feClock be) None (httpRest req) w))"

definition handleSwagger :: "asset_table \<Rightarrow> nat option \<Rightarrow> 's http_context \<Rightarrow> 's http_context res" where
  "handleSwagger table limit c =
     (case Asset table ''model/model.swagger.json'' of
        Inl err \<Rightarrow> Done (AbortWithError 500 ''error reading swagger content'' c)
      | Inr file \<Rightarrow> c_Render limit 200 ''application/json'' file c)"

definition param_value :: "string \<Rightarrow> (string \<times> string) list \<Rightarrow> string" where
  "param_value n params = (case map_of params n of None \<Rightarrow> '''' | Some v \<Rightarrow> v)"

text \<open>The store is not called for a request without a content type.\<close>

definition create_reply ::
  "('s, 'e) backend \<Rightarrow> http_request \<Rightarrow> (string \<times> string) list \<Rightarrow> 's \<Rightarrow> blob_reply \<times> 's" where
  "create_reply be req params s =
     createBlob (blobCreate be) (rqHeader (httpRest req) ''Content-Type'') (param_value ''prefix'' params)
       (if bodyReadable req then Some (rqBody (httpRest req)) else None) s"

definition serve_createBlob ::
  "('s, 'e) backend \<Rightarrow> http_request \<Rightarrow> (string \<times> string) list \<Rightarrow> 's http_context \<Rightarrow> 's http_context res" where
  "serve_createBlob be req params c =
     (case (if rqHeader (httpRest req) ''Content-Type'' = '''' then None else storeCrash be req) of
        Some p \<Rightarrow> Panic p c
      | None \<Rightarrow>
          (let (reply, s) = create_reply be req params (blobState c); c = c\<lparr>blobState := s\<rparr> in
           case reply of
             BlobCreated blob \<Rightarrow> c_Render (writeLimit req) 200 ''application/json; charset=utf-8'' (blobJSON be blob) c
           | Aborted code \<Rightarrow> Done (AbortWithError code ''create'' c)
           | _ \<Rightarrow> Done c))"

text \<open>Nothing is written of an empty blob. When a write fails the status is out already, and the request is aborted all the
  same.\<close>

definition serve_getBlob ::
  "('s, 'e) backend \<Rightarrow> http_request \<Rightarrow> (string \<times> string) list \<Rightarrow> 's http_context \<Rightarrow> 's http_context res" where
  "serve_getBlob be req params c =
     (case storeCrash be req of
        Some p \<Rightarrow> Panic p c
      | None \<Rightarrow>
          (case getBlob (blobRead be) (param_value ''prefix'' params) (param_value ''blobId'' params) (writeLimit req) (blobState c) of
             Aborted code \<Rightarrow> Done (AbortWithError code ''read'' c)
           | BlobContent d \<Rightarrow> Done (if d = '''' then c else on_writer (writer_Write d) c)
           | BlobInterrupted d \<Rightarrow> Done (AbortWithError 500 ''write'' (on_writer (writer_Write d) c))
           | _ \<Rightarrow> Done c))"

definition run_endpoint ::
  "('s, 'e) backend \<Rightarrow> http_request \<Rightarrow> endpoint \<Rightarrow> (string \<times> string) list \<Rightarrow> 's http_context \<Rightarrow> 's http_context res" where
  "run_endpoint be req e params c =
     (case e of
        GrpcServer \<Rightarrow> run_foreign (grpcServe be req) c
      | Ping \<Rightarrow> Done (c_Status 200 c)
      | Gateway \<Rightarrow> run_foreign (serveGateway be req) c
      | PrometheusMetrics \<Rightarrow> run_foreign (promServe be req) c
      | SwaggerDocument \<Rightarrow> handleSwagger (assets be) (writeLimit req) c
      | CreateBlob \<Rightarrow> serve_createBlob be req params c
      | GetBlob \<Rightarrow> serve_getBlob be req params c)"

section \<open>The chain\<close>

text \<open>The middleware in the order of \<^verbatim>\<open>engine.Use\<close>. \<^verbatim>\<open>Next\<close> runs the rest of the chain; a handler that returns without
  calling it, as \<^verbatim>\<open>serverGrpc\<close> does after a gRPC call, leaves the rest to the loop of the \<^verbatim>\<open>Next\<close> it was called by, which runs it
  unless the request was aborted.\<close>

datatype middleware = Logger | Recovery | EngineMetrics | ServerGrpc

definition is_grpc :: "http_request \<Rightarrow> bool" where
  "is_grpc req \<longleftrightarrow>
     serverGrpc (protoMajor req) (rqMethod (httpRest req)) (rqHeader (httpRest req) ''Content-Type'')"

fun Next ::
  "('s, 'e) backend \<Rightarrow> http_request \<Rightarrow> middleware list \<Rightarrow> (endpoint \<times> (string \<times> string) list) option \<Rightarrow> 's http_context \<Rightarrow> 's http_context res" where
  "Next be req [] target c =
     (case target of
        Some (e, params) \<Rightarrow> if ctxAborted c then Done c else run_endpoint be req e params c
      | None \<Rightarrow> Done c)"
| "Next be req (Logger # hs) target c = Next be req hs target c"
| "Next be req (Recovery # hs) target c =
     (case Next be req hs target c of
        Panic p c \<Rightarrow> Done (AbortWithStatus 500 c)
      | r \<Rightarrow> r)"
| "Next be req (EngineMetrics # hs) target c =
     bind_res (Next be req hs target c) (\<lambda>c. Done (c\<lparr>counters := engineMetrics (ctxErrors c) (counters c)\<rparr>))"
| "Next be req (ServerGrpc # hs) target c =
     (if is_grpc req then bind_res (run_endpoint be req GrpcServer [] c) (Next be req hs target)
      else Next be req hs target c)"

definition serveError ::
  "('s, 'e) backend \<Rightarrow> http_request \<Rightarrow> middleware list \<Rightarrow> nat \<Rightarrow> string \<Rightarrow> 's http_context \<Rightarrow> 's http_context res" where
  "serveError be req hs code defaultMessage c =
     bind_res (Next be req hs None (on_writer (\<lambda>w. w\<lparr>wStatus := code\<rparr>) c))
       (\<lambda>c. if wSent (cWriter c) \<noteq> None then Done c
            else if wStatus (cWriter c) = code
            then Done (on_writer (\<lambda>w. writer_Write defaultMessage (set_header ''Content-Type'' ''text/plain'' w)) c)
            else Done (on_writer WriteHeaderNow c))"

text \<open>The library writes the status of a redirect with a note for the reader.\<close>

definition redirectTrailingSlash :: "('s, 'e) backend \<Rightarrow> http_request \<Rightarrow> 's http_context \<Rightarrow> 's http_context" where
  "redirectTrailingSlash be req =
     on_writer (\<lambda>w. writer_Write (redirectNote be req) (WriteHeader (if rqMethod (httpRest req) = ''GET'' then 301 else 307) w))"

text \<open>\<open>tsr\<close>: whether the router recommends to add or remove a slash at the end. Such a request is redirected without any
  middleware.\<close>

definition target_of :: "gin_route list \<Rightarrow> http_request \<Rightarrow> (endpoint \<times> (string \<times> string) list) option" where
  "target_of routes req =
     (let path = rqPath (httpRest req) in
      if has_prefix path ''/'' then find_route routes (rqMethod (httpRest req)) (strings_Split (drop 1 path) ''/'') else None)"

definition handleHTTPRequest ::
  "('s, 'e) backend \<Rightarrow> (string \<Rightarrow> string \<Rightarrow> bool) \<Rightarrow> middleware list \<Rightarrow> gin_route list \<Rightarrow> http_request \<Rightarrow> 's http_context \<Rightarrow>
   's http_context res" where
  "handleHTTPRequest be tsr hs routes req c =
     (let meth = rqMethod (httpRest req); path = rqPath (httpRest req) in
      case target_of routes req of
        Some target \<Rightarrow> bind_res (Next be req hs (Some target) c) (\<lambda>c. Done (on_writer WriteHeaderNow c))
      | None \<Rightarrow>
          if meth \<in> set (map fst routes) \<and> meth \<noteq> ''CONNECT'' \<and> path \<noteq> ''/'' \<and> tsr meth path
          then Done (redirectTrailingSlash be req c)
          else serveError be req hs 404 ''404 page not found'' c)"

section \<open>Construction\<close>

datatype collector = HTTPCollector string | PrometheusSpans

text \<open>A failure ends the process. \<open>http_ok\<close> and \<open>tracer_ok\<close>: whether the library makes the collector for a URL and the
  tracer.\<close>

definition setTracer :: "(string \<Rightarrow> bool) \<Rightarrow> bool \<Rightarrow> string \<Rightarrow> (service_error, collector list) outcome" where
  "setTracer http_ok tracer_ok zipkinURL =
     (let collectors = (if zipkinURL \<noteq> '''' then [HTTPCollector zipkinURL, PrometheusSpans] else [PrometheusSpans]) in
      if zipkinURL \<noteq> '''' \<and> \<not> http_ok zipkinURL then Panicked (PanicMessage ''couldn't start Zipkin trace collector'')
      else if \<not> tracer_ok then Panicked (PanicMessage ''couldn't start tracer'')
      else Returned collectors)"

record Server =
  serverListen :: string
  serverCollectors :: "collector list"
  serverMiddleware :: "middleware list"
  serverRoutes :: "gin_route list"

text \<open>\<open>listen\<close> says whether the gRPC server can listen at an address.\<close>

definition NewAPIServer ::
  "(string \<Rightarrow> bool) \<Rightarrow> bool \<Rightarrow> (string \<Rightarrow> bool) \<Rightarrow> string \<Rightarrow> string \<Rightarrow> string \<Rightarrow> (service_error, Server) outcome" where
  "NewAPIServer http_ok tracer_ok listen restListen grpcListen zipkinURL =
     bind_outcome (setTracer http_ok tracer_ok zipkinURL) (\<lambda>collectors.
       if \<not> listen grpcListen then Failed (ServiceError (PlainError ''listen''))
       else Returned
         \<lparr>serverListen = restListen, serverCollectors = collectors,
          serverMiddleware = [Logger, Recovery, EngineMetrics, ServerGrpc], serverRoutes = api_routes\<rparr>)"

definition NewFromEngine :: "Server \<Rightarrow> Server" where
  "NewFromEngine s = s\<lparr>serverRoutes := createBlobAPI (serverRoutes s)\<rparr>"

definition serve :: "('s, 'e) backend \<Rightarrow> (string \<Rightarrow> string \<Rightarrow> bool) \<Rightarrow> Server \<Rightarrow> http_request \<Rightarrow> 's http_context \<Rightarrow> 's http_context res" where
  "serve be tsr s = handleHTTPRequest be tsr (serverMiddleware s) (serverRoutes s)"

section \<open>Every request is answered\<close>

lemma new_server:
  assumes "NewAPIServer http_ok tracer_ok listen restListen grpcListen zipkinURL = Returned s"
  shows "serverMiddleware s = [Logger, Recovery, EngineMetrics, ServerGrpc] \<and> serverRoutes s = api_routes"
  using assms by (auto simp: NewAPIServer_def bind_outcome_eq_Returned split: if_splits)

text \<open>What a client is to be sent: the status, the body, whether the request is counted as served and whether it is
  counted as an error. A handler that panics is answered with 500 unless something has been sent, and is not counted.\<close>

type_synonym front_answer = "nat \<times> string \<times> bool \<times> bool"

definition foreign_answer :: "panic_reason option \<times> response_writer \<Rightarrow> front_answer" where
  "foreign_answer r =
     (case r of
        (None, w) \<Rightarrow> (case wSent w of None \<Rightarrow> wStatus w | Some n \<Rightarrow> n, concat (wBody w), True, False)
      | (Some p, w) \<Rightarrow> (case wSent w of None \<Rightarrow> 500 | Some n \<Rightarrow> n, concat (wBody w), False, False))"

definition render_answer :: "nat option \<Rightarrow> string \<Rightarrow> front_answer" where
  "render_answer limit data =
     (case limit of
        None \<Rightarrow> (200, data, True, False)
      | Some n \<Rightarrow> (200, take n data, length data \<le> n, False))"

abbreviation crash_answer :: front_answer where
  "crash_answer \<equiv> (500, '''', False, False)"

definition create_answer :: "('s, 'e) backend \<Rightarrow> http_request \<Rightarrow> (string \<times> string) list \<Rightarrow> 's \<Rightarrow> front_answer" where
  "create_answer be req params s =
     (if rqHeader (httpRest req) ''Content-Type'' = '''' then (400, '''', True, True)
      else if storeCrash be req \<noteq> None then crash_answer
      else case fst (create_reply be req params s) of
        BlobCreated blob \<Rightarrow> render_answer (writeLimit req) (blobJSON be blob)
      | _ \<Rightarrow> (500, '''', True, True))"

definition get_answer :: "('s, 'e) backend \<Rightarrow> http_request \<Rightarrow> (string \<times> string) list \<Rightarrow> 's \<Rightarrow> front_answer" where
  "get_answer be req params s =
     (if storeCrash be req \<noteq> None then crash_answer
      else case blobRead be (param_value ''prefix'' params) (param_value ''blobId'' params) s of
        Inl err \<Rightarrow> (if err = ErrBlobNotFound then 404 else 500, '''', True, True)
      | Inr d \<Rightarrow>
          (case writeLimit req of
             None \<Rightarrow> (200, d, True, False)
           | Some n \<Rightarrow> (200, take n d, True, n < length d)))"

fun endpoint_answer ::
  "('s, 'e) backend \<Rightarrow> http_request \<Rightarrow> endpoint \<Rightarrow> (string \<times> string) list \<Rightarrow> 's \<Rightarrow> front_answer" where
  "endpoint_answer be req GrpcServer params s = foreign_answer (grpcServe be req new_writer)"
| "endpoint_answer be req Ping params s = (200, '''', True, False)"
| "endpoint_answer be req Gateway params s = foreign_answer (serveGateway be req new_writer)"
| "endpoint_answer be req PrometheusMetrics params s = foreign_answer (promServe be req new_writer)"
| "endpoint_answer be req SwaggerDocument params s =
     (case Asset (assets be) ''model/model.swagger.json'' of
        Inl err \<Rightarrow> (500, '''', True, True)
      | Inr file \<Rightarrow> render_answer (writeLimit req) file)"
| "endpoint_answer be req CreateBlob params s = create_answer be req params s"
| "endpoint_answer be req GetBlob params s = get_answer be req params s"

definition answered_with :: "front_answer \<Rightarrow> 's http_context \<Rightarrow> 's http_context \<Rightarrow> bool" where
  "answered_with a c c' =
     (case a of (code, body, counted, failed) \<Rightarrow>
        wSent (cWriter c') = Some code \<and> concat (wBody (cWriter c')) = body \<and>
        httpRequestsServed (counters c') = httpRequestsServed (counters c) + of_bool counted \<and>
        httpErrorsCounter (counters c') = httpErrorsCounter (counters c) + of_bool (counted \<and> failed))"

text \<open>What the middleware around the handlers makes of a handler's result.\<close>

definition finish_request :: "'s http_context res \<Rightarrow> 's http_context res" where
  "finish_request r =
     (case r of
        Done c \<Rightarrow> Done (on_writer WriteHeaderNow (c\<lparr>counters := engineMetrics (ctxErrors c) (counters c)\<rparr>))
      | Panic p c \<Rightarrow> Done (on_writer WriteHeaderNow (AbortWithStatus 500 c))
      | NoFuel \<Rightarrow> NoFuel)"

lemma chain_finishes:
  assumes "\<not> ctxAborted c" and "\<not> is_grpc req"
  shows "bind_res (Next be req [Logger, Recovery, EngineMetrics, ServerGrpc] (Some (e, params)) c) (\<lambda>c. Done (on_writer WriteHeaderNow c)) =
    finish_request (run_endpoint be req e params c)"
  using assms by (cases "run_endpoint be req e params c") (simp_all add: finish_request_def)

lemmas writer_defs = on_writer_def c_Status_def AbortWithStatus_def AbortWithError_def WriteHeader_def WriteHeaderNow_def writer_Write_def
  new_writer_def conn_Write_def Let_def

lemma foreign_answered:
  assumes "cWriter c = new_writer" and "ctxErrors c = []"
  shows "\<exists>c'. finish_request (run_foreign f c) = Done c' \<and> answered_with (foreign_answer (f new_writer)) c c'"
proof -
  obtain p w where f: "f new_writer = (p, w)"
    by fastforce
  then show ?thesis
    using assms
    by (cases p; cases "wSent w")
       (simp_all add: run_foreign_def finish_request_def foreign_answer_def answered_with_def on_writer_def AbortWithStatus_def
         c_Status_def WriteHeader_def WriteHeaderNow_def engineMetrics_def Let_def)
qed

lemma writeContentType_simps [simp]:
  "wSent (writeContentType v w) = wSent w" "wStatus (writeContentType v w) = wStatus w" "wBody (writeContentType v w) = wBody w"
  by (simp_all add: writeContentType_def split: option.split list.split)

lemma render_answered:
  assumes "cWriter c = new_writer" and "ctxErrors c = []" and "counters c = counters d"
  shows "\<exists>c'. finish_request (c_Render limit 200 contentType data c) = Done c' \<and> answered_with (render_answer limit data) d c'"
  using assms
  by (cases limit)
     (auto simp: c_Render_def finish_request_def render_answer_def answered_with_def writer_defs engineMetrics_def)

lemma abort_answered:
  assumes "cWriter c = new_writer" and "counters c = counters d" and "0 < code"
  shows "\<exists>c'. finish_request (Done (AbortWithError code err c)) = Done c' \<and> answered_with (code, '''', True, True) d c'"
  using assms by (simp add: finish_request_def answered_with_def writer_defs engineMetrics_def)

lemma crash_answered:
  assumes "cWriter c = new_writer"
  shows "\<exists>c'. finish_request (Panic p c) = Done c' \<and> answered_with crash_answer c c'"
  using assms by (simp add: finish_request_def answered_with_def writer_defs)

lemma create_answered:
  assumes c: "cWriter c = new_writer" "ctxErrors c = []"
  shows "\<exists>c'. finish_request (serve_createBlob be req params c) = Done c' \<and> answered_with (create_answer be req params (blobState c)) c c'"
proof (cases "rqHeader (httpRest req) ''Content-Type'' \<noteq> '''' \<and> storeCrash be req \<noteq> None")
  case True
  then show ?thesis
    using crash_answered [OF c(1)] by (auto simp: serve_createBlob_def create_answer_def)
next
  case False
  obtain reply s where r: "create_reply be req params (blobState c) = (reply, s)"
    by fastforce
  let ?c = "c\<lparr>blobState := s\<rparr>"
  have serve: "serve_createBlob be req params c =
      (case reply of BlobCreated blob \<Rightarrow> c_Render (writeLimit req) 200 ''application/json; charset=utf-8'' (blobJSON be blob) ?c
       | Aborted code \<Rightarrow> Done (AbortWithError code ''create'' ?c) | _ \<Rightarrow> Done ?c)"
    using False r by (auto simp: serve_createBlob_def Let_def)
  show ?thesis
  proof (cases reply)
    case (BlobCreated blob)
    then have "create_answer be req params (blobState c) = render_answer (writeLimit req) (blobJSON be blob)"
      using False r by (auto simp: create_answer_def create_reply_def createBlob_def)
    then show ?thesis
      using BlobCreated serve c render_answered [of ?c c] by simp
  next
    case (Aborted code)
    then have "create_answer be req params (blobState c) = (code, '''', True, True)" "0 < code"
      using False r by (auto simp: create_answer_def create_reply_def createBlob_def split: if_splits prod.splits sum.splits)
    then show ?thesis
      using Aborted serve c abort_answered [of ?c c code] by simp
  qed (use r in \<open>auto simp: create_reply_def createBlob_def split: if_splits prod.splits sum.splits\<close>)
qed

lemma get_answered:
  assumes c: "cWriter c = new_writer" "ctxErrors c = []"
  shows "\<exists>c'. finish_request (serve_getBlob be req params c) = Done c' \<and> answered_with (get_answer be req params (blobState c)) c c'"
proof (cases "storeCrash be req")
  case (Some p)
  then show ?thesis
    using crash_answered [OF c(1)] by (simp add: serve_getBlob_def get_answer_def)
next
  case None
  let ?r = "blobRead be (param_value ''prefix'' params) (param_value ''blobId'' params) (blobState c)"
  show ?thesis
  proof (cases ?r)
    case (Inl err)
    then show ?thesis
      using None abort_answered [OF c(1) refl, of "if err = ErrBlobNotFound then 404 else 500"]
      by (cases err) (simp_all add: serve_getBlob_def get_answer_def getBlob_def)
  next
    case (Inr d)
    then show ?thesis
      using None c
      by (cases "writeLimit req")
         (auto simp: serve_getBlob_def get_answer_def getBlob_def finish_request_def answered_with_def writer_defs engineMetrics_def)
  qed
qed

lemma endpoint_answered:
  assumes c: "cWriter c = new_writer" "ctxErrors c = []"
  shows "\<exists>c'. finish_request (run_endpoint be req e params c) = Done c' \<and> answered_with (endpoint_answer be req e params (blobState c)) c c'"
proof (cases e)
  case Ping
  then show ?thesis
    using c by (simp add: run_endpoint_def finish_request_def answered_with_def writer_defs engineMetrics_def)
next
  case SwaggerDocument
  then show ?thesis
    using abort_answered [OF c(1) refl, of 500 "''error reading swagger content''"] render_answered [OF c refl]
    by (cases "Asset (assets be) ''model/model.swagger.json''") (simp_all add: run_endpoint_def handleSwagger_def)
qed (use foreign_answered [OF c] create_answered [OF c] get_answered [OF c] in \<open>simp_all add: run_endpoint_def\<close>)

lemma no_route_answered:
  assumes "cWriter c = new_writer" "ctxErrors c = []" "\<not> ctxAborted c" "\<not> is_grpc req"
  shows "\<exists>c'. serveError be req [Logger, Recovery, EngineMetrics, ServerGrpc] 404 msg c = Done c' \<and> answered_with (404, msg, True, False) c c'"
  using assms by (simp add: serveError_def answered_with_def writer_defs engineMetrics_def)

text \<open>C26: Every HTTP request that is not a gRPC call is answered with exactly one status and body, whatever the method and the path and
  whatever the handlers do. If a route matches, the client is sent the answer of the route's handler: the
  metrics or the gateway's answer, 200 for a ping, the API document, a stored blob or the description of a new one, or the error
  status with which the handler aborted the request (400, 404 or 500). If the handler panics, also in a write that fails, the
  status is 500, unless the status and a part of the body were out already: then these are what the client gets, and so
  a blob whose transfer fails has been answered with 200. Without a matching route the answer is a redirect or a 404.
  Requests are counted once, and as errors if their handler recorded one, except those that panicked or were
  redirected, which are not counted at all.\<close>

theorem front_end_answers_once:
  assumes "NewAPIServer http_ok tracer_ok listen restListen grpcListen zipkinURL = Returned s"
    and "cWriter c = new_writer" and "ctxErrors c = []" and "\<not> ctxAborted c" and "\<not> is_grpc req"
  shows "\<exists>c'. serve be tsr (NewFromEngine s) req c = Done c' \<and>
    answered_with
      (case target_of (createBlobAPI api_routes) req of
         Some (e, params) \<Rightarrow> endpoint_answer be req e params (blobState c)
       | None \<Rightarrow>
           if rqMethod (httpRest req) \<in> set any_methods - {''CONNECT''} \<and> rqPath (httpRest req) \<noteq> ''/'' \<and>
              tsr (rqMethod (httpRest req)) (rqPath (httpRest req))
           then (if rqMethod (httpRest req) = ''GET'' then 301 else 307, redirectNote be req, False, False)
           else (404, ''404 page not found'', True, False)) c c'"
proof -
  let ?hs = "[Logger, Recovery, EngineMetrics, ServerGrpc]" and ?t = "target_of (createBlobAPI api_routes) req"
  have s: "serve be tsr (NewFromEngine s) = handleHTTPRequest be tsr ?hs (createBlobAPI api_routes)"
    using new_server [OF assms(1)] by (simp add: serve_def NewFromEngine_def fun_eq_iff)
  have methods: "set (map fst (createBlobAPI api_routes)) = set any_methods"
    by (auto simp: createBlobAPI_def api_routes_def any_methods_def)
  show ?thesis
  proof (cases ?t)
    case None
    let ?m = "rqMethod (httpRest req)" and ?p = "rqPath (httpRest req)"
    have "\<exists>c'. Done (redirectTrailingSlash be req c) = Done c' \<and>
        answered_with (if ?m = ''GET'' then 301 else 307, redirectNote be req, False, False) c c'"
      using assms(2) by (simp add: redirectTrailingSlash_def answered_with_def writer_defs)
    then show ?thesis
      using None no_route_answered [OF assms(2-5)] unfolding s handleHTTPRequest_def Let_def methods
      by (cases "?m \<in> set any_methods \<and> ?m \<noteq> ''CONNECT'' \<and> ?p \<noteq> ''/'' \<and> tsr ?m ?p") auto
  next
    case (Some t)
    obtain e params where "t = (e, params)"
      by (cases t)
    then show ?thesis
      using Some endpoint_answered [OF assms(2,3), of be req e params] chain_finishes [OF assms(4,5), of be e params]
      unfolding s handleHTTPRequest_def Let_def by simp
  qed
qed

text \<open>A gRPC call to a REST path goes to both servers, one after the other, with the same response.\<close>

lemma grpc_call_served_twice:
  assumes "is_grpc req" and "target_of routes req = Some (Gateway, params)" and "grpcServe be req (cWriter c) = (None, w)"
    and "gatewayCrash be req w = None" and "\<not> ctxAborted c"
  shows "\<exists>c'. handleHTTPRequest be tsr [Logger, Recovery, EngineMetrics, ServerGrpc] routes req c = Done c' \<and>
    cWriter c' = WriteHeaderNow (gateway_ServeHTTP (restGateway be) (feClock be) None (httpRest req) w)"
  using assms by (simp add: handleHTTPRequest_def run_endpoint_def run_foreign_def serveGateway_def on_writer_def)

text \<open>Requests for the REST API reach the gateway, and are counted, but never as errors.\<close>

lemma find_gateway: "m \<in> set any_methods \<Longrightarrow> ss \<noteq> [] \<Longrightarrow>
  find_route (createBlobAPI api_routes) m (''v1'' # ss) = Some (Gateway, [(''path'', ''/'' @ strings_Join ss ''/'')])"
  by (cases ss) (auto simp: createBlobAPI_def api_routes_def any_methods_def)

theorem rest_passes_front_end:
  assumes s: "NewAPIServer http_ok tracer_ok listen restListen grpcListen zipkinURL = Returned s"
    and "\<not> ctxAborted c" and "ctxErrors c = []" and "\<not> is_grpc req" and "gatewayCrash be req (cWriter c) = None"
    and "rqMethod (httpRest req) \<in> set any_methods" and "rqPath (httpRest req) = ''/v1/'' @ path"
  shows "\<exists>c'. serve be tsr (NewFromEngine s) req c = Done c' \<and>
    cWriter c' = WriteHeaderNow (gateway_ServeHTTP (restGateway be) (feClock be) None (httpRest req) (cWriter c)) \<and>
    counters c' = (counters c)\<lparr>httpRequestsServed := httpRequestsServed (counters c) + 1\<rparr>"
proof -
  have "strings_Split (''v1/'' @ path) ''/'' = ''v1'' # strings_Split path ''/''"
    using split_from_append(1) [of "CHR ''/''" "''v1''" "[]" path] by (simp add: strings_Split_def)
  moreover have "strings_Split path ''/'' \<noteq> []"
    by (simp add: strings_Split_def split_from_not_Nil)
  ultimately have "target_of (createBlobAPI api_routes) req = Some (Gateway, [(''path'', ''/'' @ strings_Join (strings_Split path ''/'') ''/'')])"
    using find_gateway assms(6,7) by (simp add: target_of_def has_prefix_def)
  then show ?thesis
    using new_server [OF s] assms(2-5)
    by (simp add: serve_def NewFromEngine_def handleHTTPRequest_def engineMetrics_def run_endpoint_def run_foreign_def
        serveGateway_def on_writer_def Let_def)
qed

text \<open>The transfer of a blob fails after four bytes.\<close>

definition demo_backend :: "(unit, unit) backend" where
  "demo_backend =
     \<lparr>restGateway = demo_gateway, feClock = 0, gatewayCrash = \<lambda>req w. None, grpcServe = \<lambda>req w. (None, w), promServe = \<lambda>req w. (None, w),
      assets = [], blobCreate = \<lambda>p ct body s. (Inl ErrBlobNotFound, s), blobRead = \<lambda>p i s. Inr ''payload'',
      storeCrash = \<lambda>req. None, blobJSON = \<lambda>b. ''{}'', redirectNote = \<lambda>req. ''''\<rparr>"

definition demo_http :: http_request where
  "demo_http = \<lparr>httpRest = demo_inbound\<lparr>rqMethod := ''GET'', rqPath := ''/blobs/p/1''\<rparr>, protoMajor = 1, bodyReadable = True, writeLimit = Some 4\<rparr>"

definition demo_context :: "unit http_context" where
  "demo_context = \<lparr>cWriter = new_writer, ctxErrors = [], ctxAborted = False, counters = \<lparr>httpRequestsServed = 0, httpErrorsCounter = 0\<rparr>, blobState = ()\<rparr>"

theorem front_end_answers_once_witness:
  "\<exists>s c'. NewAPIServer (\<lambda>_. True) True (\<lambda>_. True) '':8081'' ''127.0.0.1:9999'' '''' = Returned s \<and>
    serve demo_backend (\<lambda>_ _. False) (NewFromEngine s) demo_http demo_context = Done c' \<and>
    answered_with (200, ''payl'', True, True) demo_context c'"
proof -
  obtain s where s: "NewAPIServer (\<lambda>_. True) True (\<lambda>_. True) '':8081'' ''127.0.0.1:9999'' '''' = Returned s"
    by (simp add: NewAPIServer_def setTracer_def)
  have c: "cWriter demo_context = new_writer" "ctxErrors demo_context = []" "\<not> ctxAborted demo_context" "\<not> is_grpc demo_http"
    by (simp_all add: demo_context_def is_grpc_def serverGrpc_def demo_http_def)
  have "target_of (createBlobAPI api_routes) demo_http = Some (GetBlob, [(''prefix'', ''p''), (''blobId'', ''1'')])"
    by code_simp
  then show ?thesis
    using front_end_answers_once [OF s c, of demo_backend "\<lambda>_ _. False"] s
    by (simp add: get_answer_def) (simp add: demo_backend_def demo_http_def)
qed

end
