(* ===== verification/Sql_Init.thy ===== *)
theory Sql_Init
  imports Service_Prelude
begin

text \<open>
  Opening the database, \<^verbatim>\<open>src/persistence/sql_init.go\<close>: the drivers, the statements that create the tables, the limits of
  the connection pool. Whether the file system and the database carry out what they are asked for are arguments.
\<close>

section \<open>Tables\<close>

datatype column_type = Varchar | Integer | Binary

record column =
  columnName :: string
  columnType :: column_type
  notNull :: bool
  primaryKey :: bool

datatype statement =
    CreateTable string "column list" "(string \<times> string) list"
  | CreateIndex string string string

definition key_column :: "string \<Rightarrow> column" where
  "key_column n = \<lparr>columnName = n, columnType = Varchar, notNull = True, primaryKey = True\<rparr>"

definition required_column :: "string \<Rightarrow> column_type \<Rightarrow> column" where
  "required_column n t = \<lparr>columnName = n, columnType = t, notNull = True, primaryKey = False\<rparr>"

definition events_columns :: "column list" where
  "events_columns =
     [required_column ''actor_name'' Varchar, required_column ''event_type'' Varchar,
      required_column ''event_index'' Integer, required_column ''event'' Binary]"

definition snapshots_columns :: "column list" where
  "snapshots_columns =
     [key_column ''actor_name'', required_column ''snapshot_type'' Varchar,
      required_column ''event_index'' Integer, required_column ''snapshot'' Binary]"

definition blobs_columns :: "column list" where
  "blobs_columns =
     [required_column ''prefix'' Varchar, key_column ''blob_id'',
      \<lparr>columnName = ''blob_data'', columnType = Binary, notNull = False, primaryKey = False\<rparr>]"

text \<open>For each driver; all statements have \<^verbatim>\<open>IF NOT EXISTS\<close>. In MySQL the index is part of the table.\<close>

definition tables :: "(string \<times> statement list) list" where
  "tables =
     [(''sqlite3'',
       [CreateTable ''events'' events_columns [],
        CreateIndex ''actors'' ''events'' ''actor_name'',
        CreateTable ''snapshots'' snapshots_columns [],
        CreateTable ''blobs'' blobs_columns []]),
      (''mysql'',
       [CreateTable ''events'' events_columns [(''actors'', ''actor_name'')],
        CreateTable ''snapshots'' snapshots_columns [],
        CreateTable ''blobs'' blobs_columns []])]"

section \<open>The connection\<close>

record database =
  dbTables :: "(string \<times> column list) list"
  dbIndexes :: "(string \<times> string \<times> string) list"

record connection =
  driverName :: string
  dataSource :: string
  maxIdleConns :: int
  maxOpenConns :: int
  connected :: database

definition add_missing :: "'k \<Rightarrow> 'v \<Rightarrow> ('k \<times> 'v) list \<Rightarrow> ('k \<times> 'v) list" where
  "add_missing k v al = (case map_of al k of None \<Rightarrow> al @ [(k, v)] | Some _ \<Rightarrow> al)"

fun exec_statement :: "statement \<Rightarrow> database \<Rightarrow> database" where
  "exec_statement (CreateTable t cols indexes) db =
     (if map_of (dbTables db) t \<noteq> None then db
      else db\<lparr>dbTables := dbTables db @ [(t, cols)],
              dbIndexes := fold (\<lambda>(i, c). add_missing i (t, c)) indexes (dbIndexes db)\<rparr>)"
| "exec_statement (CreateIndex i t c) db = db\<lparr>dbIndexes := add_missing i (t, c) (dbIndexes db)\<rparr>"

record url =
  urlScheme :: string
  urlPath :: string
  urlString :: string

datatype db_error = InvalidDriver string | CannotMkdir | CannotOpen | CannotPing | NoStatements string | StatementFailed statement

text \<open>What the file system and the database do: \<open>mkdirs\<close> of the directory of a path, opening and pinging a source with a
  driver, and a statement.\<close>

record db_env =
  mkdirs :: "string \<Rightarrow> bool"
  opens :: "string \<Rightarrow> string \<Rightarrow> bool"
  pings :: "string \<Rightarrow> string \<Rightarrow> bool"
  executes :: "statement \<Rightarrow> bool"

fun exec_all :: "db_env \<Rightarrow> statement list \<Rightarrow> database \<Rightarrow> (db_error, database) outcome" where
  "exec_all env [] db = Returned db"
| "exec_all env (v # vs) db =
     (if executes env v then exec_all env vs (exec_statement v db) else Failed (StatementFailed v))"

definition TrimPrefix :: "string \<Rightarrow> string \<Rightarrow> string" where
  "TrimPrefix s p = (if has_prefix s p then drop (length p) s else s)"

definition CreateDBConnection :: "db_env \<Rightarrow> url \<Rightarrow> database \<Rightarrow> (db_error, connection) outcome" where
  "CreateDBConnection env url db =
     (let driver = urlScheme url; uri = TrimPrefix (urlString url) (urlScheme url @ ''://'') in
      if driver \<noteq> ''mysql'' \<and> driver \<noteq> ''sqlite3'' then Failed (InvalidDriver driver)
      else if driver = ''sqlite3'' \<and> \<not> mkdirs env (urlPath url) then Failed CannotMkdir
      else if \<not> opens env driver uri then Failed CannotOpen
      else if \<not> pings env driver uri then Failed CannotPing
      else
        let maxIdle = 10; (idle, openc) = (if driver = ''sqlite3'' then (1, 1) else (maxIdle, 5 * maxIdle)) in
        case map_of tables driver of
          None \<Rightarrow> Failed (NoStatements driver)
        | Some statements \<Rightarrow>
            bind_outcome (exec_all env statements db) (\<lambda>db. Returned
              \<lparr>driverName = driver, dataSource = uri, maxIdleConns = idle, maxOpenConns = openc, connected = db\<rparr>))"

section \<open>What a connection has\<close>

lemma exec_statement_keeps: "map_of (dbTables db) t = Some cols \<Longrightarrow> map_of (dbTables (exec_statement st db)) t = Some cols"
  by (cases st) auto

lemma exec_all_keeps: "exec_all env sts db = Returned db' \<Longrightarrow> map_of (dbTables db) t = Some cols \<Longrightarrow> map_of (dbTables db') t = Some cols"
  by (induction sts arbitrary: db) (auto simp: exec_statement_keeps split: if_splits)

lemma exec_all_creates:
  "exec_all env sts db = Returned db' \<Longrightarrow> CreateTable t cols is \<in> set sts \<Longrightarrow>
   \<exists>cols'. map_of (dbTables db') t = Some cols' \<and> (map_of (dbTables db) t = None \<longrightarrow> (\<exists>is. CreateTable t cols' is \<in> set sts))"
proof (induction sts arbitrary: db)
  case (Cons st sts)
  then have run: "exec_all env sts (exec_statement st db) = Returned db'"
    by (auto split: if_splits)
  show ?case
  proof (cases "map_of (dbTables (exec_statement st db)) t")
    case None
    then have "CreateTable t cols is \<in> set sts" "map_of (dbTables db) t = None"
      using Cons.prems(2) exec_statement_keeps [of db t] by (cases "map_of (dbTables db) t"; auto)+
    then show ?thesis
      using Cons.IH [OF run] None by auto
  next
    case (Some cols')
    then have "map_of (dbTables db') t = Some cols'"
      by (rule exec_all_keeps [OF run])
    moreover have "\<exists>is. st = CreateTable t cols' is" if "map_of (dbTables db) t = None"
      using Some that by (cases st) (auto split: if_splits)
    ultimately show ?thesis
      by auto
  qed
qed simp

lemma CreateDBConnection_Returned:
  assumes "CreateDBConnection env url db = Returned conn"
  shows "\<exists>sts. map_of tables (driverName conn) = Some sts \<and> exec_all env sts db = Returned (connected conn) \<and>
    driverName conn \<in> {''mysql'', ''sqlite3''} \<and> (driverName conn = ''sqlite3'' \<longrightarrow> maxOpenConns conn = 1)"
proof (cases "urlScheme url = ''sqlite3''")
  case True
  then show ?thesis
    using assms by (simp add: CreateDBConnection_def Let_def split: if_split_asm option.split_asm)
      (clarsimp simp: bind_outcome_eq_Returned)
next
  case False
  then show ?thesis
    using assms by (simp add: CreateDBConnection_def Let_def split: if_split_asm option.split_asm)
      (clarsimp simp: bind_outcome_eq_Returned)
qed

text \<open>A connection that is returned can be used by the event store and the blob store: all three tables exist, a table that
  was there before is left as it is, and the others have the columns that the stores use. SQLite is used through a
  single connection.\<close>

theorem connection_has_tables:
  assumes "CreateDBConnection env url db = Returned conn"
    and "(t, cols) \<in> {(''events'', events_columns), (''snapshots'', snapshots_columns), (''blobs'', blobs_columns)}"
  shows "map_of (dbTables (connected conn)) t = (case map_of (dbTables db) t of None \<Rightarrow> Some cols | Some old \<Rightarrow> Some old) \<and>
    driverName conn \<in> {''mysql'', ''sqlite3''} \<and> (driverName conn = ''sqlite3'' \<longrightarrow> maxOpenConns conn = 1)"
proof -
  obtain sts where sts: "map_of tables (driverName conn) = Some sts" "exec_all env sts db = Returned (connected conn)"
    and driver: "driverName conn \<in> {''mysql'', ''sqlite3''}" "driverName conn = ''sqlite3'' \<longrightarrow> maxOpenConns conn = 1"
    using CreateDBConnection_Returned [OF assms(1)] by (elim exE conjE)
  have mem: "\<exists>is. CreateTable t cols is \<in> set sts" and uniq: "\<And>cols' is. CreateTable t cols' is \<in> set sts \<Longrightarrow> cols' = cols"
    using assms(2) driver(1) sts(1) by (auto simp: tables_def)
  show ?thesis
  proof (cases "map_of (dbTables db) t")
    case None
    obtain cols' js where "map_of (dbTables (connected conn)) t = Some cols'" and "CreateTable t cols' js \<in> set sts"
      using mem exec_all_creates [OF sts(2)] None by blast
    then show ?thesis
      using uniq [of cols' js] None driver by simp
  next
    case (Some old)
    then show ?thesis
      using exec_all_keeps [OF sts(2)] driver by simp
  qed
qed

lemma connection_tables:
  assumes "CreateDBConnection env url db = Returned conn"
  shows "t \<in> {''events'', ''snapshots'', ''blobs''} \<Longrightarrow> map_of (dbTables (connected conn)) t \<noteq> None"
  using connection_has_tables [OF assms, of t] by (auto split: option.splits)

end
