(* ===== verification/Setup.thy ===== *)
theory Setup
  imports Cluster Event_Store Http_Server Sql_Init Backoff
begin

text \<open>
  The configuration of \<^verbatim>\<open>src/setup/setup.go\<close>, the node-local server of \<^verbatim>\<open>src/server/internal_server.go\<close> and \<^verbatim>\<open>src/main.go\<close>: how the
  environment determines the stores, the shards, the cluster, the service and the servers of a node (an unset variable is
  empty).
\<close>

section \<open>Reading the configuration\<close>

type_synonym config = "(string \<times> string) list"

definition setDefaultConfig :: "string \<Rightarrow> string \<Rightarrow> config \<Rightarrow> config" where
  "setDefaultConfig key val defaults = AList.update key val defaults"

definition getStringConfig :: "(string \<Rightarrow> string) \<Rightarrow> config \<Rightarrow> string \<Rightarrow> string" where
  "getStringConfig getenv defaults key =
     (let val = getenv key in
      if val \<noteq> '''' then val
      else case map_of defaults key of None \<Rightarrow> '''' | Some v \<Rightarrow> v)"

definition getIntConfig :: "(string \<Rightarrow> string) \<Rightarrow> config \<Rightarrow> string \<Rightarrow> (service_error, int) outcome" where
  "getIntConfig getenv defaults key =
     (case strconv_Atoi (getStringConfig getenv defaults key) of
        None \<Rightarrow> Panicked (PanicMessage (''parameter '' @ key @ '' with val '' @ [CHR 0x22] @ getStringConfig getenv defaults key @ [CHR 0x22] @
                  '' could not be converted to an int''))
      | Some i \<Rightarrow> Returned i)"

definition default_config :: "string \<Rightarrow> config" where
  "default_config cwd =
     fold (\<lambda>(k, v). setDefaultConfig k v)
       [(''API_URL'', ''http://localhost:8080/invoke''),
        (''DB_URL'', ''sqlite3://'' @ cwd @ ''/data/flow.db''),
        (''LOG_LEVEL'', ''info''),
        (''LISTEN'', '':8081''),
        (''GRPC_LISTEN'', ''127.0.0.1:9999''),
        (''SNAPSHOT_INTERVAL'', ''1000''),
        (''REQUEST_TIMEOUT'', ''60000ms''),
        (''CLUSTER_NODE_COUNT'', ''1''),
        (''CLUSTER_SHARD_COUNT'', ''1''),
        (''CLUSTER_NODE_PREFIX'', ''node-''),
        (''CLUSTER_NODE_ID'', ''0''),
        (''CLUSTER_NODE_PORT'', ''19081'')] []"

section \<open>The stores\<close>

datatype storage = InMemory int | SQL int connection

text \<open>What the configuration depends on outside the process: the environment and the working directory, parsers, whether
  a log level is known, the database, dialling nodes, the tracing library, and whether an address can be listened at.\<close>

record 'c world =
  environ :: "string \<Rightarrow> string"
  workDir :: string
  parseURL :: "string \<Rightarrow> url option"
  parseAPI :: "string \<Rightarrow> string option"
  levelOk :: "string \<Rightarrow> bool"
  dbEnv :: db_env
  dbBefore :: database
  dialNode :: "string \<Rightarrow> 'c option"
  zipkinOk :: "string \<Rightarrow> bool"
  tracerOk :: bool
  canListen :: "string \<Rightarrow> bool"

fun lift_error :: "('e, 'a) outcome \<Rightarrow> (service_error, 'a) outcome" where
  "lift_error (Returned a) = Returned a"
| "lift_error (Failed _) = Failed (ServiceError (PlainError ''''))"
| "lift_error (Panicked p) = Panicked p"

text \<open>An interval that is no number counts as 1000.\<close>

definition initStorageFromEnv :: "'c world \<Rightarrow> config \<Rightarrow> (service_error, storage) outcome" where
  "initStorageFromEnv w defaults =
     (let dbURLString = getStringConfig (environ w) defaults ''DB_URL'' in
      case parseURL w dbURLString of
        None \<Rightarrow> Failed (ServiceError (PlainError (''invalid DB URL in DB_URL : '' @ dbURLString)))
      | Some dbURL \<Rightarrow>
          (let snapshotInterval = (case strconv_Atoi (getStringConfig (environ w) defaults ''SNAPSHOT_INTERVAL'') of
                 None \<Rightarrow> 1000 | Some i \<Rightarrow> i)
           in if urlScheme dbURL = ''inmem'' then Returned (InMemory snapshotInterval)
              else bind_outcome (lift_error (CreateDBConnection (dbEnv w) dbURL (dbBefore w)))
                     (\<lambda>dbConn. Returned (SQL snapshotInterval dbConn))))"

section \<open>Wiring\<close>

text \<open>The node-local server, \<^verbatim>\<open>src/server/internal_server.go\<close>; it listens when it runs.\<close>

record InternalServer =
  internalListen :: string
  internalFlows :: actorManager

definition NewInternalFlowService :: "actorManager \<Rightarrow> string \<Rightarrow> (service_error, InternalServer) outcome" where
  "NewInternalFlowService flows listen = Returned \<lparr>internalListen = listen, internalFlows = flows\<rparr>"

text \<open>A node: its storage, its cluster manager, its service and its two servers. A wrong log level exits the process, here
  a panic.\<close>

record 'c node =
  nodeStorage :: storage
  nodeCluster :: "'c Manager"
  nodeService :: actorManager
  nodeInternal :: InternalServer
  nodeServer :: Server

definition shard_count :: "(string \<Rightarrow> string) \<Rightarrow> config \<Rightarrow> int \<Rightarrow> (service_error, int) outcome" where
  "shard_count getenv defaults nodeCount =
     (if getStringConfig getenv defaults ''CLUSTER_SHARD_COUNT'' = '''' then Returned (int64 (10 * nodeCount))
      else getIntConfig getenv defaults ''CLUSTER_SHARD_COUNT'')"

definition InitFromEnv :: "'c world \<Rightarrow> (service_error, 'c node) outcome" where
  "InitFromEnv w =
     (let defaults = default_config (map (\<lambda>c. if c = CHR 0x5C then CHR ''/'' else c) (workDir w));
          str = getStringConfig (environ w) defaults; int_of = getIntConfig (environ w) defaults in
      if \<not> levelOk w (str ''LOG_LEVEL'') then Panicked (PanicMessage ''Invalid log level.'')
      else
        bind_outcome (initStorageFromEnv w defaults) (\<lambda>storage.
        bind_outcome (int_of ''CLUSTER_NODE_COUNT'') (\<lambda>nodeCount.
        bind_outcome (shard_count (environ w) defaults nodeCount) (\<lambda>shardCount.
        bind_outcome (int_of ''CLUSTER_NODE_ID'') (\<lambda>nodeID.
        bind_outcome (int_of ''CLUSTER_NODE_PORT'') (\<lambda>nodePort.
        bind_outcome (lift_error (NewManager (dialNode w)
            \<lparr>NodeCount = nodeCount, NodeID = nodeID, NodePrefix = str ''CLUSTER_NODE_PREFIX'', NodePort = nodePort\<rparr>
            (NewFixedSizeExtractor shardCount))) (\<lambda>manager.
        bind_outcome (lift_error (LocalShards manager)) (\<lambda>shards.
        bind_outcome (NewGraphManager (parseAPI w) (str ''API_URL'') (NewFixedSizeExtractor shardCount) shards []) (\<lambda>(service, names, b).
        bind_outcome (NewInternalFlowService service ('':'' @ str ''CLUSTER_NODE_PORT'')) (\<lambda>internal.
        bind_outcome (NewAPIServer (zipkinOk w) (tracerOk w) (canListen w) (str ''LISTEN'') (str ''GRPC_LISTEN'') (str ''ZIPKIN_URL'')) (\<lambda>api.
          Returned \<lparr>nodeStorage = storage, nodeCluster = manager, nodeService = service, nodeInternal = internal,
                    nodeServer = NewFromEngine api\<rparr>)))))))))))"

section \<open>The process\<close>

text \<open>\<^verbatim>\<open>src/main.go\<close>. The internal server runs in a goroutine of its own, and the errors of both servers are dropped: \<open>Serving\<close> says
  whether the internal server listens, and \<open>Exited\<close> has the code of the process.\<close>

datatype 'c process = Exited int | Crashed panic_reason | Serving "'c node" bool

definition InternalServer_Run :: "'c world \<Rightarrow> InternalServer \<Rightarrow> bool" where
  "InternalServer_Run w s \<longleftrightarrow> canListen w (internalListen s)"

definition Server_Run :: "'c world \<Rightarrow> Server \<Rightarrow> bool" where
  "Server_Run w s \<longleftrightarrow> canListen w (serverListen s)"

definition main :: "'c world \<Rightarrow> 'c process" where
  "main w =
     (case InitFromEnv w of
        Failed err \<Rightarrow> Exited 1
      | Panicked p \<Rightarrow> Crashed p
      | Returned node \<Rightarrow>
          (let internal = InternalServer_Run w (nodeInternal node) in
           if Server_Run w (nodeServer node) then Serving node internal else Exited 0))"

section \<open>What the defaults give\<close>

lemma default_config_simps [simp]:
  "map_of (default_config cwd) ''CLUSTER_SHARD_COUNT'' = Some ''1''" "map_of (default_config cwd) ''CLUSTER_NODE_COUNT'' = Some ''1''"
  "map_of (default_config cwd) ''CLUSTER_NODE_ID'' = Some ''0''" "map_of (default_config cwd) ''CLUSTER_NODE_PORT'' = Some ''19081''"
  "map_of (default_config cwd) ''SNAPSHOT_INTERVAL'' = Some ''1000''" "map_of (default_config cwd) ''LOG_LEVEL'' = Some ''info''"
  "map_of (default_config cwd) ''DB_URL'' = Some (''sqlite3://'' @ cwd @ ''/data/flow.db'')"
  "map_of (default_config cwd) ''API_URL'' = Some ''http://localhost:8080/invoke''"
  "map_of (default_config cwd) ''LISTEN'' = Some '':8081''" "map_of (default_config cwd) ''ZIPKIN_URL'' = None"
  "map_of (default_config cwd) ''CLUSTER_NODE_PREFIX'' = Some ''node-''" "map_of (default_config cwd) ''GRPC_LISTEN'' = Some ''127.0.0.1:9999''"
  by (simp_all add: default_config_def setDefaultConfig_def update_conv)

text \<open>The shard count is never derived from the number of nodes: the default is in the way.\<close>

theorem shard_count_is_configured:
  "shard_count getenv (default_config cwd) nodeCount = getIntConfig getenv (default_config cwd) ''CLUSTER_SHARD_COUNT''"
  by (simp add: shard_count_def getStringConfig_def Let_def)

lemma Atoi_defaults: "strconv_Atoi ''1'' = Some 1" "strconv_Atoi ''0'' = Some 0" "strconv_Atoi ''1000'' = Some 1000" "strconv_Atoi ''19081'' = Some 19081"
  by (simp_all add: strconv_Atoi_def is_digits_def digits_value_def)

lemma itoa_defaults: "itoa_int 0 = ''0''" "itoa_int 19081 = ''19081''" "supervisorName 0 = ''supervisor-0''"
  by (simp_all add: itoa_int_def itoa.simps supervisorName_def char_of_def bit_0)

lemma go_range_single: "go_range wish [k] = [k]"
proof -
  have "wish = [k]" if "distinct wish" "set wish = {k}"
    using that by (cases wish; cases "tl wish") auto
  then show ?thesis
    by (auto simp: go_range_def)
qed

definition default_cluster :: "'c \<Rightarrow> 'c Manager" where
  "default_cluster client =
     \<lparr>settings = \<lparr>NodeCount = 1, NodeID = 0, NodePrefix = ''node-'', NodePort = 19081\<rparr>, extractor = NewFixedSizeExtractor 1,
      reverseProxies = [(''node-0'', client)]\<rparr>"

definition default_service :: actorManager where
  "default_service =
     \<lparr>shardSupervisors = [(0, ''supervisor-0'')], executorPID = ''executor'', shardExtractor = NewFixedSizeExtractor 1\<rparr>"

lemma default_manager:
  assumes "dial ''localhost:19081'' = Some client"
  shows "NewManager dial \<lparr>NodeCount = 1, NodeID = 0, NodePrefix = ''node-'', NodePort = 19081\<rparr> (NewFixedSizeExtractor 1) =
    Returned (default_cluster client)"
  using assms by (simp add: NewManager_def nodeAddress_def nodeName_def itoa_defaults default_cluster_def)

lemma default_shards: "LocalShards (default_cluster client) = Returned [0]"
  by (simp add: LocalShards_def default_cluster_def ShardCount_def NewFixedSizeExtractor_def go_rem_def quot_def)

lemma default_graph_manager:
  assumes "parse url = Some path"
  shows "NewGraphManager parse url (NewFixedSizeExtractor 1) [0] [] =
    Returned (default_service, [''supervisor-0'', ''executor''], path = '''')"
  using assms by (simp add: NewGraphManager_def SpawnNamed_def itoa_defaults default_service_def)

text \<open>C22: A node that is started without any configuration serves every flow: if its database can be opened (under a
  directory whose name has no backslash), its own address dialled and its ports are free, it starts with SQL stores whose
  tables exist and a snapshot interval of 1000, owns the only shard, finds a supervisor for every request whose flow
  identifier is a UUID, and both its servers listen; nothing in the start panics.\<close>

theorem default_node_serves_every_flow:
  assumes "environ w = (\<lambda>_. '''')" and "CHR 0x5C \<notin> set (workDir w)" and "levelOk w ''info''"
    and "parseURL w (''sqlite3://'' @ workDir w @ ''/data/flow.db'') = Some u" and "urlScheme u = ''sqlite3''"
    and "CreateDBConnection (dbEnv w) u (dbBefore w) = Returned conn"
    and "dialNode w ''localhost:19081'' = Some client" and "parseAPI w ''http://localhost:8080/invoke'' = Some path"
    and "tracerOk w" and "\<forall>a \<in> {'':8081'', ''127.0.0.1:9999'', '':19081''}. canListen w a"
  shows "\<exists>node. main w = Serving node True \<and> nodeStorage node = SQL 1000 conn \<and>
    (\<forall>t \<in> {''events'', ''snapshots'', ''blobs''}. map_of (dbTables (connected conn)) t \<noteq> None) \<and>
    GetClients wish (nodeCluster node) = [client] \<and>
    (\<forall>cmd v. uuid_Parse (CmdFlowId cmd) = Inr v \<longrightarrow> lookupSupervisor (nodeService node) (Some cmd) = Returned ''supervisor-0'')"
proof -
  have cwd: "map (\<lambda>c. if c = CHR 0x5C then CHR ''/'' else c) (workDir w) = workDir w"
    using assms(2) by (intro map_idI) auto
  obtain api where api: "NewAPIServer (zipkinOk w) (tracerOk w) (canListen w) '':8081'' ''127.0.0.1:9999'' '''' = Returned api"
      "serverListen api = '':8081''"
    using assms(9,10) by (simp add: NewAPIServer_def setTracer_def)
  let ?node = "\<lparr>nodeStorage = SQL 1000 conn, nodeCluster = default_cluster client, nodeService = default_service,
    nodeInternal = \<lparr>internalListen = '':19081'', internalFlows = default_service\<rparr>, nodeServer = NewFromEngine api\<rparr>"
  have storage: "initStorageFromEnv w (default_config (workDir w)) = Returned (SQL 1000 conn)"
    using assms(1,4,5,6) by (simp add: initStorageFromEnv_def getStringConfig_def Atoi_defaults Let_def)
  have "InitFromEnv w = Returned ?node"
    using assms(1,3,7,8) storage cwd api(1) default_manager [of "dialNode w" client] default_graph_manager [of "parseAPI w" "''http://localhost:8080/invoke''" path]
    by (simp add: InitFromEnv_def shard_count_is_configured getIntConfig_def getStringConfig_def Atoi_defaults
        default_shards NewInternalFlowService_def Let_def)
  then have "main w = Serving ?node True"
    using api(2) assms(10) by (simp add: main_def InternalServer_Run_def Server_Run_def NewFromEngine_def Let_def)
  moreover have "GetClients wish (nodeCluster ?node) = [client]"
    by (simp add: GetClients_def default_cluster_def go_range_single)
  moreover have "lookupSupervisor (nodeService ?node) (Some cmd) = Returned ''supervisor-0''" if "uuid_Parse (CmdFlowId cmd) = Inr v" for cmd v
    using that by (simp add: lookupSupervisor_def default_service_def ShardID_def NewFixedSizeExtractor_def int64_def)
  moreover have "map_of (dbTables (connected conn)) t \<noteq> None" if "t \<in> {''events'', ''snapshots'', ''blobs''}" for t
    using that connection_tables [OF assms(6)] by blast
  ultimately show ?thesis
    by (intro exI [of _ ?node]) auto
qed

definition demo_url :: url where
  "demo_url = \<lparr>urlScheme = ''sqlite3'', urlPath = ''/app/data/flow.db'', urlString = ''sqlite3:///app/data/flow.db''\<rparr>"

definition demo_world :: "string world" where
  "demo_world =
     \<lparr>environ = \<lambda>_. '''', workDir = ''/app'', parseURL = \<lambda>_. Some demo_url, parseAPI = Some, levelOk = \<lambda>_. True,
      dbEnv = \<lparr>mkdirs = \<lambda>_. True, opens = \<lambda>_ _. True, pings = \<lambda>_ _. True, executes = \<lambda>_. True\<rparr>, dbBefore = \<lparr>dbTables = [], dbIndexes = []\<rparr>,
      dialNode = Some, zipkinOk = \<lambda>_. True, tracerOk = True, canListen = \<lambda>_. True\<rparr>"

theorem default_node_serves_every_flow_witness:
  "\<exists>node. main demo_world = Serving node True \<and> GetClients [] (nodeCluster node) = [''localhost:19081'']"
proof -
  have "\<exists>conn. CreateDBConnection (dbEnv demo_world) demo_url (dbBefore demo_world) = Returned conn"
    by (simp add: demo_world_def demo_url_def CreateDBConnection_def tables_def Let_def)
  then show ?thesis
    using default_node_serves_every_flow [of demo_world demo_url _ "''localhost:19081''" "''http://localhost:8080/invoke''" "[]"]
    by (fastforce simp: demo_world_def demo_url_def)
qed

text \<open>A server that cannot listen ends without a sign: the process exits with the code of success if it is the REST server, and
  goes on without its shards if it is the node's own.\<close>

lemma listen_failures_hidden:
  assumes "InitFromEnv w = Returned node"
  shows "\<not> canListen w (serverListen (nodeServer node)) \<Longrightarrow> main w = Exited 0"
    and "canListen w (serverListen (nodeServer node)) \<Longrightarrow> \<not> canListen w (internalListen (nodeInternal node)) \<Longrightarrow>
      main w = Serving node False"
  using assms by (simp_all add: main_def InternalServer_Run_def Server_Run_def)

text \<open>A snapshot interval of 0 is accepted, and then the first event that an actor persists is stored but makes it panic, so that its
  supervisor stops it.\<close>

lemma zero_interval_accepted:
  assumes "environ w ''SNAPSHOT_INTERVAL'' = ''0''" and "parseURL w (getStringConfig (environ w) defaults ''DB_URL'') = Some u"
    and "urlScheme u = ''inmem''"
  shows "initStorageFromEnv w defaults = Returned (InMemory 0)"
  using assms by (simp add: initStorageFromEnv_def getStringConfig_def Atoi_defaults Let_def)

lemma zero_interval_stops_actors:
  assumes "snapshotInterval m = 0" and "storeFault m 0 = None"
  shows "\<exists>m'. PersistReceive e m = Panic DivideByZero m' \<and> written m' = written m @ [(eventIndex m, e)] \<and>
    HandleFailure graphStrategy DivideByZero now noise rs = ([PublishFailure StopDirective, StopChildren], rs)"
  using assms
  by (simp add: PersistReceive_def provider_PersistEvent_def HandleFailure_def graphStrategy_def NewExponentialBackoffStrategy_def
      graphDecider_def Let_def)

end
