(* ===== verification/Actor_Hosting.thy ===== *)
theory Actor_Hosting
  imports Actor_Runs
begin

text \<open>
  How an actor is run: the middleware of \<^verbatim>\<open>src/persistence/receiver.go\<close>, which replays the journal when the
  actor has started and hands it snapshot requests, and the plugin of \<^verbatim>\<open>src/actor/mixins.go\<close> that tells an actor its
  own identifier.
\<close>

section \<open>The actor's own identifier\<close>

record PIDHolder =
  ownPID :: "string option"

definition SetPID :: "string \<Rightarrow> PIDHolder \<Rightarrow> PIDHolder" where
  "SetPID p ph = ph\<lparr>ownPID := Some p\<rparr>"

definition GetSelf :: "PIDHolder \<Rightarrow> string option" where
  "GetSelf ph = ownPID ph"

text \<open>\<open>aware\<close> says whether the actor wants to know its identifier.\<close>

definition PIDAwarePlugin_OnStart :: "bool \<Rightarrow> string \<Rightarrow> PIDHolder \<Rightarrow> PIDHolder" where
  "PIDAwarePlugin_OnStart aware self ph = (if aware then SetPID self ph else ph)"

section \<open>Middleware\<close>

definition sendSnapshotRequest :: "graphActor \<Rightarrow> graphActor res" where
  "sendSnapshotRequest s = Receive (MsgSystem RequestSnapshot) (s\<lparr>mixin := (mixin s)\<lparr>snapshotRequested := False\<rparr>\<rparr>)"

text \<open>\<open>stored\<close> is what the provider reads of the actor's journal.\<close>

definition Using :: "(int \<times> Event) list \<Rightarrow> Message \<Rightarrow> graphActor \<Rightarrow> graphActor res" where
  "Using stored msg s =
     (if msg = MsgSystem Started then bind_res (Receive msg s) (mixin_init stored)
      else bind_res (Receive msg s)
             (\<lambda>s. if isSnapshotRequested (mixin s) then sendSnapshotRequest s else Done s))"

text \<open>The graph actor ignores requests for snapshots, so under the middleware it handles a message as it
  does without, and no request stays pending: all snapshots are lost, and a restart always replays the
  whole journal.\<close>

theorem Using_is_transparent:
  assumes "msg \<noteq> MsgSystem Started"
  shows "Using stored msg s =
    bind_res (Receive msg s) (\<lambda>t. Done (t\<lparr>mixin := (mixin t)\<lparr>snapshotRequested := False\<rparr>\<rparr>))"
proof -
  have "(if isSnapshotRequested (mixin t) then sendSnapshotRequest t else Done t) =
      Done (t\<lparr>mixin := (mixin t)\<lparr>snapshotRequested := False\<rparr>\<rparr>)" for t
    by (cases t; cases "mixin t") (simp add: isSnapshotRequested_def sendSnapshotRequest_def Receive_def receiveMessage_def)
  then show ?thesis
    using assms by (simp add: Using_def)
qed

text \<open>An actor that starts has replayed its journal before it handles anything else.\<close>

theorem Using_start:
  assumes "\<not> recovering (mixin s)"
  shows "Using stored (MsgSystem Started) s = mixin_init stored (send (SetReceiveTimeout CommitTimeout) s)"
  using assms by (simp add: Using_def Receive_def receiveMessage_def)

end
