(* ===== verification/Stage_Futures.thy ===== *)
theory Stage_Futures
  imports Actor_Replies Actor_Commands
begin

text \<open>
  Waiting for a stage. A client's \<^verbatim>\<open>AwaitStageResultRequest\<close> is not answered by its handler:
  the handler hangs a continuation on the stage's future (\<^verbatim>\<open>src/graph/stage.go\<close>, the futures
  of the actor library), and the actor answers when it processes that continuation. This theory
  models the futures, the continuations in the actor's mailbox and the clients that wait, around
  the graph actor of \<open>Graph_Actor\<close>, and shows that every client that waits for a stage is told the
  stage's one result, once, as soon as there is one.
\<close>

section \<open>Futures\<close>

type_synonym client = nat

text \<open>What a completion function of a future remembers: the message during which the actor started
  to wait (its sender and the request).\<close>

record Await =
  aSender :: client
  aFlow :: flow_id
  aStage :: stage_id

text \<open>\<open>ferr\<close> is \<^verbatim>\<open>f.err != nil\<close>: the only error is the timeout. No process is ever piped to a
  stage's future.\<close>

record Future =
  fdone :: bool
  fresult :: "CompletionResult option"
  ferr :: bool
  completions :: "Await list"

definition NewFuture :: Future where
  "NewFuture = \<lparr>fdone = False, fresult = None, ferr = False, completions = []\<rparr>"

text \<open>\<^verbatim>\<open>Stop\<close> with the completions it runs, in their order.\<close>

definition futureProcess_Stop :: "Future \<Rightarrow> Future \<times> Await list" where
  "futureProcess_Stop f =
     (if fdone f then (f, [])
      else (f\<lparr>fdone := True, completions := []\<rparr>, completions f))"

definition SendUserMessage :: "CompletionResult \<Rightarrow> Future \<Rightarrow> Future \<times> Await list" where
  "SendUserMessage message f = futureProcess_Stop (f\<lparr>fresult := Some message\<rparr>)"

text \<open>The function that \<^verbatim>\<open>NewFuture\<close> gives to its timer.\<close>

definition timer_fired :: "Future \<Rightarrow> Future \<times> Await list" where
  "timer_fired f = futureProcess_Stop (f\<lparr>ferr := True\<rparr>)"

definition continueWith :: "Await \<Rightarrow> Future \<Rightarrow> Future \<times> Await list" where
  "continueWith a f =
     (if fdone f then (f, [a]) else (f\<lparr>completions := completions f @ [a]\<rparr>, []))"

section \<open>A flow's actor with the clients that wait\<close>

text \<open>
  \<open>futures\<close> are the futures of the stages, which are created with them. \<open>continuations\<close> are the
  continuation messages in the actor's mailbox, \<open>answered\<close> is what its clients were sent. \<open>asked\<close>
  is only there to state the properties: the requests for which the actor has started to wait.
\<close>

record node =
  flow_actor :: graphActor
  futures :: "stage_id \<Rightarrow> Future"
  continuations :: "Await list"
  answered :: "(client \<times> Response) list"
  asked :: "Await list"

definition new_node :: "graphActor \<Rightarrow> node" where
  "new_node s =
     \<lparr>flow_actor = s, futures = (\<lambda>_. NewFuture), continuations = [], answered = [], asked = []\<rparr>"

text \<open>A completion function sends a continuation to the actor itself.\<close>

definition upd_future :: "stage_id \<Rightarrow> Future \<times> Await list \<Rightarrow> node \<Rightarrow> node" where
  "upd_future k fr n =
     n\<lparr>futures := (futures n)(k := fst fr), continuations := continuations n @ snd fr\<rparr>"

definition tell_future :: "stage_id \<times> CompletionResult \<Rightarrow> node \<Rightarrow> node" where
  "tell_future kr n = upd_future (fst kr) (SendUserMessage (snd kr) (futures n (fst kr))) n"

definition expire :: "stage_id \<Rightarrow> node \<Rightarrow> node" where
  "expire k n = upd_future k (timer_fired (futures n k)) n"

definition context_AwaitFuture :: "Await \<Rightarrow> node \<Rightarrow> node" where
  "context_AwaitFuture a n =
     upd_future (aStage a) (continueWith a (futures n (aStage a))) (n\<lparr>asked := asked n @ [a]\<rparr>)"

text \<open>What the actor does while it has a message of client \<open>c\<close>.\<close>

fun perform :: "client \<Rightarrow> Effect \<Rightarrow> node \<Rightarrow> node" where
  "perform c (Respond r) n = n\<lparr>answered := answered n @ [(c, r)]\<rparr>"
| "perform c (AwaitFuture f sid) n = context_AwaitFuture \<lparr>aSender = c, aFlow = f, aStage = sid\<rparr> n"
| "perform c _ n = n"

definition new_effects :: "graphActor \<Rightarrow> graphActor \<Rightarrow> Effect list" where
  "new_effects s t = drop (length (outbox s)) (outbox t)"

text \<open>What the futures of stage \<open>k\<close> were told by the graph, and what a message added to it. The
  tells of different stages are made in the order in which the graph completes them, which is
  left open (\<open>ks\<close>); a handler that waits completes no stage.\<close>

definition told :: "stage_id \<Rightarrow> graphActor \<Rightarrow> CompletionResult list" where
  "told k s =
     (if hasGraph s then (case GetStage k s of None \<Rightarrow> [] | Some st \<Rightarrow> whenComplete st) else [])"

definition new_tells :: "stage_id list \<Rightarrow> graphActor \<Rightarrow> graphActor \<Rightarrow> (stage_id \<times> CompletionResult) list" where
  "new_tells ks s t = concat (map (\<lambda>k. map (Pair k) (drop (length (told k s)) (told k t))) ks)"

definition after_message :: "client \<Rightarrow> stage_id list \<Rightarrow> graphActor \<Rightarrow> node \<Rightarrow> node" where
  "after_message c ks t n =
     fold (perform c) (new_effects (flow_actor n) t)
       (fold tell_future (new_tells ks (flow_actor n) t) (n\<lparr>flow_actor := t\<rparr>))"

text \<open>The actor processes its next continuation: the message of the request is restored, and the
  function that \<^verbatim>\<open>receiveCommand\<close> gave to \<^verbatim>\<open>AwaitFuture\<close> reads the future. (A future with neither an
  error nor a result, at which the function's type assertion would panic, has run no completion yet.)\<close>

definition run_continuation :: "node \<Rightarrow> node" where
  "run_continuation n =
     (case continuations n of
        [] \<Rightarrow> n
      | a # rest \<Rightarrow>
          let f = futures n (aStage a); s = flow_actor n;
              t = await_continuation (aFlow a) (aStage a) (if ferr f then None else fresult f) s
          in fold (perform (aSender a)) (new_effects s t) (n\<lparr>flow_actor := t, continuations := rest\<rparr>))"

definition run_continuations :: "node \<Rightarrow> node" where
  "run_continuations n = (run_continuation ^^ length (continuations n)) n"

text \<open>The states of a flow's actor and its clients, until the actor is restarted.\<close>

inductive awaiting :: "node \<Rightarrow> bool" where
  await_start: "fresh_actor s \<Longrightarrow> awaiting (new_node s)"
| await_message: "awaiting n \<Longrightarrow> Receive msg (flow_actor n) = Done t \<Longrightarrow> distinct ks \<Longrightarrow>
    set ks = stage_keys t \<Longrightarrow> awaiting (after_message c ks t n)"
| await_continue: "awaiting n \<Longrightarrow> awaiting (run_continuation n)"
| await_expire: "awaiting n \<Longrightarrow> awaiting (expire k n)"

section \<open>What a message tells the futures and the clients\<close>

text \<open>An effect that is not an answer to a client that waits.\<close>

fun no_await_answer :: "Effect \<Rightarrow> bool" where
  "no_await_answer (Respond (AwaitStageResultResponse f sid r)) = False"
| "no_await_answer _ = True"

definition extends :: "graphActor \<Rightarrow> graphActor \<Rightarrow> bool" where
  "extends s t \<longleftrightarrow> (\<exists>xs. outbox t = outbox s @ xs \<and> list_all no_await_answer xs)"

lemma extends_refl [simp]: "extends s s" "extends (tick s) = extends s" "extends s (next_order s)"
  by (simp_all add: extends_def fun_eq_iff tick_def next_order_def)

lemma extends_send [intro!]: "extends s t \<Longrightarrow> no_await_answer x \<Longrightarrow> extends s (send x t)"
  by (auto simp: extends_def send_def)

lemma extends_trans: "extends s t \<Longrightarrow> extends t u \<Longrightarrow> extends s u"
  by (auto simp: extends_def)

lemma extends_delay: "extends s t \<Longrightarrow> extends s (scheduleDelay f k d t)"
  by (auto simp: scheduleDelay_def Let_def extends_def send_def tick_def)

lemma background_no_answer: "background fn x \<Longrightarrow> no_await_answer x"
  by (cases x) auto

lemma quiet_extends: "quiet s t \<Longrightarrow> extends s t"
  by (auto simp: quiet_def extends_def list_all_iff intro: background_no_answer)

lemma extends_bind:
  assumes "keeps (=) quiet s r" and "\<And>u. wf_graph u \<Longrightarrow> res_done (extends u) (f u)"
  shows "res_done (extends s) (bind_res r f)"
proof (cases r)
  case (Done u)
  then have "extends s u" "res_done (extends u) (f u)"
    using assms by (auto intro: quiet_extends)
  then show ?thesis
    using Done by (cases "f u") (auto intro: extends_trans)
qed simp_all

lemma extends_keeps: "keeps (=) quiet s r \<Longrightarrow> res_done (extends s) r"
  by (cases r) (auto intro: quiet_extends)

lemma process_extends:
  assumes "wf_graph s" and "flow_inv s" and "\<not> is_CreateGraphRequest cmd"
  shows "res_done (extends s) (process_cmd cmd s)"
proof -
  have [simp]: "keeps (=) quiet s (Done s)"
    using assms(1) by simp
  show ?thesis
    using assms
    by (cases cmd)
       (auto simp: cmd_defs createExternalState_def cmd_CompleteDelayStage_def
        intro!: extends_bind quiet_rules extends_delay intro: quiet_emit_other extends_keeps [OF quiet_emit_other] split: option.splits)
qed

lemma command_extends:
  assumes "actor_inv s" and "receiveCommand cmd s = Done t"
  shows "extends s t"
proof (cases "hasGraph s")
  case True
  then have "\<not> is_CreateGraphRequest cmd \<Longrightarrow> res_done (extends s) (process_cmd cmd s)"
    using assms(1) process_extends by (simp add: actor_inv_def)
  then show ?thesis
    using assms(2) True by (cases cmd) (auto simp: receiveCommand_def validateCmd_def split: validation.splits)
next
  case False
  then show ?thesis
    using assms(2)
    by (cases cmd)
       (auto simp: receiveCommand_def validateCmd_def process_cmd_def cmd_CreateGraph_def
        actor_PersistReceive_def bind_res_eq_Done extends_def send_def tick_def split: res.splits)
qed

lemma message_extends:
  assumes inv: "actor_inv s" and t: "Receive msg s = Done t"
  shows "extends s t"
proof -
  have nr: "\<not> recovering (mixin s)"
    using inv by (simp add: actor_inv_def)
  have rec: "extends s u" if "hasGraph s" "Recover (actorListener (call_depth s)) s = Done u" for u
    using replies.keeps_Recover [of s "call_depth s"] that inv by (auto simp: actor_inv_def intro: quiet_extends)
  show ?thesis
    using t nr rec command_extends [OF inv]
    by (cases msg) (auto simp: Receive_def receiveMessage_def bind_res_eq_Done split: SysMessage.splits if_splits)
qed

text \<open>A future is told at most once, and what it was told does not change.\<close>

lemma told_result:
  assumes "actor_inv s" and "hasGraph s" and "GetStage k s = Some st"
  shows "told k s = (case result st of None \<Rightarrow> [] | Some r \<Rightarrow> [r])"
  using wf_graph_stage [of s k st] assms
  by (auto simp: told_def actor_inv_def wf_stage_def wf_result_def split: option.splits)

lemma told_cases:
  assumes "actor_inv s"
  obtains "told k s = []" | r where "told k s = [r]"
  using assms told_result [OF assms, of k]
  by (cases "hasGraph s"; cases "GetStage k s") (auto simp: told_def split: option.splits)

lemma message_evolves:
  assumes inv: "actor_inv s" and "hasGraph s" and t: "Receive msg s = Done t"
  shows "graph_evolves s t \<and> hasGraph t"
proof -
  have nr: "\<not> recovering (mixin s)" and r: "ready s" "flow_inv s" "wf_graph s"
    using inv assms(2) by (simp_all add: actor_inv_def ready_def)
  have send [simp]: "graph_evolves s (send x u) = graph_evolves s u" for x u
    by (simp flip: graph_evolves_view(2) [of s "send x u"])
  have j: "graph_evolves s u \<and> hasGraph u" if "journals P s u" for P u
    using journals_evolves [OF that r(1,2)] that r(1) by (simp add: journals_def ready_def)
  have cmd: "graph_evolves s u \<and> hasGraph u" if "receiveCommand c s = Done u" for c u
    using receiveCommand_journaled [of s c] that r assms(2) by (auto intro!: j)
  have rec: "graph_evolves s u \<and> hasGraph u" if "Recover (actorListener (call_depth s)) s = Done u" for u
    using actor.keeps_Recover [OF r(3), of "call_depth s"] that by (auto intro!: j)
  show ?thesis
    using t nr assms(2)
    by (cases msg) (auto simp: Receive_def receiveMessage_def bind_res_eq_Done dest: cmd rec split: SysMessage.splits if_splits)
qed

lemma told_grows:
  assumes "actor_inv s" and "Receive msg s = Done t"
  shows "told k s = [] \<or> told k t = told k s"
proof (cases "hasGraph s \<and> GetStage k s \<noteq> None")
  case True
  then obtain a where a: "hasGraph s" "GetStage k s = Some a"
    by blast
  note ev = message_evolves [OF assms(1) a(1) assms(2)]
  obtain b where b: "GetStage k t = Some b" "stage_evolves a b"
    using ev a(2) unfolding graph_evolves_def by blast
  show ?thesis
    using told_result [OF assms(1) a] told_result [OF message_inv [OF assms] _ b(1)] ev b(2)
    by (auto simp: stage_evolves_def split: option.splits)
qed (auto simp: told_def)

lemma told_outside: "k \<notin> stage_keys s \<Longrightarrow> told k s = []"
  by (simp add: told_def GetStage_None_iff [THEN iffD2])

section \<open>The invariant\<close>

definition await_answer :: "stage_id \<Rightarrow> client \<times> Response \<Rightarrow> bool" where
  "await_answer k cr \<longleftrightarrow> (case snd cr of AwaitStageResultResponse f sid r \<Rightarrow> sid = k | _ \<Rightarrow> False)"

definition await_answers :: "stage_id \<Rightarrow> node \<Rightarrow> (client \<times> Response) list" where
  "await_answers k n = filter (await_answer k) (answered n)"

definition awaits_of :: "stage_id \<Rightarrow> Await list \<Rightarrow> Await list" where
  "awaits_of k = filter (\<lambda>a. aStage a = k)"

definition answer_of :: "CompletionResult \<Rightarrow> Await \<Rightarrow> client \<times> Response" where
  "answer_of r a = (aSender a, AwaitStageResultResponse (aFlow a) (aStage a) r)"

text \<open>\<open>T k\<close> is what the future of stage \<open>k\<close> was told.\<close>

definition future_inv :: "stage_id \<Rightarrow> CompletionResult list \<Rightarrow> node \<Rightarrow> bool" where
  "future_inv k T n \<longleftrightarrow>
     list_all (\<lambda>a. aStage a = k) (completions (futures n k)) \<and>
     (\<not> ferr (futures n k) \<longrightarrow>
        (case T of
           [] \<Rightarrow> \<not> fdone (futures n k) \<and> awaits_of k (asked n) = completions (futures n k) \<and>
                 awaits_of k (continuations n) = [] \<and> await_answers k n = []
         | r # _ \<Rightarrow> fdone (futures n k) \<and> fresult (futures n k) = Some r \<and>
                 map (answer_of r) (awaits_of k (asked n)) =
                   await_answers k n @ map (answer_of r) (awaits_of k (continuations n))))"

definition futures_inv :: "(stage_id \<Rightarrow> CompletionResult list) \<Rightarrow> node \<Rightarrow> bool" where
  "futures_inv T n \<longleftrightarrow> (\<forall>k. future_inv k (T k) n)"

lemma awaits_of_simps [simp]:
  "awaits_of k [] = []" "awaits_of k (xs @ ys) = awaits_of k xs @ awaits_of k ys"
  "awaits_of k (a # xs) = (if aStage a = k then a # awaits_of k xs else awaits_of k xs)"
  by (simp_all add: awaits_of_def)

lemma awaits_of_other: "list_all (\<lambda>a. aStage a = j) xs \<Longrightarrow> awaits_of k xs = (if j = k then xs else [])"
  by (induction xs) (auto simp: awaits_of_def)

text \<open>The three things that can happen to the future of a stage.\<close>

lemmas future_defs = futures_inv_def future_inv_def upd_future_def await_answers_def futureProcess_Stop_def

lemma futures_inv_tell:
  assumes "futures_inv T n" and "T k = []"
  shows "futures_inv (T(k := [r])) (tell_future (k, r) n)"
  unfolding futures_inv_def
proof
  fix j
  have "future_inv j (T j) n" "future_inv k (T k) n"
    using assms(1) by (simp_all add: futures_inv_def)
  then show "future_inv j ((T(k := [r])) j) (tell_future (k, r) n)"
    using assms(2)
    by (cases "j = k")
       (auto simp: future_defs tell_future_def SendUserMessage_def awaits_of_other split: list.splits if_splits)
qed

lemma futures_inv_expire:
  assumes "futures_inv T n"
  shows "futures_inv T (expire k n)"
  unfolding futures_inv_def
proof
  fix j
  have "future_inv j (T j) n" "future_inv k (T k) n"
    using assms by (simp_all add: futures_inv_def)
  then show "future_inv j (T j) (expire k n)"
    by (cases "j = k")
       (auto simp: future_defs expire_def timer_fired_def awaits_of_other split: list.splits if_splits)
qed

lemma futures_inv_await:
  assumes "futures_inv T n"
  shows "futures_inv T (context_AwaitFuture a n)"
  unfolding futures_inv_def
proof
  fix j
  have "future_inv j (T j) n" "future_inv (aStage a) (T (aStage a)) n"
    using assms by (simp_all add: futures_inv_def)
  then show "future_inv j (T j) (context_AwaitFuture a n)"
    by (cases "j = aStage a")
       (auto simp: future_defs context_AwaitFuture_def continueWith_def awaits_of_other split: list.splits if_splits)
qed

lemma futures_inv_answered:
  assumes "futures_inv T n" and "\<And>k. \<not> await_answer k cr"
  shows "futures_inv T (n\<lparr>answered := answered n @ [cr]\<rparr>)"
  using assms by (simp add: futures_inv_def future_inv_def await_answers_def cong: list.case_cong)

lemma futures_inv_perform:
  assumes "futures_inv T n" and "no_await_answer x"
  shows "futures_inv T (perform c x n)"
proof (cases x)
  case (Respond r)
  then have "\<not> await_answer k (c, r)" for k
    using assms(2) by (cases r) (simp_all add: await_answer_def)
  then show ?thesis
    using Respond futures_inv_answered [OF assms(1)] by simp
qed (use assms(1) futures_inv_await in simp_all)

lemma futures_inv_performs:
  "list_all no_await_answer xs \<Longrightarrow> futures_inv T n \<Longrightarrow> futures_inv T (fold (perform c) xs n)"
  by (induction xs arbitrary: n) (simp_all add: futures_inv_perform)

lemma futures_inv_tells:
  assumes "futures_inv T n" and "distinct ks" and "\<And>k. k \<in> set ks \<Longrightarrow> T k = told k s"
    and "\<And>k. told k s = [] \<and> length (told k t) \<le> 1 \<or> told k t = told k s"
  shows "futures_inv (\<lambda>k. if k \<in> set ks then told k t else T k) (fold tell_future (new_tells ks s t) n)"
  using assms(1-3)
proof (induction ks arbitrary: T n)
  case Nil
  then show ?case
    by (simp add: new_tells_def)
next
  case (Cons k ks)
  let ?n = "fold tell_future (map (Pair k) (drop (length (told k s)) (told k t))) n"
  have k: "futures_inv (T(k := told k t)) ?n"
  proof (cases "told k t = told k s")
    case True
    have "T(k := told k t) = T"
      using Cons.prems(3) True by (simp add: fun_eq_iff)
    then show ?thesis
      using Cons.prems(1) True by simp
  next
    case False
    then obtain r where "told k s = []" "told k t = [r]"
      using assms(4) [of k] by (cases "told k t") auto
    then show ?thesis
      using futures_inv_tell [OF Cons.prems(1), of k r] Cons.prems(3) by simp
  qed
  have "(T(k := told k t)) j = told j s" if "j \<in> set ks" for j
    using Cons.prems(2,3) that by auto
  then have "futures_inv (\<lambda>j. if j \<in> set ks then told j t else (T(k := told k t)) j) (fold tell_future (new_tells ks s t) ?n)"
    using Cons.prems(2) by (intro Cons.IH [OF k]) simp_all
  moreover have "(\<lambda>j. if j \<in> set ks then told j t else (T(k := told k t)) j) = (\<lambda>j. if j \<in> set (k # ks) then told j t else T j)"
    by auto
  ultimately show ?case
    by (simp add: new_tells_def)
qed

text \<open>The actor's own invariant and that of the futures.\<close>

definition node_inv :: "node \<Rightarrow> bool" where
  "node_inv n \<longleftrightarrow> actor_inv (flow_actor n) \<and> futures_inv (\<lambda>k. told k (flow_actor n)) n"

lemma flow_actor_simps [simp]:
  "flow_actor (tell_future kr n) = flow_actor n" "flow_actor (expire k n) = flow_actor n"
  "flow_actor (context_AwaitFuture a n) = flow_actor n" "flow_actor (perform c x n) = flow_actor n"
  by (simp_all add: tell_future_def expire_def context_AwaitFuture_def upd_future_def)
     (cases x; simp add: context_AwaitFuture_def upd_future_def)

lemma flow_actor_folds [simp]:
  "flow_actor (fold tell_future xs n) = flow_actor n" "flow_actor (fold (perform c) ys n) = flow_actor n"
proof -
  show "flow_actor (fold tell_future xs n) = flow_actor n"
    by (induction xs arbitrary: n) simp_all
  show "flow_actor (fold (perform c) ys n) = flow_actor n"
    by (induction ys arbitrary: n) simp_all
qed

lemma futures_inv_actor [simp]: "futures_inv T (n\<lparr>flow_actor := t\<rparr>) = futures_inv T n"
  by (simp add: futures_inv_def future_inv_def await_answers_def cong: list.case_cong)

lemma node_inv_message:
  assumes "node_inv n" and t: "Receive msg (flow_actor n) = Done t" and ks: "distinct ks" "set ks = stage_keys t"
  shows "node_inv (after_message c ks t n)"
proof -
  let ?s = "flow_actor n"
  have inv: "actor_inv ?s" "actor_inv t" and fi: "futures_inv (\<lambda>k. told k ?s) n"
    using assms(1) message_inv [OF _ t] by (simp_all add: node_inv_def)
  have grow: "told k ?s = [] \<and> length (told k t) \<le> 1 \<or> told k t = told k ?s" for k
    using told_grows [OF inv(1) t, of k] by (cases rule: told_cases [OF inv(2), of k]) auto
  have "futures_inv (\<lambda>k. if k \<in> set ks then told k t else told k ?s)
      (fold tell_future (new_tells ks ?s t) (n\<lparr>flow_actor := t\<rparr>))"
    using fi by (intro futures_inv_tells ks(1) grow) simp_all
  moreover have "(\<lambda>k. if k \<in> set ks then told k t else told k ?s) = (\<lambda>k. told k t)"
    using grow told_outside [of _ t] ks(2) by (metis (no_types, lifting))
  moreover have "list_all no_await_answer (new_effects ?s t)"
    using message_extends [OF inv(1) t] by (auto simp: extends_def new_effects_def)
  ultimately show ?thesis
    using inv(2) futures_inv_performs by (simp add: node_inv_def after_message_def)
qed

text \<open>The continuation that answers a client.\<close>

lemma actor_inv_send: "actor_inv (send x s) = actor_inv s"
  by (simp add: actor_inv_def consistent_def indexed_def journal_def)

lemma told_send [simp]: "told k (send x s) = told k s"
  by (simp add: told_def)

lemma run_continuation_Cons:
  assumes "continuations n = a # rest"
  obtains r where "run_continuation n =
      n\<lparr>flow_actor := send (Respond r) (flow_actor n), continuations := rest,
        answered := answered n @ [(aSender a, r)]\<rparr>"
    and "r = (case (if ferr (futures n (aStage a)) then None else fresult (futures n (aStage a))) of
        None \<Rightarrow> ErrorResponse (NewAwaitStageError (aFlow a) (aStage a))
      | Some v \<Rightarrow> AwaitStageResultResponse (aFlow a) (aStage a) v)"
  using assms
  by (auto simp: run_continuation_def Let_def await_continuation_def new_effects_def send_def split: option.splits)

lemma futures_inv_continuation:
  assumes "futures_inv T n"
  shows "futures_inv T (run_continuation n)"
proof (cases "continuations n")
  case Nil
  then show ?thesis
    using assms by (simp add: run_continuation_def)
next
  case (Cons a rest)
  show ?thesis
    unfolding futures_inv_def
  proof
    fix k
    have "future_inv k (T k) n"
      using assms by (simp add: futures_inv_def)
    then show "future_inv k (T k) (run_continuation n)"
      using Cons
      by (cases rule: run_continuation_Cons [OF Cons]; cases "aStage a = k")
         (auto simp: future_inv_def await_answers_def await_answer_def answer_of_def split: list.splits option.splits)
  qed
qed

theorem awaiting_inv: "awaiting n \<Longrightarrow> node_inv n"
proof (induction rule: awaiting.induct)
  case (await_start s)
  then show ?case
    by (auto simp: node_inv_def new_node_def NewFuture_def futures_inv_def future_inv_def await_answers_def
        told_def fresh_actor_def intro: fresh_actor_inv)
next
  case (await_message n msg t ks c)
  then show ?case
    by (intro node_inv_message)
next
  case (await_continue n)
  have "actor_inv (flow_actor (run_continuation n)) \<and>
      (\<lambda>k. told k (flow_actor (run_continuation n))) = (\<lambda>k. told k (flow_actor n))"
  proof (cases "continuations n")
    case (Cons a rest)
    then show ?thesis
      using await_continue.IH
      by (cases rule: run_continuation_Cons [OF Cons]) (simp_all add: node_inv_def actor_inv_send)
  qed (use await_continue.IH in \<open>simp add: run_continuation_def node_inv_def\<close>)
  then show ?case
    using await_continue.IH futures_inv_continuation by (simp add: node_inv_def)
qed (simp add: node_inv_def futures_inv_expire)

section \<open>Every client that waits is answered\<close>

lemma run_continuation_simps [simp]:
  "futures (run_continuation n) = futures n" "asked (run_continuation n) = asked n"
  "continuations (run_continuation n) = tl (continuations n)"
  "told k (flow_actor (run_continuation n)) = told k (flow_actor n)"
proof -
  have "futures (run_continuation n) = futures n \<and> asked (run_continuation n) = asked n \<and>
      continuations (run_continuation n) = tl (continuations n) \<and>
      told k (flow_actor (run_continuation n)) = told k (flow_actor n)"
  proof (cases "continuations n")
    case (Cons a rest)
    then show ?thesis
      by (cases rule: run_continuation_Cons [OF Cons]) simp_all
  qed (simp add: run_continuation_def)
  then show "futures (run_continuation n) = futures n" "asked (run_continuation n) = asked n"
    "continuations (run_continuation n) = tl (continuations n)"
    "told k (flow_actor (run_continuation n)) = told k (flow_actor n)"
    by simp_all
qed

lemma run_continuations_simps:
  "awaiting n \<Longrightarrow> awaiting ((run_continuation ^^ i) n)"
  "futures ((run_continuation ^^ i) n) = futures n" "asked ((run_continuation ^^ i) n) = asked n"
  "continuations ((run_continuation ^^ i) n) = drop i (continuations n)"
  "told k (flow_actor ((run_continuation ^^ i) n)) = told k (flow_actor n)"
  by (induction i) (simp_all add: await_continue drop_Suc tl_drop)

text \<open>A flow that terminates has the results of all its main stages, and a completed flow those of all its stages.\<close>

definition phases_done :: "'a CompletionGraph_scheme \<Rightarrow> bool" where
  "phases_done g \<longleftrightarrow>
     (\<forall>k st. GetStage k g = Some st \<longrightarrow> \<not> IsResolved st \<longrightarrow>
        state g \<noteq> StateCompleted \<and> (state g = StateTerminating \<longrightarrow> execPhase st = TerminationExecPhase))"

lemma pending_none:
  assumes "length (stages g) \<le> maxStages" and "getPendingCount ph g = 0"
    and "map_of (stages g) k = Some st" and "execPhase st = ph"
  shows "IsResolved st"
proof -
  have "length (stages g) < 2 ^ 32"
    using assms(1) by (simp add: maxStages_def)
  then show ?thesis
    using assms getPendingCount_zero [of g ph] by (auto dest: map_of_SomeD)
qed

lemma phases_done_mutate:
  assumes "flow_inv g" and "legal e g" and "phases_done g"
  shows "phases_done (mutate e g)"
proof -
  have len: "length (stages g) \<le> maxStages"
    using assms(1) by (simp add: flow_inv_def)
  show ?thesis
  proof (cases e)
    case (StageAddedEvent f sid op cl deps ts loc caller)
    then have "state (mutate e g) = state g" "canModifyGraph g"
      using assms(2) state_mutate [of e g] by (simp_all add: legal_def)
    then show ?thesis
      by (auto simp: phases_done_def canModifyGraph_iff)
  next
    case (GraphTerminatingEvent f fn status ts)
    have "execPhase st = TerminationExecPhase" if "map_of (stages g) k = Some st" "\<not> IsResolved st" for k st
      using pending_none [OF len _ that(1), of MainExecPhase] that(2) assms(2) GraphTerminatingEvent
      by (cases "execPhase st") (simp_all add: legal_def)
    then show ?thesis
      by (simp add: GraphTerminatingEvent mutate_def phases_done_def GetStage_def)
  next
    case (GraphCompletedEvent f fn ts)
    have "IsResolved st" if "map_of (stages g) k = Some st" for k st
      using pending_none [OF len _ that, of TerminationExecPhase] that assms(2,3) GraphCompletedEvent
      by (auto simp: legal_def phases_done_def GetStage_def)
    then show ?thesis
      by (simp add: GraphCompletedEvent mutate_def phases_done_def GetStage_def)
  next
    case (StageComposedEvent f sid inner ts)
    then show ?thesis
      using assms(3) by (fastforce simp: mutate_def phases_done_def GetStage_upd_stage IsResolved_def split: if_splits)
  qed (use assms(2,3) in \<open>auto simp: legal_def mutate_def phases_done_def GetStage_upd_stage IsResolved_def split: option.splits if_splits\<close>)
qed

lemma phases_done_view [simp]: "phases_done (view g) = phases_done g"
  by (fastforce simp: phases_done_def GetStage_view untrigger_def IsResolved_def)

lemma flow_run_phases: "flow_run g es h \<Longrightarrow> flow_inv g \<Longrightarrow> phases_done g \<Longrightarrow> phases_done h"
proof (induction rule: flow_run.induct)
  case (run_snoc g es h e)
  then show ?case
    using flow_run_inv [OF run_snoc.hyps(1)] phases_done_mutate by (simp add: flow_step_def)
qed

lemma completed_resolved:
  assumes "actor_inv s" and "hasGraph s" and "state s = StateCompleted" and "GetStage k s = Some st"
  shows "result st \<noteq> None"
proof -
  obtain f fn es where "flow_run (graph_New f fn 0 (\<lambda>_. []) ()) es (view s)"
    using assms(1,2) by (auto simp: actor_inv_def consistent_def)
  then have "phases_done (view s)"
    using flow_run_phases flow_inv_new by (fastforce simp: phases_done_def graph_New_def GetStage_def)
  then have "phases_done s"
    by simp
  then show ?thesis
    using assms(3,4) by (auto simp: phases_done_def IsResolved_def)
qed

lemma answers_waiting:
  "map (answer_of r) (awaits_of k xs) = map (\<lambda>a. (aSender a, AwaitStageResultResponse (aFlow a) k r)) (awaits_of k xs)"
  by (auto simp: answer_of_def awaits_of_def)

text \<open>C10: Every client that waits for a stage is told its result, once. Whatever messages the actor of
  a flow has handled and however many clients have asked for whichever stages, before a stage was
  completed or after: when the actor has processed the continuations in its mailbox, the clients
  that asked for a stage have been sent nothing about it if the stage has no result, and
  otherwise exactly one answer each, in the order in which they asked, with the stage's result;
  unless the stage's own future has timed out, which takes ten thousand hours. Once the flow is
  completed all its stages have results, so nobody is left waiting.\<close>

theorem await_answered_once:
  assumes "awaiting n" and "hasGraph (flow_actor n)" and "GetStage k (flow_actor n) = Some st"
    and "\<not> ferr (futures n k)"
  shows "continuations (run_continuations n) = [] \<and>
    await_answers k (run_continuations n) =
      (case result st of
         None \<Rightarrow> []
       | Some r \<Rightarrow> map (\<lambda>a. (aSender a, AwaitStageResultResponse (aFlow a) k r)) (awaits_of k (asked n))) \<and>
    (state (flow_actor n) = StateCompleted \<longrightarrow> result st \<noteq> None)"
proof -
  let ?n = "run_continuations n"
  have "awaiting ?n" and n: "futures ?n = futures n" "asked ?n = asked n" "continuations ?n = []"
      "told k (flow_actor ?n) = told k (flow_actor n)"
    using assms(1) by (simp_all add: run_continuations_def run_continuations_simps)
  have "futures_inv (\<lambda>k. told k (flow_actor ?n)) ?n"
    using awaiting_inv [OF \<open>awaiting ?n\<close>] by (simp add: node_inv_def)
  then have "future_inv k (told k (flow_actor n)) ?n"
    unfolding futures_inv_def n(4) [symmetric] by blast
  moreover have "told k (flow_actor n) = (case result st of None \<Rightarrow> [] | Some r \<Rightarrow> [r])"
    using awaiting_inv [OF assms(1)] told_result [OF _ assms(2,3)] by (simp add: node_inv_def)
  moreover have "state (flow_actor n) = StateCompleted \<longrightarrow> result st \<noteq> None"
    using awaiting_inv [OF assms(1)] completed_resolved [OF _ assms(2) _ assms(3)] by (simp add: node_inv_def)
  ultimately show ?thesis
    using n assms(4) by (auto simp: future_inv_def answers_waiting split: option.splits)
qed

text \<open>Two clients ask for the second stage of the committed flow, one before its function has answered
  and one after.\<close>

fun receive_all :: "(client \<times> Message) list \<Rightarrow> node \<Rightarrow> node" where
  "receive_all [] n = n"
| "receive_all ((c, msg) # ms) n =
     (case Receive msg (flow_actor n) of
        Done t \<Rightarrow>
          (if distinct (map fst (stages t)) then receive_all ms (after_message c (map fst (stages t)) t n) else n)
      | _ \<Rightarrow> n)"

lemma receive_all_awaiting: "awaiting n \<Longrightarrow> awaiting (receive_all ms n)"
proof (induction ms n rule: receive_all.induct)
  case (2 c msg ms n)
  have "awaiting (after_message c (map fst (stages t)) t n)"
    if "Receive msg (flow_actor n) = Done t" "distinct (map fst (stages t))" for t
    using "2.prems" that by (rule await_message) (simp add: stage_keys_def)
  then show ?case
    using 2 by (auto split: res.splits)
qed simp

definition demo_await :: Command where
  "demo_await = AwaitStageResultRequest ''flow'' ''1'' 1000"

definition demo_node :: node where
  "demo_node =
     receive_all
       (map (Pair 0) demo_commit @
        [(1, MsgCommand demo_await),
         (0, MsgCommand (FaasInvocationResponse ''flow'' ''0'' ''app/fn'' demo_result ''call'')),
         (0, MsgCommand (FaasInvocationResponse ''flow'' ''1'' ''app/fn'' demo_result ''call'')),
         (2, MsgCommand demo_await)]) (new_node new_actor)"

lemma demo_node_state:
  "hasGraph (flow_actor demo_node)" "\<not> ferr (futures demo_node ''1'')"
  "map_option result (GetStage ''1'' (flow_actor demo_node)) = Some demo_result"
  "map aSender (awaits_of ''1'' (asked demo_node)) = [1, 2]"
  "map aFlow (awaits_of ''1'' (asked demo_node)) = [''flow'', ''flow'']"
  by code_simp+

theorem await_answered_once_witness:
  "await_answers ''1'' (run_continuations demo_node) =
     map (\<lambda>c. (c, AwaitStageResultResponse ''flow'' ''1'' (the demo_result))) [1, 2]"
proof -
  have "awaiting demo_node"
    unfolding demo_node_def by (intro receive_all_awaiting await_start new_actor_fresh)
  moreover obtain st where st: "GetStage ''1'' (flow_actor demo_node) = Some st" "result st = demo_result"
    using demo_node_state(3) by auto
  moreover obtain a b where "awaits_of ''1'' (asked demo_node) = [a, b]"
    "aSender a = 1" "aSender b = 2" "aFlow a = ''flow''" "aFlow b = ''flow''"
    using demo_node_state(4,5) by auto
  ultimately show ?thesis
    using await_answered_once [of demo_node "''1''" st] demo_node_state(1,2) by (simp add: demo_result_def)
qed

end
