(* ===== verification/Subscriptions.thy ===== *)
theory Subscriptions
  imports Event_Delivery Backoff
begin

text \<open>
  Many clients share the event stream of the streaming provider: the registry of subscriptions of the
  actor library (\<^verbatim>\<open>eventstream.go\<close>), and the subscriptions that \<^verbatim>\<open>src/persistence/streaming.go\<close> makes in it.
  A subscription takes two steps, and so events that its predicate would keep out can reach it
  in between.
\<close>

section \<open>The registry\<close>

text \<open>A subscription is a pointer, the position of its cell in \<open>cells\<close>. \<open>sub_vars\<close> are the variables that
  the callback has captured.\<close>

record ('e, 'x) Subscription =
  sub_i :: int
  sub_fn :: "'e \<Rightarrow> 'x \<Rightarrow> 'x res"
  sub_p :: "('e \<Rightarrow> bool) option"
  sub_vars :: 'x

record ('e, 'x) EventStream =
  subscriptions :: "nat list"
  cells :: "('e, 'x) Subscription list"

definition empty_stream :: "('e, 'x) EventStream" where
  "empty_stream = \<lparr>subscriptions = [], cells = []\<rparr>"

definition upd_cell ::
  "nat \<Rightarrow> (('e, 'x) Subscription \<Rightarrow> ('e, 'x) Subscription) \<Rightarrow> ('e, 'x) EventStream \<Rightarrow> ('e, 'x) EventStream" where
  "upd_cell s f es = es\<lparr>cells := (cells es)[s := f (cells es ! s)]\<rparr>"

definition Subscribe ::
  "('e \<Rightarrow> 'x \<Rightarrow> 'x res) \<Rightarrow> 'x \<Rightarrow> ('e, 'x) EventStream \<Rightarrow> nat \<times> ('e, 'x) EventStream" where
  "Subscribe fn vars es =
     (let sub = length (cells es) in
      (sub, \<lparr>subscriptions = subscriptions es @ [sub],
             cells = cells es @ [\<lparr>sub_i = int (length (subscriptions es)), sub_fn = fn, sub_p = None, sub_vars = vars\<rparr>]\<rparr>))"

definition WithPredicate :: "('e \<Rightarrow> bool) \<Rightarrow> nat \<Rightarrow> ('e, 'x) EventStream \<Rightarrow> ('e, 'x) EventStream" where
  "WithPredicate p sub = upd_cell sub (\<lambda>c. c\<lparr>sub_p := Some p\<rparr>)"

text \<open>The last subscription takes the place of the one that goes.\<close>

definition Unsubscribe :: "nat \<Rightarrow> ('e, 'x) EventStream \<Rightarrow> ('e, 'x) EventStream res" where
  "Unsubscribe sub ps =
     (let i = sub_i (cells ps ! sub); l = int (length (subscriptions ps)) - 1 in
      if i = -1 then Done ps
      else if i < 0 \<or> i > l then Panic (PanicMessage ''index out of range'') ps
      else
        let moved = subscriptions ps ! nat l;
            ps = ps\<lparr>subscriptions := (subscriptions ps)[nat i := moved]\<rparr>;
            ps = upd_cell moved (\<lambda>c. c\<lparr>sub_i := i\<rparr>) ps;
            ps = ps\<lparr>subscriptions := take (nat l) (subscriptions ps)\<rparr>
        in Done (upd_cell sub (\<lambda>c. c\<lparr>sub_i := -1\<rparr>) ps))"

text \<open>What one subscription does with an event; a panic of its callback leaves \<open>EventStream_Publish\<close>.\<close>

definition react :: "'e \<Rightarrow> ('e, 'x) Subscription \<Rightarrow> 'x res" where
  "react evt s =
     (if (case sub_p s of None \<Rightarrow> True | Some p \<Rightarrow> p evt) then sub_fn s evt (sub_vars s) else Done (sub_vars s))"

definition notify :: "'e \<Rightarrow> nat \<Rightarrow> ('e, 'x) EventStream \<Rightarrow> ('e, 'x) EventStream res" where
  "notify evt sub ps =
     (case react evt (cells ps ! sub) of
        Done v \<Rightarrow> Done (upd_cell sub (\<lambda>c. c\<lparr>sub_vars := v\<rparr>) ps)
      | Panic p v \<Rightarrow> Panic p (upd_cell sub (\<lambda>c. c\<lparr>sub_vars := v\<rparr>) ps)
      | NoFuel \<Rightarrow> NoFuel)"

definition EventStream_Publish :: "'e \<Rightarrow> ('e, 'x) EventStream \<Rightarrow> ('e, 'x) EventStream res" where
  "EventStream_Publish evt ps = fold_res (notify evt) (subscriptions ps) ps"

section \<open>The registry is a set of subscriptions\<close>

text \<open>Every registered subscription knows its place, and all others know that they have none.\<close>

definition stream_ok :: "('e, 'x) EventStream \<Rightarrow> bool" where
  "stream_ok es \<longleftrightarrow>
     distinct (subscriptions es) \<and>
     (\<forall>k < length (subscriptions es).
        subscriptions es ! k < length (cells es) \<and> sub_i (cells es ! (subscriptions es ! k)) = int k) \<and>
     (\<forall>s < length (cells es). s \<notin> set (subscriptions es) \<longrightarrow> sub_i (cells es ! s) = -1)"

abbreviation live_subs :: "('e, 'x) EventStream \<Rightarrow> nat set" where
  "live_subs es \<equiv> set (subscriptions es)"

lemma stream_ok_live: "stream_ok es \<Longrightarrow> s \<in> live_subs es \<Longrightarrow> s < length (cells es)"
  by (auto simp: stream_ok_def in_set_conv_nth)

lemma stream_ok_empty [simp]: "stream_ok empty_stream"
  by (simp add: stream_ok_def empty_stream_def)

lemma upd_cell_simps [simp]:
  "subscriptions (upd_cell s f es) = subscriptions es" "length (cells (upd_cell s f es)) = length (cells es)"
  "s < length (cells es) \<Longrightarrow> cells (upd_cell s f es) ! s = f (cells es ! s)"
  "s \<noteq> t \<Longrightarrow> cells (upd_cell s f es) ! t = cells es ! t"
  by (simp_all add: upd_cell_def)

lemma stream_ok_upd:
  assumes "stream_ok es" and "\<And>c. sub_i (f c) = sub_i c"
  shows "stream_ok (upd_cell s f es)"
proof -
  have "sub_i (cells (upd_cell s f es) ! t) = sub_i (cells es ! t)" for t
    using assms(2) by (cases "t = s"; cases "s < length (cells es)") (simp_all add: upd_cell_def list_update_beyond)
  then show ?thesis
    using assms(1) by (simp add: stream_ok_def)
qed

lemma Subscribe_ok:
  assumes "stream_ok es" and "Subscribe fn v es = (s, es')"
  shows "stream_ok es' \<and> s \<notin> live_subs es \<and> live_subs es' = insert s (live_subs es) \<and> s = length (cells es) \<and>
    (\<exists>i. cells es' = cells es @ [\<lparr>sub_i = i, sub_fn = fn, sub_p = None, sub_vars = v\<rparr>])"
  using assms stream_ok_live [OF assms(1), of "length (cells es)"]
  by (auto simp: stream_ok_def Subscribe_def Let_def nth_append less_Suc_eq)

lemma Unsubscribe_idle: "sub_i (cells es ! s) = -1 \<Longrightarrow> Unsubscribe s es = Done es"
  by (simp add: Unsubscribe_def)

lemma Unsubscribe_live:
  assumes ok: "stream_ok es" and s: "s \<in> live_subs es"
  obtains ys m i where "subscriptions es = ys @ [m]" and "i \<le> length ys" and "(ys @ [m]) ! i = s" and "sub_i (cells es ! s) = int i"
    and "Unsubscribe s es =
      Done (upd_cell s (\<lambda>c. c\<lparr>sub_i := -1\<rparr>) (upd_cell m (\<lambda>c. c\<lparr>sub_i := int i\<rparr>) (es\<lparr>subscriptions := ys[i := m]\<rparr>)))"
proof -
  obtain ys m where ys: "subscriptions es = ys @ [m]"
    using s by (cases "subscriptions es" rule: rev_cases) auto
  obtain i where i: "i < length (ys @ [m])" "(ys @ [m]) ! i = s"
    using s ys by (metis in_set_conv_nth)
  then have "sub_i (cells es ! s) = int i"
    using ok ys unfolding stream_ok_def by metis
  moreover have "take (length ys) ((ys @ [m])[i := m]) = ys[i := m]"
    using i(1) by (cases "i < length ys") (simp_all add: list_update_append list_update_beyond)
  ultimately show ?thesis
    using that [OF ys _ i(2)] i ys by (simp add: Unsubscribe_def Let_def upd_cell_def)
qed

lemma Unsubscribe_ok:
  assumes ok: "stream_ok es" and s: "s < length (cells es)"
  shows "\<exists>es'. Unsubscribe s es = Done es' \<and> stream_ok es' \<and> live_subs es' = live_subs es - {s} \<and>
    length (cells es') = length (cells es) \<and> (\<forall>t. \<exists>i. cells es' ! t = (cells es ! t)\<lparr>sub_i := i\<rparr>)"
proof (cases "s \<in> live_subs es")
  case False
  have "c = c\<lparr>sub_i := sub_i c\<rparr>" for c :: "('a, 'b) Subscription"
    by simp
  then show ?thesis
    using False ok s Unsubscribe_idle [of es s] unfolding stream_ok_def by blast
next
  case True
  from Unsubscribe_live [OF ok this] obtain ys m i where ys: "subscriptions es = ys @ [m]"
    and i: "i \<le> length ys" "(ys @ [m]) ! i = s" "sub_i (cells es ! s) = int i"
    and un: "Unsubscribe s es =
      Done (upd_cell s (\<lambda>c. c\<lparr>sub_i := -1\<rparr>) (upd_cell m (\<lambda>c. c\<lparr>sub_i := int i\<rparr>) (es\<lparr>subscriptions := ys[i := m]\<rparr>)))"
      (is "_ = Done ?es")
    by blast
  have dist: "distinct ys" "m \<notin> set ys"
    using ok ys by (auto simp: stream_ok_def)
  have at: "ys ! k < length (cells es)" "sub_i (cells es ! (ys ! k)) = int k" if "k < length ys" for k
    using ok that unfolding stream_ok_def ys by (metis length_append_singleton less_SucI nth_append)+
  have m: "m < length (cells es)"
    using stream_ok_live [OF ok, of m] ys by simp
  have live: "set (ys[i := m]) = live_subs es - {s}"
    using i(1,2) dist ys set_update_distinct [of ys i m] by (cases "i < length ys") (auto simp: nth_append list_update_beyond)
  have cells: "cells ?es ! t = (cells es ! t)\<lparr>sub_i := if t = s then -1 else if t = m then int i else sub_i (cells es ! t)\<rparr>" for t
    using s m by (cases "t = s"; cases "t = m") (simp_all add: upd_cell_def)
  have "sub_i (cells ?es ! (ys[i := m] ! k)) = int k \<and> ys[i := m] ! k < length (cells es)" if "k < length ys" for k
  proof (cases "k = i")
    case True
    then show ?thesis
      using that i(2) dist m by (auto simp: cells nth_append)
  next
    case False
    moreover have "ys ! k \<noteq> s" "ys ! k \<noteq> m"
      using False that i(1,2) dist by (auto simp: nth_append nth_eq_iff_index_eq split: if_splits)
    ultimately show ?thesis
      using at [OF that] by (simp add: cells)
  qed
  moreover have "sub_i (cells ?es ! t) = -1" if "t < length (cells es)" "t \<notin> set (ys[i := m])" for t
    using that ok live ys unfolding cells stream_ok_def by auto
  moreover have "distinct (ys[i := m])"
    using dist by (simp add: distinct_list_update)
  ultimately have "stream_ok ?es"
    unfolding stream_ok_def by simp
  moreover have "\<forall>t. \<exists>i. cells ?es ! t = (cells es ! t)\<lparr>sub_i := i\<rparr>"
    using cells by blast
  ultimately show ?thesis
    using un live by (intro exI [of _ ?es]) simp
qed

text \<open>An event reaches every registered subscription once, and no other.\<close>

definition reacts :: "'e \<Rightarrow> nat set \<Rightarrow> ('e, 'x) EventStream \<Rightarrow> ('e, 'x) EventStream \<Rightarrow> bool" where
  "reacts evt S es es' \<longleftrightarrow>
     subscriptions es' = subscriptions es \<and> length (cells es') = length (cells es) \<and>
     (\<forall>t < length (cells es).
        if t \<in> S then \<exists>v. react evt (cells es ! t) = Done v \<and> cells es' ! t = (cells es ! t)\<lparr>sub_vars := v\<rparr>
        else cells es' ! t = cells es ! t)"

lemma notify_fold:
  assumes "distinct subs" and "\<forall>s \<in> set subs. s < length (cells es) \<and> (\<exists>v. react evt (cells es ! s) = Done v)"
  shows "\<exists>es'. fold_res (notify evt) subs es = Done es' \<and> reacts evt (set subs) es es'"
  using assms
proof (induction subs arbitrary: es)
  case Nil
  then show ?case
    by (simp add: reacts_def)
next
  case (Cons s subs)
  then obtain v where v: "react evt (cells es ! s) = Done v" "s < length (cells es)" and s: "s \<notin> set subs"
    by auto
  let ?es = "upd_cell s (\<lambda>c. c\<lparr>sub_vars := v\<rparr>) es"
  have notify: "notify evt s es = Done ?es"
    using v(1) by (simp add: notify_def)
  have other: "cells ?es ! t = cells es ! t" if "t \<in> set subs" for t
    using that s by (intro upd_cell_simps(4)) auto
  then obtain es' where es': "fold_res (notify evt) subs ?es = Done es'" "reacts evt (set subs) ?es es'"
    using Cons.IH [of ?es] Cons.prems by auto
  have "reacts evt (set (s # subs)) es es'"
    unfolding reacts_def
  proof (intro conjI allI impI)
    fix t
    assume "t < length (cells es)"
    then show "if t \<in> set (s # subs) then \<exists>v. react evt (cells es ! t) = Done v \<and> cells es' ! t = (cells es ! t)\<lparr>sub_vars := v\<rparr>
        else cells es' ! t = cells es ! t"
      using es'(2) v s other [of t] upd_cell_simps(3,4) [of s] by (cases "t = s") (auto simp: reacts_def)
  qed (use es'(2) in \<open>simp_all add: reacts_def\<close>)
  then show ?case
    using es'(1) notify by auto
qed

lemma Publish_reaches:
  assumes "stream_ok es" and "\<forall>s \<in> live_subs es. \<exists>v. react evt (cells es ! s) = Done v"
  shows "\<exists>es'. EventStream_Publish evt es = Done es' \<and> stream_ok es' \<and> reacts evt (live_subs es) es es'"
proof -
  obtain es' where es': "EventStream_Publish evt es = Done es'" "reacts evt (live_subs es) es es'"
    using notify_fold [of "subscriptions es" es evt] assms stream_ok_live [OF assms(1)]
    by (auto simp: EventStream_Publish_def stream_ok_def)
  have "sub_i (cells es' ! t) = sub_i (cells es ! t)" if "t < length (cells es)" for t
    using es'(2) that by (force simp: reacts_def split: if_splits)
  then have "stream_ok es'"
    using assms(1) es'(2) unfolding stream_ok_def reacts_def by metis
  then show ?thesis
    using es' by blast
qed

section \<open>The clients of the streaming provider\<close>

definition UnsubscribeStream :: "nat \<Rightarrow> ('e, 'x) EventStream \<Rightarrow> ('e, 'x) EventStream res" where
  "UnsubscribeStream sub es = Unsubscribe sub es"

text \<open>The callback of \<^verbatim>\<open>SubscribeActorJournal\<close> keeps or passes on whatever it is called with; only the
  predicate looks at the actor. The callback of \<^verbatim>\<open>StreamLifecycle\<close> asserts that the event is a lifecycle
  event.\<close>

definition sub_callback :: "'m StreamEvent \<Rightarrow> 'm bufferedSub \<Rightarrow> 'm bufferedSub" where
  "sub_callback e b =
     (if sub_committed b
      then (if EventIndex e > highestIndex b then b\<lparr>delivered := delivered b @ [e]\<rparr> else b)
      else b\<lparr>bufferedEvents := bufferedEvents b @ [e]\<rparr>)"

lemma sub_publish_callback: "sub_publish name from e b = (if sub_predicate name from e then sub_callback e b else b)"
  by (simp add: sub_publish_def sub_callback_def)

definition lc_callback :: "Event StreamEvent \<Rightarrow> lifecycle_stream \<Rightarrow> lifecycle_stream res" where
  "lc_callback event st =
     (case toGraphLifecycleEvent (EventIndex event) (StreamedEvent event) of
        None \<Rightarrow> Panic BadTypeAssertion st
      | Some msg \<Rightarrow> Done (if length (lcChan st) < eventBufferSize then st\<lparr>lcChan := lcChan st @ [msg]\<rparr> else st))"

lemma lc_publish_callback: "isGraphLifecycleEvent e \<Longrightarrow> lc_callback e st = Done (lc_publish e st)"
  by (auto simp: isGraphLifecycleEvent_def lc_callback_def lc_publish_def)

datatype client =
    JournalClient (client_actor: string) (client_from: int) (client_sub: "Event bufferedSub")
  | LifecycleClient lifecycle_stream

fun client_callback :: "Event StreamEvent \<Rightarrow> client \<Rightarrow> client res" where
  "client_callback e (JournalClient name from b) = Done (JournalClient name from (sub_callback e b))"
| "client_callback e (LifecycleClient st) =
     (case lc_callback e st of
        Done st \<Rightarrow> Done (LifecycleClient st)
      | Panic p st \<Rightarrow> Panic p (LifecycleClient st)
      | NoFuel \<Rightarrow> NoFuel)"

fun client_predicate :: "client \<Rightarrow> Event StreamEvent \<Rightarrow> bool" where
  "client_predicate (JournalClient name from b) = sub_predicate name from"
| "client_predicate (LifecycleClient st) = isGraphLifecycleEvent"

type_synonym client_stream = "(Event StreamEvent, client) EventStream"

text \<open>The steps of the goroutines that use the stream, in the order in which they happen: both steps of a
  subscription, the read of the journal and its end, the loop of a lifecycle stream, the end of
  a subscription, and what other actors persist. A journal subscription is handed to the caller, who ends it, when
  it has committed.\<close>

datatype stream_action =
    SubscribeClient client
  | FilterClient nat
  | ReadJournal nat
  | CommitJournal nat
  | LifecycleLoop nat lifecycle_action
  | EndClient nat
  | Persisted "Event StreamEvent"

definition new_client :: "client \<Rightarrow> bool" where
  "new_client c \<longleftrightarrow>
     (case c of
        JournalClient name from b \<Rightarrow> b = new_sub (unread b)
      | LifecycleClient st \<Rightarrow> st = new_lifecycle_stream)"

definition upd_client :: "nat \<Rightarrow> client \<Rightarrow> client_stream \<Rightarrow> client_stream" where
  "upd_client s v = upd_cell s (\<lambda>c. c\<lparr>sub_vars := v\<rparr>)"

fun res_state :: "'s res \<Rightarrow> 's option" where
  "res_state (Done s) = Some s"
| "res_state (Panic p s) = Some s"
| "res_state NoFuel = None"

definition client_at :: "nat \<Rightarrow> client_stream \<Rightarrow> client option" where
  "client_at s es = (if s < length (cells es) then Some (sub_vars (cells es ! s)) else None)"

definition filtered :: "nat \<Rightarrow> client_stream \<Rightarrow> bool" where
  "filtered s es \<longleftrightarrow> s < length (cells es) \<and> sub_p (cells es ! s) \<noteq> None"

fun stream_step :: "stream_action \<Rightarrow> client_stream \<Rightarrow> client_stream option" where
  "stream_step (SubscribeClient c) es =
     (if new_client c then Some (snd (Subscribe client_callback c es)) else None)"
| "stream_step (FilterClient s) es =
     (if s < length (cells es) \<and> \<not> filtered s es
      then Some (WithPredicate (client_predicate (sub_vars (cells es ! s))) s es) else None)"
| "stream_step (ReadJournal s) es =
     (case client_at s es of
        Some (JournalClient name from b) \<Rightarrow>
          if filtered s es \<and> \<not> sub_committed b \<and> unread b \<noteq> []
          then Some (upd_client s (JournalClient name from (sub_read name from b)) es) else None
      | _ \<Rightarrow> None)"
| "stream_step (CommitJournal s) es =
     (case client_at s es of
        Some (JournalClient name from b) \<Rightarrow>
          if filtered s es \<and> \<not> sub_committed b \<and> unread b = []
          then Some (upd_client s (JournalClient name from (sub_commit b)) es) else None
      | _ \<Rightarrow> None)"
| "stream_step (LifecycleLoop s a) es =
     (case client_at s es of
        Some (LifecycleClient st) \<Rightarrow>
          if filtered s es \<and> (\<forall>e. a \<noteq> LcPublish e)
          then map_option (\<lambda>st. upd_client s (LifecycleClient st) es) (StreamLifecycle_step a st) else None
      | _ \<Rightarrow> None)"
| "stream_step (EndClient s) es =
     (case client_at s es of
        Some (JournalClient name from b) \<Rightarrow> if sub_committed b then res_state (UnsubscribeStream s es) else None
      | Some (LifecycleClient st) \<Rightarrow> if filtered s es then res_state (UnsubscribeStream s es) else None
      | None \<Rightarrow> None)"
| "stream_step (Persisted e) es = res_state (EventStream_Publish e es)"

fun stream_run :: "stream_action list \<Rightarrow> client_stream \<Rightarrow> client_stream option" where
  "stream_run [] es = Some es"
| "stream_run (a # as) es = Option.bind (stream_step a es) (stream_run as)"

section \<open>Filtered subscriptions do not disturb each other\<close>

definition client_ok :: "(Event StreamEvent, client) Subscription \<Rightarrow> bool" where
  "client_ok c \<longleftrightarrow> sub_fn c = client_callback \<and> (sub_p c = None \<or> sub_p c = Some (client_predicate (sub_vars c)))"

definition clients_ok :: "client_stream \<Rightarrow> bool" where
  "clients_ok es \<longleftrightarrow> stream_ok es \<and> (\<forall>s < length (cells es). client_ok (cells es ! s))"

fun client_publish :: "Event StreamEvent \<Rightarrow> client \<Rightarrow> client" where
  "client_publish e (JournalClient name from b) = JournalClient name from (sub_publish name from e b)"
| "client_publish e (LifecycleClient st) = LifecycleClient (lc_publish e st)"

lemma client_publish_predicate [simp]: "client_predicate (client_publish e c) = client_predicate c"
  by (cases c) simp_all

lemma react_client:
  assumes "client_ok c" and "sub_p c \<noteq> None"
  shows "react e c = Done (client_publish e (sub_vars c))"
  using assms lc_publish_callback [of e]
  by (cases "sub_vars c") (auto simp: client_ok_def react_def sub_publish_callback lc_publish_def)

lemma client_ok_index [simp]: "client_ok (c\<lparr>sub_i := i\<rparr>) = client_ok c"
  by (simp add: client_ok_def)

lemma publish_clients:
  assumes ok: "clients_ok es" and "\<forall>s \<in> live_subs es. filtered s es"
  shows "\<exists>es'. EventStream_Publish e es = Done es' \<and> clients_ok es' \<and> length (cells es') = length (cells es) \<and>
    (\<forall>s < length (cells es). cells es' ! s =
       (if s \<in> live_subs es then (cells es ! s)\<lparr>sub_vars := client_publish e (sub_vars (cells es ! s))\<rparr> else cells es ! s))"
proof -
  have react: "react e (cells es ! s) = Done (client_publish e (sub_vars (cells es ! s)))" if "s \<in> live_subs es" for s
    using assms that by (intro react_client) (auto simp: clients_ok_def filtered_def)
  then obtain es' where es': "EventStream_Publish e es = Done es'" "stream_ok es'" "reacts e (live_subs es) es es'"
    using Publish_reaches [of es e] ok by (auto simp: clients_ok_def)
  then have cells: "cells es' ! s =
      (if s \<in> live_subs es then (cells es ! s)\<lparr>sub_vars := client_publish e (sub_vars (cells es ! s))\<rparr> else cells es ! s)"
    if "s < length (cells es)" for s
    using that react [of s] by (auto simp: reacts_def split: if_splits)
  moreover have "client_ok (cells es' ! s)" if "s < length (cells es)" for s
    using cells [OF that] ok that by (auto simp: clients_ok_def client_ok_def)
  ultimately show ?thesis
    using es' by (auto simp: clients_ok_def reacts_def)
qed

lemma upd_client_ok:
  assumes "clients_ok es" and "client_predicate v = client_predicate (sub_vars (cells es ! s))"
  shows "clients_ok (upd_client s v es)"
proof -
  have "client_ok (cells (upd_client s v es) ! t)" if "t < length (cells es)" for t
    using assms that by (cases "t = s") (auto simp: clients_ok_def client_ok_def upd_client_def)
  then show ?thesis
    using assms(1) by (simp add: clients_ok_def upd_client_def stream_ok_upd)
qed

lemma client_at_upd [simp]:
  "client_at s es = Some c \<Longrightarrow> client_at t (upd_client s v es) = (if t = s then Some v else client_at t es)"
  "filtered t (upd_client s v es) = filtered t es"
  by (cases "t = s"; auto simp: client_at_def upd_client_def filtered_def upd_cell_def nth_list_update split: if_splits)+

text \<open>What the subscription \<open>s\<close> does in a run, as actions of the model of one subscription.\<close>

fun seen1 :: "nat \<Rightarrow> stream_action \<Rightarrow> client_stream \<Rightarrow> Event sub_action list" where
  "seen1 s (Persisted e) es = (if s \<in> live_subs es then [Publish e] else [])"
| "seen1 s (ReadJournal t) es = (if t = s then [ReadRow] else [])"
| "seen1 s (CommitJournal t) es = (if t = s then [Commit] else [])"
| "seen1 s _ es = []"

fun seen :: "nat \<Rightarrow> stream_action list \<Rightarrow> client_stream \<Rightarrow> Event sub_action list" where
  "seen s [] es = []"
| "seen s (a # as) es =
     seen1 s a es @ (case stream_step a es of None \<Rightarrow> [] | Some es' \<Rightarrow> seen s as es')"

text \<open>No event is published between the two steps of a subscription.\<close>

fun quiet :: "stream_action list \<Rightarrow> client_stream \<Rightarrow> bool" where
  "quiet [] es \<longleftrightarrow> True"
| "quiet (a # as) es \<longleftrightarrow>
     ((\<exists>e. a = Persisted e) \<longrightarrow> (\<forall>s \<in> live_subs es. filtered s es)) \<and>
     (case stream_step a es of None \<Rightarrow> True | Some es' \<Rightarrow> quiet as es')"

lemma unsubscribe_step:
  "stream_step (EndClient s) es = Some es' \<Longrightarrow> s < length (cells es) \<and> res_state (Unsubscribe s es) = Some es'"
  by (auto simp: client_at_def UnsubscribeStream_def split: if_splits client.splits)

lemma stream_step_ok:
  assumes ok: "clients_ok es" and step: "stream_step a es = Some es'"
    and q: "(\<exists>e. a = Persisted e) \<longrightarrow> (\<forall>s \<in> live_subs es. filtered s es)"
  shows "clients_ok es'"
proof (cases a)
  case (SubscribeClient c)
  then obtain s where "Subscribe client_callback c es = (s, es')"
    using step by (auto split: if_splits) (metis prod.collapse)
  moreover have "client_ok \<lparr>sub_i = i, sub_fn = client_callback, sub_p = None, sub_vars = c\<rparr>" for i
    by (simp add: client_ok_def)
  ultimately show ?thesis
    using Subscribe_ok [of es client_callback c s es'] ok by (auto simp: clients_ok_def nth_append less_Suc_eq)
next
  case (FilterClient s)
  have "client_ok (cells (WithPredicate (client_predicate (sub_vars (cells es ! s))) s es) ! t)" if "t < length (cells es)" for t
    using ok that by (cases "t = s") (auto simp: clients_ok_def client_ok_def WithPredicate_def)
  then show ?thesis
    using FilterClient step ok by (auto simp: clients_ok_def WithPredicate_def stream_ok_upd split: if_splits)
next
  case (EndClient s)
  then have "stream_step (EndClient s) es = Some es'"
    using step by simp
  note un = unsubscribe_step [OF this]
  show ?thesis
    using un Unsubscribe_ok [of es s] ok by (auto simp: clients_ok_def) (metis client_ok_index)
next
  case (Persisted e)
  then show ?thesis
    using publish_clients [OF ok, of e] q step by auto
qed (use ok step in \<open>auto simp: client_at_def intro!: upd_client_ok split: if_splits client.splits\<close>)

lemma client_step:
  assumes ok: "clients_ok es" and step: "stream_step a es = Some es'"
    and q: "(\<exists>e. a = Persisted e) \<longrightarrow> (\<forall>s \<in> live_subs es. filtered s es)"
    and s: "client_at s es = Some (JournalClient name from b)" "filtered s es"
  shows "filtered s es' \<and> (\<exists>b'. client_at s es' = Some (JournalClient name from b') \<and>
    (\<forall>rows acts. subscribes name from rows acts b \<longrightarrow> subscribes name from rows (acts @ seen1 s a es) b'))"
proof (cases a)
  case (SubscribeClient c)
  then obtain t where "Subscribe client_callback c es = (t, es')"
    using step by (auto split: if_splits) (metis prod.collapse)
  then show ?thesis
    using Subscribe_ok [of es client_callback c t es'] ok s SubscribeClient
    by (auto simp: clients_ok_def client_at_def filtered_def nth_append split: if_splits)
next
  case (FilterClient t)
  then have "t \<noteq> s" and "es' = WithPredicate (client_predicate (sub_vars (cells es ! t))) t es"
    using step s(2) by (auto split: if_splits)
  then show ?thesis
    using FilterClient s by (auto simp: client_at_def filtered_def WithPredicate_def split: if_splits)
next
  case (EndClient t)
  then have "stream_step (EndClient t) es = Some es'"
    using step by simp
  note un = unsubscribe_step [OF this]
  obtain i where "cells es' ! s = (cells es ! s)\<lparr>sub_i := i\<rparr>" and "length (cells es') = length (cells es)"
    using un Unsubscribe_ok [of es t] ok by (auto simp: clients_ok_def) blast
  then show ?thesis
    using EndClient s by (auto simp: client_at_def filtered_def split: if_splits)
next
  case (Persisted e)
  then have "\<forall>s \<in> live_subs es. filtered s es"
    using q by blast
  then show ?thesis
    using publish_clients [OF ok, of e] step s Persisted subscribes.sub_publishes [of name "from" _ _ b e]
    by (auto simp: client_at_def filtered_def split: if_splits)
next
  case (ReadJournal t)
  then show ?thesis
    using step s subscribes.sub_reads [of name "from" _ _ b] by (auto split: option.splits client.splits if_splits)
next
  case (CommitJournal t)
  then show ?thesis
    using step s subscribes.sub_commits [of name "from" _ _ b] by (auto split: option.splits client.splits if_splits)
next
  case (LifecycleLoop t l)
  then show ?thesis
    using step s by (auto split: option.splits client.splits if_splits)
qed

lemma client_run:
  assumes "clients_ok es" and "stream_run as es = Some es'" and "quiet as es"
    and "client_at s es = Some (JournalClient name from b)" and "filtered s es" and "subscribes name from rows acts b"
  shows "\<exists>b'. client_at s es' = Some (JournalClient name from b') \<and> subscribes name from rows (acts @ seen s as es) b'"
  using assms
proof (induction as arbitrary: es b acts)
  case Nil
  then show ?case
    by auto
next
  case (Cons a as)
  then obtain es1 where step: "stream_step a es = Some es1" and run: "stream_run as es1 = Some es'" and q: "quiet as es1"
      "(\<exists>e. a = Persisted e) \<longrightarrow> (\<forall>s \<in> live_subs es. filtered s es)"
    by (auto split: option.splits simp: bind_eq_Some_conv)
  obtain b1 where b1: "filtered s es1" "client_at s es1 = Some (JournalClient name from b1)"
      "subscribes name from rows (acts @ seen1 s a es) b1"
    using client_step [OF Cons.prems(1) step q(2) Cons.prems(4,5)] Cons.prems(6) by blast
  then show ?case
    using Cons.IH [OF stream_step_ok [OF Cons.prems(1) step q(2)] run q(1) b1(2,1,3)] step by simp
qed

fun persisted :: "stream_action list \<Rightarrow> Event StreamEvent list" where
  "persisted [] = []"
| "persisted (Persisted e # as) = e # persisted as"
| "persisted (_ # as) = persisted as"

lemma live_step:
  assumes ok: "clients_ok es" and step: "stream_step a es = Some es'"
    and q: "(\<exists>e. a = Persisted e) \<longrightarrow> (\<forall>s \<in> live_subs es. filtered s es)"
    and s: "s \<in> live_subs es" and "a \<noteq> EndClient s"
  shows "s \<in> live_subs es'"
proof (cases a)
  case (EndClient t)
  then have "stream_step (EndClient t) es = Some es'"
    using step by simp
  note un = unsubscribe_step [OF this]
  show ?thesis
    using un Unsubscribe_ok [of es t] ok s assms(5) EndClient by (auto simp: clients_ok_def)
next
  case (Persisted e)
  have "\<forall>s \<in> live_subs es. \<exists>v. react e (cells es ! s) = Done v"
  proof
    fix s
    assume "s \<in> live_subs es"
    then have "client_ok (cells es ! s)" "sub_p (cells es ! s) \<noteq> None"
      using q Persisted ok by (auto simp: clients_ok_def filtered_def)
    then show "\<exists>v. react e (cells es ! s) = Done v"
      using react_client by blast
  qed
  then show ?thesis
    using Publish_reaches [of es e] ok s step Persisted by (auto simp: clients_ok_def reacts_def)
qed (use step s in \<open>auto simp: Subscribe_def Let_def WithPredicate_def upd_client_def split: option.splits client.splits if_splits\<close>)

lemma seen_persisted:
  assumes "clients_ok es" and "stream_run as es = Some es'" and "quiet as es" and "s \<in> live_subs es"
    and "EndClient s \<notin> set as"
  shows "publishes (seen s as es) = persisted as \<and> (Commit \<in> set (seen s as es) \<longleftrightarrow> CommitJournal s \<in> set as)"
  using assms
proof (induction as arbitrary: es)
  case (Cons a as)
  then obtain es1 where step: "stream_step a es = Some es1" and run: "stream_run as es1 = Some es'" and q: "quiet as es1"
      "(\<exists>e. a = Persisted e) \<longrightarrow> (\<forall>s \<in> live_subs es. filtered s es)"
    by (auto split: option.splits simp: bind_eq_Some_conv)
  have "s \<in> live_subs es1"
    using live_step [OF Cons.prems(1) step q(2) Cons.prems(4)] Cons.prems(5) by auto
  then have "publishes (seen s as es1) = persisted as \<and> (Commit \<in> set (seen s as es1) \<longleftrightarrow> CommitJournal s \<in> set as)"
    using Cons.IH [OF stream_step_ok [OF Cons.prems(1) step q(2)] run q(1)] Cons.prems(5) by simp
  then show ?case
    using step Cons.prems(4) by (cases a) auto
qed simp

lemma clients_ok_empty: "clients_ok empty_stream"
  by (simp add: clients_ok_def) (simp add: empty_stream_def)

lemma stream_run_ok: "clients_ok es \<Longrightarrow> stream_run as es = Some es' \<Longrightarrow> quiet as es \<Longrightarrow> clients_ok es'"
  by (induction as arbitrary: es) (auto simp: bind_eq_Some_conv intro: stream_step_ok split: option.splits)

text \<open>The two steps of a subscription need not follow each other: other goroutines may take theirs in between. As
  no event is published meanwhile, the subscription is unchanged when it gets its predicate.\<close>

lemma unfiltered_step:
  assumes ok: "clients_ok es" and step: "stream_step a es = Some es'"
    and q: "(\<exists>e. a = Persisted e) \<longrightarrow> (\<forall>s \<in> live_subs es. filtered s es)"
    and s: "client_at s es = Some (JournalClient name from (new_sub rows))" "\<not> filtered s es" "s \<in> live_subs es"
    and "a \<noteq> FilterClient s"
  shows "persisted (a # as) = persisted as \<and> a \<noteq> CommitJournal s \<and> s \<in> live_subs es' \<and> \<not> filtered s es' \<and>
    client_at s es' = Some (JournalClient name from (new_sub rows))"
proof -
  have "a \<noteq> EndClient s" and commit: "a \<noteq> CommitJournal s"
    using step s(1,2) by (auto simp: new_sub_def)
  then have live: "s \<in> live_subs es'"
    using live_step [OF ok step q s(3)] by blast
  show ?thesis
  proof (cases a)
    case (SubscribeClient c)
    then obtain t where "Subscribe client_callback c es = (t, es')"
      using step by (auto split: if_splits) (metis prod.collapse)
    then show ?thesis
      using Subscribe_ok [of es client_callback c t es'] ok s live SubscribeClient
      by (auto simp: clients_ok_def client_at_def filtered_def nth_append split: if_splits)
  next
    case (EndClient t)
    then have "stream_step (EndClient t) es = Some es'"
      using step by simp
    note un = unsubscribe_step [OF this]
    obtain i where "cells es' ! s = (cells es ! s)\<lparr>sub_i := i\<rparr>" and "length (cells es') = length (cells es)"
      using un Unsubscribe_ok [of es t] ok by (auto simp: clients_ok_def) blast
    then show ?thesis
      using EndClient s live by (auto simp: client_at_def filtered_def split: if_splits)
  next
    case (FilterClient t)
    then have "t \<noteq> s" and "es' = WithPredicate (client_predicate (sub_vars (cells es ! t))) t es"
      using step assms(7) by (auto split: if_splits)
    then show ?thesis
      using FilterClient s by (auto simp: client_at_def filtered_def WithPredicate_def split: if_splits)
  qed (use q step s live commit in \<open>auto split: option.splits client.splits if_splits\<close>)
qed

lemma unfiltered_run:
  assumes "clients_ok es" and "stream_run as es = Some es'" and "quiet as es"
    and "client_at s es = Some (JournalClient name from (new_sub rows))" "\<not> filtered s es" "s \<in> live_subs es"
    and "CommitJournal s \<in> set as"
  shows "\<exists>mid rest es1. as = mid @ FilterClient s # rest \<and> persisted as = persisted rest \<and> CommitJournal s \<in> set rest \<and>
    stream_run (FilterClient s # rest) es1 = Some es' \<and> quiet (FilterClient s # rest) es1 \<and> clients_ok es1 \<and>
    client_at s es1 = Some (JournalClient name from (new_sub rows)) \<and> \<not> filtered s es1 \<and> s \<in> live_subs es1"
  using assms
proof (induction as arbitrary: es)
  case (Cons a as)
  then obtain es1 where step: "stream_step a es = Some es1" and run: "stream_run as es1 = Some es'" and q: "quiet as es1"
      "(\<exists>e. a = Persisted e) \<longrightarrow> (\<forall>s \<in> live_subs es. filtered s es)"
    by (auto split: option.splits simp: bind_eq_Some_conv)
  show ?case
  proof (cases "a = FilterClient s")
    case True
    then show ?thesis
      using Cons.prems by (intro exI [of _ "[]"] exI [of _ as] exI [of _ es]) auto
  next
    case False
    note u = unfiltered_step [OF Cons.prems(1) step q(2) Cons.prems(4,5,6) False, of as]
    then have "CommitJournal s \<in> set as"
      using Cons.prems(7) by auto
    then obtain mid rest es2 where "as = mid @ FilterClient s # rest" and r: "persisted as = persisted rest \<and> CommitJournal s \<in> set rest \<and>
        stream_run (FilterClient s # rest) es2 = Some es' \<and> quiet (FilterClient s # rest) es2 \<and> clients_ok es2 \<and>
        client_at s es2 = Some (JournalClient name from (new_sub rows)) \<and> \<not> filtered s es2 \<and> s \<in> live_subs es2"
      using Cons.IH [OF stream_step_ok [OF Cons.prems(1) step q(2)] run q(1)] u by blast
    then have "a # as = (a # mid) @ FilterClient s # rest"
      by simp
    then show ?thesis
      using r u by metis
  qed
qed simp

lemma filtered_run:
  assumes ok: "clients_ok es" and "stream_run (FilterClient s # as) es = Some es'" and "quiet (FilterClient s # as) es"
    and c: "client_at s es = Some (JournalClient name from (new_sub rows))" "\<not> filtered s es" "s \<in> live_subs es"
    and "CommitJournal s \<in> set as" and "EndClient s \<notin> set as"
  shows "\<exists>b early late. client_at s es' = Some (JournalClient name from b) \<and> persisted as = early @ late \<and>
    delivered b = map (stream_event name) rows @ filter (sub_predicate name from) early @
      filter (\<lambda>e. sub_predicate name from e \<and> EventIndex e > (if rows = [] then -1 else from)) late"
proof -
  let ?c = "JournalClient name from (new_sub rows)"
  let ?es = "WithPredicate (sub_predicate name from) s es"
  have step: "stream_step (FilterClient s) es = Some ?es"
    using c by (auto simp: client_at_def split: if_splits)
  then have run: "stream_run as ?es = Some es'" and q: "quiet as ?es"
    using assms(2,3) by (simp_all del: stream_step.simps)
  have ok2: "clients_ok ?es"
    using stream_step_ok [OF ok step] by simp
  have c2: "client_at s ?es = Some ?c" "filtered s ?es" "s \<in> live_subs ?es"
    using c by (auto simp: client_at_def filtered_def WithPredicate_def split: if_splits)
  obtain b where b: "client_at s es' = Some (JournalClient name from b)" "subscribes name from rows (seen s as ?es) b"
    using client_run [OF ok2 run q c2(1,2) subscribes.sub_start [of name "from" rows]] by auto
  have seen: "publishes (seen s as ?es) = persisted as" "Commit \<in> set (seen s as ?es)"
    using seen_persisted [OF ok2 run q c2(3) assms(8)] assms(7) by simp_all
  show ?thesis
    using b(1) delivered_committed [OF b(2) seen(2)] unfolding seen(1) by metis
qed

text \<open>C24: Subscriptions to the journals of different flows do not disturb each other. Take any state that the
  shared event stream reaches, and let a client subscribe to an actor's journal from an index on while other
  clients subscribe and unsubscribe, actors persist events and the client's own journal is read, in any order,
  also between the two steps of the subscription. Suppose that no event is persisted while a registered
  subscription has no predicate yet, and that the stored events that are read, if there are any, start at the
  index of the subscription. Then once the subscription has committed its client has received first the stored events, in
  their order, only events of that actor, and every event of the actor at the index or a later one that was
  persisted since and is not at an index of the stored ones.\<close>

theorem subscriptions_isolated:
  assumes "stream_run before empty_stream = Some es" and "quiet before empty_stream" and "s = length (cells es)"
    and "stream_run (SubscribeClient (JournalClient name from (new_sub rows)) # as) es = Some es'"
    and "quiet (SubscribeClient (JournalClient name from (new_sub rows)) # as) es"
    and "CommitJournal s \<in> set as" and "EndClient s \<notin> set as"
    and "rows \<noteq> [] \<Longrightarrow> 0 \<le> from \<Longrightarrow> from \<in> fst ` set rows"
  shows "\<exists>b. client_at s es' = Some (JournalClient name from b) \<and>
    prefix (map (stream_event name) rows) (delivered b) \<and>
    (\<forall>e \<in> set (delivered b). ActorName e = name) \<and>
    (\<forall>e \<in> set (persisted as). ActorName e = name \<longrightarrow> EventIndex e \<ge> from \<longrightarrow> EventIndex e \<ge> 0 \<longrightarrow>
       EventIndex e \<notin> fst ` set rows \<longrightarrow> e \<in> set (delivered b))"
proof -
  have ok: "clients_ok es"
    using stream_run_ok [OF clients_ok_empty assms(1,2)] .
  let ?c = "JournalClient name from (new_sub rows)"
  obtain es1 where es1: "Subscribe client_callback ?c es = (s, es1)"
    using assms(3) by (cases "Subscribe client_callback ?c es") (auto simp: Subscribe_def Let_def)
  have 1: "stream_step (SubscribeClient ?c) es = Some es1"
    using es1 by (simp add: new_client_def new_sub_def)
  have run: "stream_run as es1 = Some es'" and q: "quiet as es1"
    using assms(4,5) 1 by (simp_all del: stream_step.simps)
  have c: "client_at s es1 = Some ?c" "\<not> filtered s es1" "s \<in> live_subs es1"
    using Subscribe_ok [of es client_callback ?c s es1] es1 ok by (auto simp: clients_ok_def client_at_def filtered_def)
  obtain mid rest es2 where r: "as = mid @ FilterClient s # rest" "persisted as = persisted rest" "CommitJournal s \<in> set rest"
      "stream_run (FilterClient s # rest) es2 = Some es'" "quiet (FilterClient s # rest) es2" "clients_ok es2"
      "client_at s es2 = Some ?c" "\<not> filtered s es2" "s \<in> live_subs es2"
    using unfiltered_run [OF stream_step_ok [OF ok 1] run q c assms(6)] by auto
  have "EndClient s \<notin> set rest"
    using assms(7) r(1) by simp
  then obtain b early late where b: "client_at s es' = Some (JournalClient name from b)" and el: "persisted as = early @ late"
    "delivered b = map (stream_event name) rows @ filter (sub_predicate name from) early @
      filter (\<lambda>e. sub_predicate name from e \<and> EventIndex e > (if rows = [] then -1 else from)) late"
    using filtered_run [OF r(6,4,5,7,8,9,3)] r(2) by metis
  have "e \<in> set (delivered b)" if "e \<in> set (persisted as)" "ActorName e = name" "EventIndex e \<ge> from" "EventIndex e \<ge> 0"
      "EventIndex e \<notin> fst ` set rows" for e
  proof -
    have "EventIndex e > (if rows = [] then -1 else from)"
      using that assms(8) by (cases "EventIndex e = from") auto
    then show ?thesis
      using that(1,2,3) unfolding el by (auto simp: sub_predicate_def)
  qed
  moreover have "\<forall>e \<in> set (delivered b). ActorName e = name" "prefix (map (stream_event name) rows) (delivered b)"
    unfolding el(2) by (auto simp: sub_predicate_def stream_event_def)
  ultimately show ?thesis
    using b by blast
qed

section \<open>Between the two steps\<close>

text \<open>The provider stores an event and then publishes it, in the goroutine of the actor that persists it.\<close>

definition stream_PersistEvent ::
  "(string \<Rightarrow> int \<Rightarrow> Event \<Rightarrow> 's \<Rightarrow> 's res) \<Rightarrow> string \<Rightarrow> int \<Rightarrow> Event \<Rightarrow> 's \<times> client_stream \<Rightarrow> ('s \<times> client_stream) res" where
  "stream_PersistEvent persist actorName idx event m =
     (case persist actorName idx event (fst m) of
        Done w \<Rightarrow>
          (case EventStream_Publish (stream_event actorName (idx, event)) (snd m) of
             Done es \<Rightarrow> Done (w, es)
           | Panic p es \<Rightarrow> Panic p (w, es)
           | NoFuel \<Rightarrow> NoFuel)
      | Panic p w \<Rightarrow> Panic p (w, snd m)
      | NoFuel \<Rightarrow> NoFuel)"

lemma react_panics:
  assumes "client_ok c"
  shows "react e c \<noteq> NoFuel \<and> (react e c = Panic p v \<longrightarrow> p = BadTypeAssertion)"
  using assms
  by (cases "sub_vars c")
     (auto simp: client_ok_def react_def lc_callback_def split: option.splits if_splits)

lemma notify_panics:
  assumes "\<forall>s \<in> set subs. s < length (cells es) \<and> client_ok (cells es ! s)" and "distinct subs"
    and "t \<in> set subs" and "react e (cells es ! t) = Panic p v"
  shows "\<exists>es'. fold_res (notify e) subs es = Panic BadTypeAssertion es'"
  using assms
proof (induction subs arbitrary: es)
  case (Cons s subs)
  show ?case
  proof (cases "react e (cells es ! s)")
    case (Done w)
    let ?es = "upd_cell s (\<lambda>c. c\<lparr>sub_vars := w\<rparr>) es"
    have "t \<in> set subs" and other: "\<And>u. u \<in> set subs \<Longrightarrow> cells ?es ! u = cells es ! u"
      using Done Cons.prems by auto (metis upd_cell_simps(4))
    then have "\<exists>es'. fold_res (notify e) subs ?es = Panic BadTypeAssertion es'"
      using Cons.IH [of ?es] Cons.prems by auto
    then show ?thesis
      using Done by (simp add: notify_def [of e s])
  qed (use Cons.prems react_panics [of "cells es ! s" e] in \<open>auto simp: notify_def [of e s]\<close>)
qed simp

text \<open>C25: Opening a lifecycle stream can stop a flow. A client's subscription to lifecycle events has been
  registered but does not have its predicate yet. If any actor now persists an event that is not a lifecycle
  event, the event is stored, but the client's callback makes the actor that persists it panic with a failed
  type assertion, and to that panic the strategy that supervises the actors of flows answers with a stop of the
  actor, not with a restart.\<close>

theorem lifecycle_stream_stops_flow:
  assumes "stream_run as empty_stream = Some es" and "quiet as empty_stream"
    and "client_at s es = Some (LifecycleClient st)" and "\<not> filtered s es" and "s \<in> live_subs es"
    and "persist name index e w = Done w'" and "toGraphLifecycleEvent index e = None"
  shows "\<exists>es'. stream_PersistEvent persist name index e (w, es) = Panic BadTypeAssertion (w', es') \<and>
    HandleFailure graphStrategy BadTypeAssertion now noise rs = ([PublishFailure StopDirective, StopChildren], rs)"
proof -
  have ok: "clients_ok es"
    using stream_run_ok [OF clients_ok_empty assms(1,2)] .
  let ?e = "stream_event name (index, e)"
  have panics: "react ?e (cells es ! s) = Panic BadTypeAssertion (LifecycleClient st)"
    using ok assms(3,4,5,7) by (auto simp: clients_ok_def client_ok_def client_at_def filtered_def react_def lc_callback_def
        stream_event_def split: if_splits)
  have "\<exists>es'. EventStream_Publish ?e es = Panic BadTypeAssertion es'"
    unfolding EventStream_Publish_def
  proof (rule notify_panics [OF _ _ assms(5) panics])
    show "\<forall>s \<in> live_subs es. s < length (cells es) \<and> client_ok (cells es ! s)"
      using ok stream_ok_live [of es] by (auto simp: clients_ok_def)
  qed (use ok in \<open>simp add: clients_ok_def stream_ok_def\<close>)
  then show ?thesis
    using assms(6)
    by (auto simp: stream_PersistEvent_def HandleFailure_def graphStrategy_def NewExponentialBackoffStrategy_def graphDecider_def)
qed

text \<open>The same window lets a client see another flow's events: a journal subscription buffers what is
  published before its predicate is set, and delivers it.\<close>

definition demo_other :: "Event StreamEvent" where
  "demo_other = stream_event ''supervisor-0/other'' (3, GraphCommittedEvent ''other'' None)"

lemma other_flow_leaks:
  "\<exists>es b. stream_run [SubscribeClient (JournalClient ''supervisor-0/mine'' 0 (new_sub [])), Persisted demo_other, FilterClient 0,
      CommitJournal 0] empty_stream = Some es \<and>
    client_at 0 es = Some (JournalClient ''supervisor-0/mine'' 0 b) \<and> delivered b = [demo_other]"
  by (simp add: new_client_def new_sub_def Subscribe_def empty_stream_def EventStream_Publish_def notify_def react_def
      sub_callback_def filtered_def WithPredicate_def upd_cell_def client_at_def sub_commit_def upd_client_def)

section \<open>Witnesses\<close>

definition demo_mine :: "int \<Rightarrow> Event StreamEvent" where
  "demo_mine i = stream_event ''supervisor-0/mine'' (i, GraphCommittedEvent ''mine'' None)"

definition demo_actions2 :: "stream_action list" where
  "demo_actions2 = [SubscribeClient (LifecycleClient new_lifecycle_stream), FilterClient 0, FilterClient 1, Persisted demo_other,
     ReadJournal 0, Persisted (demo_mine 1), CommitJournal 0, EndClient 1, Persisted (demo_mine 2)]"

lemmas demo_evals = new_client_def new_sub_def Subscribe_def empty_stream_def EventStream_Publish_def notify_def react_def
  sub_callback_def filtered_def WithPredicate_def upd_cell_def client_at_def sub_commit_def sub_read_def upd_client_def UnsubscribeStream_def Unsubscribe_def
  isGraphLifecycleEvent_def new_lifecycle_stream_def sub_predicate_def stream_event_def

theorem subscriptions_isolated_witness:
  "\<exists>es b. stream_run (SubscribeClient (JournalClient ''supervisor-0/mine'' 0 (new_sub [(0, GraphCommittedEvent ''mine'' None)])) #
      demo_actions2) empty_stream = Some es \<and> client_at 0 es = Some (JournalClient ''supervisor-0/mine'' 0 b) \<and>
    prefix [demo_mine 0] (delivered b) \<and> {demo_mine 1, demo_mine 2} \<subseteq> set (delivered b)"
proof -
  let ?rows = "[(0::int, GraphCommittedEvent ''mine'' None)]"
  let ?as = "SubscribeClient (JournalClient ''supervisor-0/mine'' 0 (new_sub ?rows)) # demo_actions2"
  have run: "stream_run ?as empty_stream \<noteq> None" and q: "quiet ?as empty_stream"
    by (simp_all add: demo_actions2_def demo_mine_def demo_other_def demo_evals)
  then obtain es where es: "stream_run ?as empty_stream = Some es"
    by blast
  have "0 = length (cells empty_stream)"
    by (simp add: empty_stream_def)
  from subscriptions_isolated [of "[]", OF _ _ this es q] obtain b where b:
    "client_at 0 es = Some (JournalClient ''supervisor-0/mine'' 0 b)" "prefix [demo_mine 0] (delivered b)"
    "\<forall>e \<in> set (persisted demo_actions2). ActorName e = ''supervisor-0/mine'' \<longrightarrow> EventIndex e \<ge> 0 \<longrightarrow> EventIndex e \<ge> 0 \<longrightarrow>
       EventIndex e \<notin> fst ` set ?rows \<longrightarrow> e \<in> set (delivered b)"
    by (auto simp: demo_actions2_def demo_mine_def)
  then have "{demo_mine 1, demo_mine 2} \<subseteq> set (delivered b)"
    by (auto simp: demo_actions2_def demo_mine_def stream_event_def)
  then show ?thesis
    using es b(1,2) by blast
qed

theorem lifecycle_stream_stops_flow_witness:
  "\<exists>es es'. stream_run [SubscribeClient (LifecycleClient new_lifecycle_stream)] empty_stream = Some es \<and>
    stream_PersistEvent (\<lambda>name i e w. Done (w @ [(name, i, e)])) ''supervisor-0/mine'' 3 (GraphCommittedEvent ''mine'' None) ([], es) =
      Panic BadTypeAssertion ([(''supervisor-0/mine'', 3, GraphCommittedEvent ''mine'' None)], es')"
proof -
  let ?as = "[SubscribeClient (LifecycleClient new_lifecycle_stream)]"
  let ?es = "snd (Subscribe client_callback (LifecycleClient new_lifecycle_stream) empty_stream)"
  have "stream_run ?as empty_stream = Some ?es" "quiet ?as empty_stream"
    and "client_at 0 ?es = Some (LifecycleClient new_lifecycle_stream)" "\<not> filtered 0 ?es" "0 \<in> live_subs ?es"
    by (simp_all add: new_client_def Subscribe_def empty_stream_def client_at_def filtered_def)
  then show ?thesis
    using lifecycle_stream_stops_flow [of ?as ?es 0 new_lifecycle_stream "\<lambda>name i e w. Done (w @ [(name, i, e)])"
        "''supervisor-0/mine''" 3 "GraphCommittedEvent ''mine'' None" "[]"] by fastforce
qed

end
