(* ===== verification/Snapshots.thy ===== *)
theory Snapshots
  imports Event_Store
begin

text \<open>
  The whole persistence mixin of \<^verbatim>\<open>src/persistence/plugin.go\<close>, with snapshots, over any provider and any actor. No actor of the
  service takes snapshots, so the models of the actors leave them out; here is what the mixin does for one that
  would.
\<close>

section \<open>The mixin over a provider\<close>

text \<open>The operations of a provider for one actor.\<close>

record ('m, 'p) provider =
  provPersistEvent :: "int \<Rightarrow> 'm \<Rightarrow> 'p \<Rightarrow> 'p res"
  provPersistSnapshot :: "int \<Rightarrow> 'm \<Rightarrow> 'p \<Rightarrow> 'p res"
  provGetSnapshot :: "'p \<Rightarrow> ('m \<times> int) option \<times> 'p"
  provGetEvents :: "int \<Rightarrow> 'p \<Rightarrow> 'm read_result \<times> 'p"
  provInterval :: "'p \<Rightarrow> int"

definition inmem_provider :: "string \<Rightarrow> ('m, 'm InMemoryProvider) provider" where
  "inmem_provider name =
     \<lparr>provPersistEvent = \<lambda>i m p. Done (inmem_PersistEvent name i m p),
      provPersistSnapshot = \<lambda>i m p. Done (inmem_PersistSnapshot name i m p),
      provGetSnapshot = inmem_GetSnapshot name,
      provGetEvents = \<lambda>i p. (case inmem_GetEvents name i p of
         (Some es, p') \<Rightarrow> (ReadEvents es, p') | (None, p') \<Rightarrow> (ReadPanic (PanicMessage ''slice bounds out of range'') [], p')),
      provInterval = inmem_GetSnapshotInterval\<rparr>"

definition sql_provider :: "'m proto_codec \<Rightarrow> (EventRow list \<Rightarrow> EventRow list) \<Rightarrow> string \<Rightarrow> ('m, sqlProvider) provider" where
  "sql_provider c scan name =
     \<lparr>provPersistEvent = sql_PersistEvent c name, provPersistSnapshot = sql_PersistSnapshot c name,
      provGetSnapshot = sql_GetSnapshot c name, provGetEvents = \<lambda>i p. (sql_GetEvents c scan name i p, next_statement p),
      provInterval = sql_GetSnapshotInterval\<rparr>"

record ('p, 'a) persistent =
  pIndex :: int
  pRecovering :: bool
  pRequested :: bool
  pProvider :: 'p
  pActor :: 'a

definition with_provider :: "('p, 'a) persistent \<Rightarrow> 'p res \<Rightarrow> (('p, 'a) persistent \<Rightarrow> ('p, 'a) persistent res) \<Rightarrow> ('p, 'a) persistent res" where
  "with_provider s r f =
     (case r of
        Done p \<Rightarrow> f (s\<lparr>pProvider := p\<rparr>)
      | Panic e p \<Rightarrow> Panic e (s\<lparr>pProvider := p\<rparr>)
      | NoFuel \<Rightarrow> NoFuel)"

definition Mixin_PersistReceive :: "('m, 'p) provider \<Rightarrow> 'm \<Rightarrow> ('p, 'a) persistent \<Rightarrow> ('p, 'a) persistent res" where
  "Mixin_PersistReceive P message s =
     with_provider s (provPersistEvent P (pIndex s) message (pProvider s)) (\<lambda>s.
       let s = s\<lparr>pIndex := pIndex s + 1\<rparr>; interval = provInterval P (pProvider s) in
       if interval = 0 then Panic DivideByZero s
       else if pIndex s mod interval = 0 then Done (s\<lparr>pRequested := True\<rparr>)
       else Done s)"

definition Mixin_PersistSnapshot :: "('m, 'p) provider \<Rightarrow> 'm \<Rightarrow> ('p, 'a) persistent \<Rightarrow> ('p, 'a) persistent res" where
  "Mixin_PersistSnapshot P snap s =
     with_provider s (provPersistSnapshot P (pIndex s) snap (pProvider s)) Done"

text \<open>\<open>receive\<close> is how the actor takes a snapshot or an event that is replayed, \<open>replayed\<close> how it takes the end of the replay.\<close>

definition replay :: "('m \<Rightarrow> 'a \<Rightarrow> 'a) \<Rightarrow> (int \<times> 'm) list \<Rightarrow> ('p, 'a) persistent \<Rightarrow> ('p, 'a) persistent" where
  "replay receive es s = fold (\<lambda>(i, e) s. s\<lparr>pActor := receive e (pActor s), pIndex := i + 1\<rparr>) es s"

definition Mixin_init ::
  "('m, 'p) provider \<Rightarrow> ('m \<Rightarrow> 'a \<Rightarrow> 'a) \<Rightarrow> ('a \<Rightarrow> 'a) \<Rightarrow> ('p, 'a) persistent \<Rightarrow> ('p, 'a) persistent res" where
  "Mixin_init P receive replayed s =
     (let s = s\<lparr>pIndex := 0, pRecovering := True, pRequested := False\<rparr>;
          (found, p) = provGetSnapshot P (pProvider s);
          s = s\<lparr>pProvider := p\<rparr>;
          s = (case found of
                 Some (snap, i) \<Rightarrow> s\<lparr>pIndex := i, pActor := receive snap (pActor s)\<rparr>
               | None \<Rightarrow> s);
          (result, p) = provGetEvents P (pIndex s) (pProvider s);
          s = s\<lparr>pProvider := p\<rparr>
      in case result of
           ReadPanic e es \<Rightarrow> Panic e (replay receive es s)
         | ReadEvents es \<Rightarrow>
             (let s = replay receive es s in Done (s\<lparr>pRecovering := False, pActor := replayed (pActor s)\<rparr>)))"

section \<open>What the mixin relies on\<close>

locale snapshot_store =
  fixes P :: "('m, 'p) provider"
    and holds :: "'m list \<Rightarrow> ('m \<times> int) option \<Rightarrow> 'p \<Rightarrow> bool"
    and storable :: "'m \<Rightarrow> bool"
  assumes store_event: "holds ms sn p \<Longrightarrow> storable m \<Longrightarrow>
      \<exists>p'. provPersistEvent P (int (length ms)) m p = Done p' \<and> holds (ms @ [m]) sn p' \<and> provInterval P p' = provInterval P p"
    and store_snapshot: "holds ms sn p \<Longrightarrow> storable m \<Longrightarrow>
      \<exists>p'. provPersistSnapshot P i m p = Done p' \<and> holds ms (Some (m, i)) p' \<and> provInterval P p' = provInterval P p"
    and read_snapshot: "holds ms sn p \<Longrightarrow> \<exists>p'. provGetSnapshot P p = (sn, p') \<and> holds ms sn p'"
    and read_events: "holds ms sn p \<Longrightarrow> k \<le> length ms \<Longrightarrow>
      \<exists>es p'. provGetEvents P (int k) p = (ReadEvents es, p') \<and> holds ms sn p' \<and> map snd es = drop k ms"

text \<open>A store that also gives every event the index it was stored under.\<close>

locale indexed_store = snapshot_store +
  assumes read_indexes: "holds ms sn p \<Longrightarrow> k \<le> length ms \<Longrightarrow> fst (provGetEvents P (int k) p) = ReadEvents es \<Longrightarrow>
      map fst es = map int [k..<length ms]"

text \<open>An actor: how it takes events, and its snapshots, which bring back the state they were taken in. \<open>tracks\<close>: the actor has
  persisted and applied \<open>ms\<close>, and its snapshot, if any, was taken after some of them.\<close>

definition faithful_snapshots :: "('m \<Rightarrow> 'a \<Rightarrow> 'a) \<Rightarrow> ('a \<Rightarrow> 'm) \<Rightarrow> bool" where
  "faithful_snapshots receive snapshot_of \<longleftrightarrow> (\<forall>a b. receive (snapshot_of a) b = a)"

definition snapshot_point :: "('m \<Rightarrow> 'a \<Rightarrow> 'a) \<Rightarrow> ('a \<Rightarrow> 'm) \<Rightarrow> 'a \<Rightarrow> 'm list \<Rightarrow> ('m \<times> int) option \<Rightarrow> bool" where
  "snapshot_point receive snapshot_of a0 ms sn \<longleftrightarrow>
     sn = None \<or> (\<exists>k \<le> length ms. sn = Some (snapshot_of (fold receive (take k ms) a0), int k))"

context snapshot_store
begin

definition tracks :: "('m \<Rightarrow> 'a \<Rightarrow> 'a) \<Rightarrow> ('a \<Rightarrow> 'm) \<Rightarrow> 'a \<Rightarrow> 'm list \<Rightarrow> ('p, 'a) persistent \<Rightarrow> bool" where
  "tracks receive snapshot_of a0 ms s \<longleftrightarrow>
     pIndex s = int (length ms) \<and> pActor s = fold receive ms a0 \<and> provInterval P (pProvider s) \<noteq> 0 \<and>
     (\<exists>sn. holds ms sn (pProvider s) \<and> snapshot_point receive snapshot_of a0 ms sn)"

lemma tracks_event:
  assumes "tracks receive snapshot_of a0 ms s" and "storable m"
  shows "\<exists>t. Mixin_PersistReceive P m s = Done t \<and> pActor t = pActor s \<and>
    tracks receive snapshot_of a0 (ms @ [m]) (t\<lparr>pActor := receive m (pActor t)\<rparr>)"
proof -
  obtain sn where sn: "holds ms sn (pProvider s)" "snapshot_point receive snapshot_of a0 ms sn"
    and s: "pIndex s = int (length ms)" "pActor s = fold receive ms a0" "provInterval P (pProvider s) \<noteq> 0"
    using assms(1) by (auto simp: tracks_def)
  obtain p where p: "provPersistEvent P (int (length ms)) m (pProvider s) = Done p" "holds (ms @ [m]) sn p"
      "provInterval P p = provInterval P (pProvider s)"
    using store_event [OF sn(1) assms(2)] by blast
  have "snapshot_point receive snapshot_of a0 (ms @ [m]) sn"
    using sn(2) by (fastforce simp: snapshot_point_def)
  then show ?thesis
    using s p by (auto simp: Mixin_PersistReceive_def with_provider_def tracks_def Let_def)
qed

lemma tracks_snapshot:
  assumes "tracks receive snapshot_of a0 ms s" and "storable (snapshot_of (pActor s))"
  shows "\<exists>t. Mixin_PersistSnapshot P (snapshot_of (pActor s)) s = Done t \<and> tracks receive snapshot_of a0 ms t"
proof -
  obtain sn where sn: "holds ms sn (pProvider s)"
    and s: "pIndex s = int (length ms)" "pActor s = fold receive ms a0" "provInterval P (pProvider s) \<noteq> 0"
    using assms(1) by (auto simp: tracks_def)
  obtain p where "provPersistSnapshot P (int (length ms)) (snapshot_of (pActor s)) (pProvider s) = Done p"
      "holds ms (Some (snapshot_of (pActor s), int (length ms))) p" "provInterval P p = provInterval P (pProvider s)"
    using store_snapshot [OF sn assms(2)] by blast
  then show ?thesis
    using s by (auto simp: Mixin_PersistSnapshot_def with_provider_def tracks_def snapshot_point_def intro!: exI [of _ "length ms"])
qed

lemma replay_state: "pActor (replay receive es s) = fold receive (map snd es) (pActor s) \<and>
  pProvider (replay receive es s) = pProvider s \<and> pIndex (replay receive es s) = (if es = [] then pIndex s else fst (last es) + 1)"
  by (induction es arbitrary: s) (auto simp: replay_def)

text \<open>A restart brings the state back, with the replay of only the events after the snapshot.\<close>

lemma restart:
  assumes "faithful_snapshots receive snapshot_of" and "snapshot_point receive snapshot_of a0 ms sn" and "holds ms sn (pProvider s)"
    and "pActor s = a0"
  obtains t k es where "Mixin_init P receive replayed s = Done t" and "pActor t = replayed (fold receive ms a0)" and "\<not> pRecovering t"
    and "k \<le> length ms" and "map snd es = drop k ms" and "pIndex t = (if es = [] then int k else fst (last es) + 1)"
    and "\<exists>p. holds ms sn p \<and> fst (provGetEvents P (int k) p) = ReadEvents es"
proof -
  obtain p where p: "provGetSnapshot P (pProvider s) = (sn, p)" "holds ms sn p"
    using read_snapshot [OF assms(3)] by blast
  obtain k a where k: "k \<le> length ms" "a = fold receive (take k ms) a0"
      "(case sn of Some (snap, i) \<Rightarrow> i = int k \<and> receive snap a0 = a | None \<Rightarrow> k = 0)"
    using assms(1,2) by (force simp: snapshot_point_def faithful_snapshots_def)
  obtain es p' where es: "provGetEvents P (int k) p = (ReadEvents es, p')" "map snd es = drop k ms"
    using read_events [OF p(2) k(1)] by blast
  define u where "u = \<lparr>pIndex = int k, pRecovering = True, pRequested = False, pProvider = p', pActor = a\<rparr>"
  have "Mixin_init P receive replayed s =
      Done ((replay receive es u)\<lparr>pRecovering := False, pActor := replayed (pActor (replay receive es u))\<rparr>)"
    using p(1) k(2,3) es(1) assms(4) by (cases s; cases sn) (auto simp: Mixin_init_def u_def Let_def)
  moreover have "pActor (replay receive es u) = fold receive ms a0"
    using replay_state [of receive es u] es(2) k(2) fold_append [of receive "take k ms" "drop k ms"] by (simp add: u_def)
  moreover have "pIndex (replay receive es u) = (if es = [] then int k else fst (last es) + 1)"
    using replay_state [of receive es u] by (simp add: u_def)
  ultimately show ?thesis
    using that [of _ k es] k(1) es p(2) by fastforce
qed

end

context indexed_store
begin

lemma restart_index:
  assumes "faithful_snapshots receive snapshot_of" and "snapshot_point receive snapshot_of a0 ms sn" and "holds ms sn (pProvider s)"
    and "pActor s = a0"
  shows "\<exists>t. Mixin_init P receive replayed s = Done t \<and> pActor t = replayed (fold receive ms a0) \<and>
    pIndex t = int (length ms) \<and> \<not> pRecovering t"
proof -
  obtain t k es where t: "Mixin_init P receive replayed s = Done t" "pActor t = replayed (fold receive ms a0)" "\<not> pRecovering t"
      "k \<le> length ms" "map snd es = drop k ms" "pIndex t = (if es = [] then int k else fst (last es) + 1)"
    and "\<exists>p. holds ms sn p \<and> fst (provGetEvents P (int k) p) = ReadEvents es"
    using restart [OF assms] by blast
  then have fst: "map fst es = map int [k..<length ms]"
    using read_indexes t(4) by blast
  have "pIndex t = int (length ms)"
  proof (cases "k = length ms")
    case True
    then show ?thesis
      using t(5,6) by simp
  next
    case False
    then have "es \<noteq> []"
      using t(4,5) by auto
    moreover have "last (map int [k..<length ms]) = int (length ms - 1)"
      using t(4) False by (subst last_map) auto
    ultimately show ?thesis
      using t(4,6) False by (simp add: last_map flip: fst)
  qed
  then show ?thesis
    using t by blast
qed

end

section \<open>The stores\<close>

definition inmem_holds :: "string \<Rightarrow> 'm list \<Rightarrow> ('m \<times> int) option \<Rightarrow> 'm InMemoryProvider \<Rightarrow> bool" where
  "inmem_holds name ms sn p \<longleftrightarrow>
     (let e = (case map_of (store p) name of Some e \<Rightarrow> e | None \<Rightarrow> empty_entry) in
      events e = ms \<and> map_option (\<lambda>m. (m, entryIndex e)) (snapshot e) = sn)"

interpretation inmem_snapshots: snapshot_store "inmem_provider name" "inmem_holds name" "\<lambda>m. True" for name
proof unfold_locales
  fix ms :: "'a list" and sn p m i k
  assume *: "inmem_holds name ms sn p"
  show "\<exists>p'. provPersistEvent (inmem_provider name) (int (length ms)) m p = Done p' \<and> inmem_holds name (ms @ [m]) sn p' \<and>
      provInterval (inmem_provider name) p' = provInterval (inmem_provider name) p"
    using * by (auto simp: inmem_provider_def inmem_holds_def inmem_PersistEvent_def loadOrInit_def put_entry_def update_conv
        inmem_GetSnapshotInterval_def Let_def split: option.splits)
  show "\<exists>p'. provPersistSnapshot (inmem_provider name) i m p = Done p' \<and> inmem_holds name ms (Some (m, i)) p' \<and>
      provInterval (inmem_provider name) p' = provInterval (inmem_provider name) p"
    using * by (auto simp: inmem_provider_def inmem_holds_def inmem_PersistSnapshot_def loadOrInit_def put_entry_def update_conv
        inmem_GetSnapshotInterval_def Let_def split: option.splits)
  show "\<exists>p'. provGetSnapshot (inmem_provider name) p = (sn, p') \<and> inmem_holds name ms sn p'"
    using * by (auto simp: inmem_provider_def inmem_holds_def inmem_GetSnapshot_def loadOrInit_def update_conv empty_entry_def Let_def
        split: option.splits)
  assume "k \<le> length ms"
  then show "\<exists>es p'. provGetEvents (inmem_provider name) (int k) p = (ReadEvents es, p') \<and> inmem_holds name ms sn p' \<and> map snd es = drop k ms"
    using * by (auto simp: inmem_provider_def inmem_holds_def inmem_GetEvents_def loadOrInit_def update_conv empty_entry_def Let_def
        split: option.splits)
qed

definition sql_holds :: "'m proto_codec \<Rightarrow> string \<Rightarrow> 'm list \<Rightarrow> ('m \<times> int) option \<Rightarrow> sqlProvider \<Rightarrow> bool" where
  "sql_holds c name ms sn p \<longleftrightarrow>
     (\<forall>n. \<not> dbFault p n) \<and>
     map (\<lambda>r. (rowIndex r, extractData c (rowType r) (rowEvent r))) (filter (\<lambda>r. rowActor r = name) (eventRows p)) =
       map (\<lambda>(i, m). (i, Some m)) (indexes_from 0 ms) \<and>
     map (\<lambda>r. (extractData c (snapType r) (snapData r), snapIndex r)) (filter (\<lambda>r. snapActor r = name) (snapshotRows p)) =
       (case sn of None \<Rightarrow> [] | Some (m, i) \<Rightarrow> [(Some m, i)])"

lemma filter_index:
  fixes key :: "'r \<Rightarrow> int"
  assumes "map key zs = map int [0..<length zs]"
  shows "filter (\<lambda>r. int k \<le> key r) zs = drop k zs"
proof -
  have key: "key (zs ! i) = int i" if "i < length zs" for i
    using arg_cong [OF assms, of "\<lambda>xs. xs ! i"] that by simp
  have "filter (\<lambda>r. int k \<le> key r) (take k zs) = []"
    by (auto simp: filter_empty_conv in_set_conv_nth key)
  moreover have "filter (\<lambda>r. int k \<le> key r) (drop k zs) = drop k zs"
    by (auto simp: filter_id_conv in_set_conv_nth key)
  ultimately show ?thesis
    using filter_append [of "\<lambda>r. int k \<le> key r" "take k zs" "drop k zs"] by simp
qed

lemma sort_by_index:
  fixes key :: "'r \<Rightarrow> int"
  assumes "mset ys = mset zs" and "distinct (map key zs)" and "sorted (map key zs)"
  shows "sort_key key ys = zs"
proof (rule map_sorted_distinct_set_unique [where f = key])
  have set: "set ys = set zs"
    by (rule mset_eq_setD [OF assms(1)])
  then show "inj_on key (set (sort_key key ys) \<union> set zs)"
    using assms(2) by (simp add: distinct_map)
  have "mset (map key (sort_key key ys)) = mset (map key zs)"
    using assms(1) by simp
  then show "distinct (map key (sort_key key ys))"
    using assms(2) by (metis mset_eq_imp_distinct_iff)
qed (use assms mset_eq_setD [OF assms(1)] in simp_all)

lemma sql_read_from:
  assumes p: "sql_holds c name ms sn p" and scan: "mset (scan (eventRows p)) = mset (eventRows p)"
  shows "sql_GetEvents c scan name (int k) p = ReadEvents (drop k (indexes_from 0 ms))"
proof -
  let ?own = "filter (\<lambda>r. rowActor r = name) (eventRows p)"
  let ?dec = "\<lambda>r. (rowIndex r, extractData c (rowType r) (rowEvent r))"
  have rows: "map ?dec ?own = map (\<lambda>(i, m). (i, Some m)) (indexes_from 0 ms)"
    using p by (simp add: sql_holds_def)
  have keys: "map rowIndex ?own = map int [0..<length ms]"
    using arg_cong [OF rows, of "map fst"] by (simp add: comp_def case_prod_beta indexes_from_def)
  have len: "length ?own = length ms"
    using arg_cong [OF keys, of length] by simp
  have "filter (\<lambda>r. int k \<le> rowIndex r) ?own = drop k ?own"
    using keys len by (intro filter_index) simp
  then have "filter (\<lambda>r. rowActor r = name \<and> int k \<le> rowIndex r) (eventRows p) = drop k ?own"
    by simp
  then have "mset (filter (\<lambda>r. rowActor r = name \<and> int k \<le> rowIndex r) (scan (eventRows p))) = mset (drop k ?own)"
    using scan by (simp flip: mset_filter add: mset_filter [of _ "scan (eventRows p)"])
  then have sort: "sort_key rowIndex (filter (\<lambda>r. rowActor r = name \<and> int k \<le> rowIndex r) (scan (eventRows p))) = drop k ?own"
    by (rule sort_by_index) (simp_all add: keys distinct_map sorted_wrt_map sorted_wrt_drop flip: drop_map)
  have "decode_rows c rs = (es, True)" if "map ?dec rs = map (\<lambda>(i, m). (i, Some m)) es" for rs es
    using that by (induction rs arbitrary: es) auto
  moreover have "map ?dec (drop k ?own) = map (\<lambda>(i, m). (i, Some m)) (drop k (indexes_from 0 ms))"
    using arg_cong [OF rows, of "drop k"] by (simp only: drop_map)
  ultimately have "decode_rows c (drop k ?own) = (drop k (indexes_from 0 ms), True)"
    by blast
  then show ?thesis
    using sort p by (simp add: sql_GetEvents_def sql_holds_def)
qed

lemma sql_indexed_store:
  assumes scan: "\<And>rows. mset (scan rows) = mset rows"
  shows "indexed_store (sql_provider c scan name) (sql_holds c name) (codec_ok c)"
proof unfold_locales
  fix ms :: "'a list" and sn p m i
  assume *: "sql_holds c name ms sn p" and m: "codec_ok c m"
  then obtain bytes where b: "Marshal c m = Some bytes" "Unmarshal c (MessageName c m) bytes = Some m"
    by (auto simp: codec_ok_def split: option.splits)
  show "\<exists>p'. provPersistEvent (sql_provider c scan name) (int (length ms)) m p = Done p' \<and> sql_holds c name (ms @ [m]) sn p' \<and>
      provInterval (sql_provider c scan name) p' = provInterval (sql_provider c scan name) p"
    using * b by (simp add: sql_provider_def sql_holds_def sql_PersistEvent_def next_statement_def extractData_def
        indexes_from_snoc sql_GetSnapshotInterval_def)
  show "\<exists>p'. provPersistSnapshot (sql_provider c scan name) i m p = Done p' \<and> sql_holds c name ms (Some (m, i)) p' \<and>
      provInterval (sql_provider c scan name) p' = provInterval (sql_provider c scan name) p"
    using * b by (simp add: sql_provider_def sql_holds_def sql_PersistSnapshot_def next_statement_def extractData_def
        sql_GetSnapshotInterval_def)
next
  fix ms :: "'a list" and sn p k es
  assume *: "sql_holds c name ms sn p"
  have next_holds: "sql_holds c name ms sn (next_statement p)"
    using * by (simp add: sql_holds_def next_statement_def)
  have "sql_GetSnapshot c name p = (sn, next_statement p)"
    using * by (cases "filter (\<lambda>r. snapActor r = name) (snapshotRows p)")
      (auto simp: sql_GetSnapshot_def sql_holds_def split: option.splits)
  then show "\<exists>p'. provGetSnapshot (sql_provider c scan name) p = (sn, p') \<and> sql_holds c name ms sn p'"
    using next_holds by (simp add: sql_provider_def)
  have read: "provGetEvents (sql_provider c scan name) (int k) p = (ReadEvents (drop k (indexes_from 0 ms)), next_statement p)"
    using sql_read_from [OF *, of scan k] scan by (simp add: sql_provider_def)
  assume k: "k \<le> length ms"
  show "\<exists>es p'. provGetEvents (sql_provider c scan name) (int k) p = (ReadEvents es, p') \<and> sql_holds c name ms sn p' \<and>
      map snd es = drop k ms"
    using read next_holds by (simp add: indexes_from_def flip: drop_map)
  assume "fst (provGetEvents (sql_provider c scan name) (int k) p) = ReadEvents es"
  then have "map fst es = drop k (map fst (indexes_from 0 ms))"
    using read by (auto simp: drop_map)
  then show "map fst es = map int [k..<length ms]"
    by (simp add: indexes_from_def drop_map)
qed

interpretation sql_snapshots: indexed_store "sql_provider c (\<lambda>rows. rows) name" "sql_holds c name" "codec_ok c" for c name
  by (rule sql_indexed_store) simp

section \<open>Restarts with snapshots\<close>

text \<open>What an actor does with its mixin: it persists an event and then applies it, or it persists a snapshot of its state.\<close>

datatype 'm persist_action = PersistEvent 'm | TakeSnapshot

fun persist_run ::
  "('m, 'p) provider \<Rightarrow> ('m \<Rightarrow> 'a \<Rightarrow> 'a) \<Rightarrow> ('a \<Rightarrow> 'm) \<Rightarrow> 'm persist_action list \<Rightarrow> ('p, 'a) persistent \<Rightarrow> ('p, 'a) persistent res" where
  "persist_run P receive snapshot_of [] s = Done s"
| "persist_run P receive snapshot_of (PersistEvent m # as) s =
     bind_res (Mixin_PersistReceive P m s) (\<lambda>s. persist_run P receive snapshot_of as (s\<lparr>pActor := receive m (pActor s)\<rparr>))"
| "persist_run P receive snapshot_of (TakeSnapshot # as) s =
     bind_res (Mixin_PersistSnapshot P (snapshot_of (pActor s)) s) (persist_run P receive snapshot_of as)"

fun persisted_events :: "'m persist_action list \<Rightarrow> 'm list" where
  "persisted_events [] = []"
| "persisted_events (PersistEvent m # as) = m # persisted_events as"
| "persisted_events (TakeSnapshot # as) = persisted_events as"

context snapshot_store
begin

lemma run_tracks:
  assumes "tracks receive snapshot_of a0 ms s" and "\<And>m. PersistEvent m \<in> set as \<Longrightarrow> storable m" and "\<And>a. storable (snapshot_of a)"
  shows "\<exists>t. persist_run P receive snapshot_of as s = Done t \<and> tracks receive snapshot_of a0 (ms @ persisted_events as) t"
  using assms
proof (induction as arbitrary: s ms)
  case (Cons a as)
  show ?case
  proof (cases a)
    case (PersistEvent m)
    then obtain t where t: "Mixin_PersistReceive P m s = Done t" "tracks receive snapshot_of a0 (ms @ [m]) (t\<lparr>pActor := receive m (pActor t)\<rparr>)"
      using tracks_event [OF Cons.prems(1)] Cons.prems(2) by auto
    then show ?thesis
      using Cons.IH [OF t(2)] Cons.prems(2,3) PersistEvent by auto
  next
    case TakeSnapshot
    then obtain t where t: "Mixin_PersistSnapshot P (snapshot_of (pActor s)) s = Done t" "tracks receive snapshot_of a0 ms t"
      using tracks_snapshot [OF Cons.prems(1,3)] by auto
    then show ?thesis
      using Cons.IH [OF t(2)] Cons.prems(2,3) TakeSnapshot by auto
  qed
qed auto

end

definition new_persistent :: "'p \<Rightarrow> 'a \<Rightarrow> ('p, 'a) persistent" where
  "new_persistent p a = \<lparr>pIndex = 0, pRecovering = False, pRequested = False, pProvider = p, pActor = a\<rparr>"

text \<open>C27: Restarting from a snapshot is the same as replaying the whole journal. Let an actor persist events and take snapshots of
  its state through the mixin, in any order, on the SQL store, which scans its tables in any order and whose statements do not fail,
  with a snapshot interval other than 0, events and snapshots that survive the protobuf codec, and an actor that takes over its own
  snapshots: handling one gives the state it was taken of. (No actor of the service takes snapshots; this is what the mixin promises to one
  that does.) Under these conditions nothing panics, and an actor that starts afresh on the same store ends up, from the last snapshot
  and the events after it, in the state that all the events lead to, and goes on numbering its events where the journal ends.\<close>

theorem snapshot_restart:
  assumes "\<And>rows. mset (scan rows) = mset rows" and "faithful_snapshots receive snapshot_of"
    and "\<And>m. PersistEvent m \<in> set as \<Longrightarrow> codec_ok c m" and "\<And>a. codec_ok c (snapshot_of a)" and "interval \<noteq> 0"
  shows "\<exists>s t. persist_run (sql_provider c scan name) receive snapshot_of as (new_persistent (NewSQLProvider interval (\<lambda>_. False)) a0) = Done s \<and>
    Mixin_init (sql_provider c scan name) receive replayed (new_persistent (pProvider s) a0) = Done t \<and>
    pActor t = replayed (fold receive (persisted_events as) a0) \<and> pIndex t = int (length (persisted_events as))"
proof -
  note store = sql_indexed_store [OF assms(1), of c name]
  note base = indexed_store.axioms(1) [OF store]
  let ?s = "new_persistent (NewSQLProvider interval (\<lambda>_. False)) a0"
  have "snapshot_store.tracks (sql_provider c scan name) (sql_holds c name) receive snapshot_of a0 [] ?s"
    using assms(5) unfolding snapshot_store.tracks_def [OF base]
    by (auto simp: new_persistent_def NewSQLProvider_def sql_provider_def sql_GetSnapshotInterval_def sql_holds_def snapshot_point_def
        intro!: exI [of _ None])
  then obtain s where s: "persist_run (sql_provider c scan name) receive snapshot_of as ?s = Done s"
      "snapshot_store.tracks (sql_provider c scan name) (sql_holds c name) receive snapshot_of a0 (persisted_events as) s"
    using snapshot_store.run_tracks [OF base _ assms(3,4)] by fastforce
  then obtain sn where "sql_holds c name (persisted_events as) sn (pProvider s)"
      "snapshot_point receive snapshot_of a0 (persisted_events as) sn"
    by (auto simp: snapshot_store.tracks_def [OF base])
  then show ?thesis
    using indexed_store.restart_index [OF store assms(2), of a0 "persisted_events as" sn "new_persistent (pProvider s) a0" replayed] s(1)
    by (auto simp: new_persistent_def)
qed

text \<open>An actor whose state and whose messages are strings: an event is added at the end, a snapshot starts with an asterisk.\<close>

definition text_receive :: "string \<Rightarrow> string \<Rightarrow> string" where
  "text_receive m a = (case m of [] \<Rightarrow> a | ch # rest \<Rightarrow> if ch = CHR ''*'' then rest else a @ m)"

definition text_snapshot :: "string \<Rightarrow> string" where
  "text_snapshot a = CHR ''*'' # a"

definition demo_persists :: "string persist_action list" where
  "demo_persists = [PersistEvent ''a'', PersistEvent ''b'', TakeSnapshot, PersistEvent ''c'']"

lemma text_snapshots: "faithful_snapshots text_receive text_snapshot"
  by (simp add: faithful_snapshots_def text_receive_def text_snapshot_def)

theorem snapshot_restart_witness:
  "\<exists>s t. persist_run (sql_provider string_codec rev ''actor'') text_receive text_snapshot demo_persists
      (new_persistent (NewSQLProvider 2 (\<lambda>_. False)) '''') = Done s \<and>
    Mixin_init (sql_provider string_codec rev ''actor'') text_receive id (new_persistent (pProvider s) '''') = Done t \<and>
    pActor t = ''abc'' \<and> pIndex t = 3"
proof -
  have "codec_ok string_codec m" for m
    by (simp add: codec_ok_def string_codec_def)
  then show ?thesis
    using snapshot_restart [of rev text_receive text_snapshot demo_persists string_codec 2 "''actor''" "''''" id] text_snapshots
    by (simp add: demo_persists_def text_receive_def)
qed

text \<open>The in-memory store brings the state back as well, but it numbers the events that it reads from the start of the read: the
  actor goes on with a number that is too low. Its next snapshot is stored under that number, so that the restart after that
  applies events to it that it has in it already.\<close>

theorem inmem_restart_state:
  assumes "faithful_snapshots receive snapshot_of" and "interval \<noteq> 0"
  shows "\<exists>s t. persist_run (inmem_provider name) receive snapshot_of as (new_persistent (NewInMemoryProvider interval) a0) = Done s \<and>
    Mixin_init (inmem_provider name) receive replayed (new_persistent (pProvider s) a0) = Done t \<and>
    pActor t = replayed (fold receive (persisted_events as) a0)"
proof -
  have "inmem_snapshots.tracks name receive snapshot_of a0 [] (new_persistent (NewInMemoryProvider interval) a0)"
    unfolding inmem_snapshots.tracks_def using assms(2)
    by (auto simp: new_persistent_def NewInMemoryProvider_def inmem_provider_def inmem_GetSnapshotInterval_def inmem_holds_def
        empty_entry_def snapshot_point_def intro!: exI [of _ None])
  then obtain s where s: "persist_run (inmem_provider name) receive snapshot_of as (new_persistent (NewInMemoryProvider interval) a0) = Done s"
      "inmem_snapshots.tracks name receive snapshot_of a0 (persisted_events as) s"
    using inmem_snapshots.run_tracks [of name receive snapshot_of a0 "[]"] by fastforce
  then obtain sn where sn: "inmem_holds name (persisted_events as) sn (pProvider s)"
      "snapshot_point receive snapshot_of a0 (persisted_events as) sn"
    by (auto simp: inmem_snapshots.tracks_def)
  show ?thesis
    using inmem_snapshots.restart [OF assms(1) sn(2), of name "new_persistent (pProvider s) a0" replayed] sn(1) s(1)
    by (auto simp: new_persistent_def)
qed

definition inmem_restarted :: "string InMemoryProvider \<Rightarrow> (string InMemoryProvider, string) persistent" where
  "inmem_restarted p =
     (case Mixin_init (inmem_provider ''actor'') text_receive id (new_persistent p '''') of Done t \<Rightarrow> t | _ \<Rightarrow> new_persistent p '''')"

definition inmem_after :: "string persist_action list \<Rightarrow> (string InMemoryProvider, string) persistent \<Rightarrow> (string InMemoryProvider, string) persistent" where
  "inmem_after as s = (case persist_run (inmem_provider ''actor'') text_receive text_snapshot as s of Done t \<Rightarrow> t | _ \<Rightarrow> s)"

theorem inmem_snapshots_misnumbered:
  "let first = inmem_after demo_persists (new_persistent (NewInMemoryProvider 100) '''');
       second = inmem_restarted (pProvider first);
       third = inmem_restarted (pProvider (inmem_after [TakeSnapshot] second))
   in pIndex first = 3 \<and> pActor second = ''abc'' \<and> pIndex second = 1 \<and> pActor third = ''abcbc''"
  by code_simp

end
