(* ===== verification/Flow_System.thy ===== *)
theory Flow_System
  imports Http_Server Rest_Response Cluster Supervisor Service_Properties
begin

text \<open>
  The way of a client's request through the whole system: the REST gateway of the node it comes in at, the interceptors of its API
  server, the cluster proxy, the node-local service of the node that owns the flow, the supervisor of the flow's shard and
  the flow's actor.
\<close>

section \<open>The services\<close>



section \<open>Nodes\<close>








section \<open>From the gateway to the actor\<close>
































end
