(* ===== verification/Spec2Isabelle.thy ===== *)
theory Spec2Isabelle
  imports Actor_Commands Actor_Replay Event_Delivery Cluster Service_Properties Supervisor Invocation_Safety Backoff
    Lifecycle_Merge Message_Validation Asset_Restore Setup Actor_Hosting Api_Server Flow_Completion Stage_Futures Subscriptions Snapshots Flow_System
begin

text \<open>
  \<^bold>\<open>The Fn Flow service.\<close> A client builds a flow, a graph of stages whose results feed each other, and the
  service runs it: each flow is one actor that owns the graph and its journal; closures and functions
  are invoked over HTTP by an executor actor and their results complete stages; one supervisor for each
  shard creates the flows' actors; a cluster proxy routes requests by the flow's identifier; stores keep the
  journals and the data of blobs; clients can stream a flow's events.

  \<^bold>\<open>Theories and sources.\<close> State of the Go structs is kept in records of the same name, operations
  have the names of the Go functions (with a prefix where two components share one).
    \<^item> \<open>Flow_Prelude\<close>, \<open>Service_Prelude\<close>: results that may panic (\<open>res\<close>, \<open>outcome\<close>), 64-bit integers, decimal
      printing, Go's string functions, iteration over maps in an arbitrary order (\<open>go_range\<close>).
    \<^item> \<open>Flow_Model\<close>: \<^verbatim>\<open>src/model\<close>: datums, results, errors, commands and events (protobuf messages as
      records and datatypes; a nil message is \<open>None\<close>).
    \<^item> \<open>Graph_State\<close>, \<open>Stage_Strategy\<close>, \<open>Completion_Graph\<close>: \<^verbatim>\<open>src/graph\<close>: stages, the trigger, execution and
      result strategies, the handlers of events, recovery and the validation of commands. The graph calls
      its listener in the middle of its handlers, so every handler takes the listener as an argument.
    \<^item> \<open>Persist_Mixin\<close>: \<^verbatim>\<open>src/persistence/plugin.go\<close> as the actors use it: a write to the store may fail, and the publication that follows it
      may fail too, which leaves the event stored (\<open>store_fault\<close>); \<open>Snapshots\<close>: the whole mixin, over a provider that is given by its
      operations (locales \<open>snapshot_store\<close> and \<open>indexed_store\<close>, interpreted for both providers and for the SQL one).
    \<^item> \<open>Graph_Actor\<close>: \<^verbatim>\<open>src/actor/graph.go\<close>: the actor is a record that extends the graph; \<open>outbox\<close> lists what it
      sends. It is the listener of its own graph, and its callbacks call the graph again:
      \<open>actorListener n\<close> is the listener for call depth \<open>n\<close>, and \<open>call_depth\<close>, which bounds the depth by the
      stages that are not yet resolved, is enough fuel for every command (\<open>command_terminates\<close>).
    \<^item> \<open>Graph_Contract\<close>, \<open>Listener_Contract\<close>, \<open>Flow_Spec\<close>, \<open>Listener_Progress\<close>, \<open>Listener_Settled\<close>, \<open>Listener_Launch\<close>: what the graph
      does under any listener that keeps a contract (locales \<open>listener_contract\<close>, \<open>listener_progress\<close> and
      their extensions; \<open>keeps\<close> says what holds when a handler ends normally and what a panic leaves), and the abstract specification: a flow is a fold of its events over a graph
      (\<open>flow_step\<close>, \<open>flow_run\<close>).
    \<^item> \<open>Actor_Journal\<close>, \<open>Actor_Progress\<close>, \<open>Actor_Settled\<close>, \<open>Actor_Runs\<close>, \<open>Actor_Demo\<close>: the actor keeps these
      contracts, where a panic after the write of an event leaves a journal that is one event ahead of the graph (\<open>torn\<close>);
      \<open>reachable\<close>: the states of an actor from its creation until it panics or is restarted, between its
      messages; concrete runs for witnesses.
    \<^item> \<open>Actor_Properties\<close>, \<open>Actor_Commands\<close>, \<open>Actor_Replay\<close>, \<open>Actor_Replies\<close>: the properties of the actor: the
      journal determines the graph, commands refine the specification, terminate and do not panic,
      ready stages are always triggered, flows progress to completion, results are final; what single
      commands do; replay; one answer for each request. \<open>Flow_Completion\<close>: no stage waits for a result that nobody was asked for,
      and a committed flow runs to completion when what it asks for is answered. \<open>Stage_Futures\<close>: the futures of the stages and the
      clients that wait for them, each of which is told the stage's result once; until the actor is restarted, which forgets them.
    \<^item> \<open>Event_Store\<close>, \<open>Event_Stream\<close>, \<open>Event_Delivery\<close>: the providers of \<^verbatim>\<open>src/persistence\<close>, their contract
      (locale \<open>event_provider\<close>, interpreted for both), a subscription, and the streams of \<^verbatim>\<open>src/actor/api.go\<close> as steps of
      their goroutines in any interleaving. \<open>Subscriptions\<close>: many clients on the registry of subscriptions of the actor library.
    \<^item> \<open>Sharding\<close>, \<open>Cluster\<close>: \<^verbatim>\<open>src/sharding\<close> (locale \<open>shard_extractor\<close>) and \<^verbatim>\<open>src/cluster\<close>: every shard has one
      owner, and a request reaches the supervisor of its flow from every node. \<open>Lifecycle_Merge\<close>: the proxy's merge of
      all nodes' lifecycle streams, as steps of its goroutines in any order, in which taking an event from a node's goroutine and sending it on are
      two steps.
    \<^item> \<open>Flow_Api\<close>, \<open>Service_Properties\<close>: \<^verbatim>\<open>src/actor/api.go\<close>: forwarding, timeouts, type assertions on answers. An actor's answer arrives after a
      delay that is a parameter, and the request fails if its deadline comes first.
    \<^item> \<open>Flow_System\<close>: a client's request on its way through all of it, from the REST gateway of any node to the flow's actor and back.
    \<^item> \<open>Request_Validation\<close>: \<^verbatim>\<open>src/model/model.validator.pb.go\<close>: validated requests cannot make an actor panic. \<open>Message_Validation\<close>: the
      validators of events, answers and internal messages, which nobody calls, held against the messages that the service makes.
    \<^item> \<open>Rest_Gateway\<close>: \<^verbatim>\<open>src/model/model.pb.gw.go\<close> with the pattern matcher, the query parser and the dispatch of the gateway
      library: which flow a REST request addresses, and how a query can change it. \<open>Rest_Response\<close>: its handlers with the context they
      make for the gRPC call and the answers they write: the status of an answer is that of success exactly if the call succeeded.
    \<^item> \<open>Api_Server\<close>: \<^verbatim>\<open>src/server\<close>: the deadline and the validation of API calls, the choice between gRPC and REST, and
      the collector that turns tracing spans into metrics. \<open>Http_Server\<close>: the routes and the middleware of the HTTP front end, with
      the dispatch of gin; its handlers write to gin's response writer, and they can fail or panic after they wrote. \<open>Api_Document\<close>, \<open>Asset_Restore\<close>: \<^verbatim>\<open>src/model/swagger_file.go\<close>.
    \<^item> \<open>Setup\<close>, \<open>Sql_Init\<close>: \<^verbatim>\<open>src/setup/setup.go\<close>, \<^verbatim>\<open>src/main.go\<close> and \<^verbatim>\<open>src/persistence/sql_init.go\<close>: the configuration with its defaults, the
      database with its tables, the wiring of a node and its process.
    \<^item> \<open>Actor_Hosting\<close>: \<^verbatim>\<open>src/persistence/receiver.go\<close> and \<^verbatim>\<open>src/actor/mixins.go\<close>: the middleware around an actor is transparent.
    \<^item> \<open>Supervisor\<close>, \<open>Backoff\<close>: \<^verbatim>\<open>src/actor/supervisor.go\<close> and \<^verbatim>\<open>src/actor/strategy.go\<close>: the set of active flows, its recovery,
      and the delays of restarts.
    \<^item> \<open>Blob_Store\<close>, \<open>Executor\<close>, \<open>Invocation_Safety\<close>: \<^verbatim>\<open>src/blobs\<close> (locale \<open>blob_store\<close>, interpreted for both stores) and
      \<^verbatim>\<open>src/actor/executor.go\<close>: invocations are answered, data passes unchanged, and validated traffic never
      ends the process.

  \<^bold>\<open>Parameters.\<close> The protobuf and JSON codecs, the functions platform, the URL parser, random numbers, the
  clock, failures of database statements and the order in which a table is scanned or a map is visited
  are arguments of the definitions; what a theorem relies on is a hypothesis, and its witness gives an
  instance.

  \<^bold>\<open>Not modelled.\<close> Logging; sockets, the database drivers and the tracing library, whose success is a parameter; the
  helpers for tests (\<^verbatim>\<open>dbtesting.go\<close>); the durations that metrics observe; the
  mailboxes of the actor library, of which only the order of one actor's messages is used.
\<close>

section \<open>Properties that span components\<close>

lemma written_indexes: "indexed s \<Longrightarrow> written (mixin s) = indexes_from 0 (journal s)"
  unfolding indexed_def indexes_from_def journal_def by (metis add_0 length_map zip_map_fst_snd)

text \<open>C3: A flow survives a restart of the service. Take any reachable state of a flow's actor and any
  interleaving of all actors' writes to the SQL store in which the flow's own writes are its journal.
  An actor that starts without a graph, reads its events from the store, in whatever order the database
  scans its table, and replays them, has the flow's graph and event index again, if the journal
  has no composition and no event whose handler panics.\<close>

theorem flow_survives_restart:
  assumes "reachable s" and "hasGraph s" and "\<not> hasGraph r"
    and "replayable (graph_New (GraphID s) (FunctionID s) 0 (\<lambda>_. []) ()) (tl (journal s))"
    and "map snd (filter (\<lambda>(n', e). n' = name) writes) = journal s"
    and "list_all (codec_ok codec \<circ> snd) writes" and "\<And>rows. mset (scan rows) = mset rows"
  shows "\<exists>events t. sql_GetEvents codec scan name 0
      (persist_all (sql_persist codec) writes (\<lambda>_. 0) (NewSQLProvider interval (\<lambda>_. False))) = ReadEvents events \<and>
    fold_res replay_one events (r\<lparr>mixin := mixin_start (mixin r)\<rparr>) = Done t \<and>
    hasGraph t \<and> view t = view s \<and> eventIndex (mixin t) = eventIndex (mixin s)"
proof -
  have "indexed s"
    using reachable_facts(3) [OF assms(1,2)] by (auto simp: consistent_def)
  then have "written (mixin s) = indexes_from 0 (journal s)"
    by (rule written_indexes)
  then show ?thesis
    using replay_restores [OF assms(1-4)] sql_reads_back [OF assms(7,6), of name interval] assms(5) by auto
qed

text \<open>A codec for the events of one journal, which stores the position of an event.\<close>

definition position_codec :: "Event list \<Rightarrow> Event proto_codec" where
  "position_codec es =
     \<lparr>MessageName = (\<lambda>e. ''event''), Marshal = (\<lambda>e. Some (itoa (length (takeWhile (\<lambda>x. x \<noteq> e) es)))),
      Unmarshal = (\<lambda>n b. Some (es ! digits_value b))\<rparr>"

lemma position_codec_ok: "e \<in> set es \<Longrightarrow> codec_ok (position_codec es) e"
proof -
  have "e \<in> set es \<Longrightarrow> es ! length (takeWhile (\<lambda>x. x \<noteq> e) es) = e"
    by (induction es) auto
  then show "e \<in> set es \<Longrightarrow> codec_ok (position_codec es) e"
    by (simp add: codec_ok_def position_codec_def)
qed

theorem flow_survives_restart_witness:
  "\<exists>events t. sql_GetEvents (position_codec (journal finishing)) rev ''supervisor-0/flow'' 0
      (persist_all (sql_persist (position_codec (journal finishing))) (map (Pair ''supervisor-0/flow'') (journal finishing))
        (\<lambda>_. 0) (NewSQLProvider 100 (\<lambda>_. False))) = ReadEvents events \<and>
    fold_res replay_one events (new_actor\<lparr>mixin := mixin_start (mixin new_actor)\<rparr>) = Done t \<and>
    hasGraph t \<and> view t = view finishing \<and> eventIndex (mixin t) = eventIndex (mixin finishing)"
proof (rule flow_survives_restart [OF demo_reachable(3) demo_hasGraph(3)])
  show "\<not> hasGraph new_actor"
    by (simp add: new_actor_def)
  show "replayable (graph_New (GraphID finishing) (FunctionID finishing) 0 (\<lambda>_. []) ()) (tl (journal finishing))"
    by code_simp
  show "list_all (codec_ok (position_codec (journal finishing)) \<circ> snd) (map (Pair ''supervisor-0/flow'') (journal finishing))"
    by (simp add: list_all_iff position_codec_ok)
qed (simp_all add: comp_def)

end
